(* ===== verification/Prelude.thy ===== *)
theory Prelude
  imports Main "HOL-Library.Word" "HOL-Library.Monad_Syntax" "HOL-Library.Sublist"
begin

text \<open>
  Shared vocabulary of the development.

  \<^item> C strings are Isabelle strings (lists of characters without the terminating NUL), so
    \<^verbatim>\<open>strlen\<close> is \<^const>\<open>length\<close> and a pointer into a string is the remaining suffix.
  \<^item> \<^verbatim>\<open>exec\<close> is the result of C code that follows offsets through memory. \<^const>\<open>None\<close> stands for
    "no defined result": a loop that never ends or a read at an offset where no object of the
    expected type was ever stored. A lemma that an operation yields \<^const>\<open>Some\<close> therefore
    states termination and memory safety.
  \<^item> \<^verbatim>\<open>u8\<close>, \<^verbatim>\<open>u16\<close>, \<^verbatim>\<open>u32\<close> are the conversions to the unsigned C types of that width.
  \<^item> The numeric constants are those of \<^verbatim>\<open>interfaces/innerkits/include/param/init_param.h\<close>,
    \<^verbatim>\<open>services/param/include/param_utils.h\<close> and \<^verbatim>\<open>services/param/include/param_common.h\<close>.
\<close>

unbundle bit_operations_syntax

named_theorems heap_simps \<open>unfolding rules for reads and writes of typed memory\<close>
named_theorems code_defs \<open>definitions of C constants and macros, for evaluation\<close>

subsection \<open>Results, pointers and machine integers\<close>

type_synonym 'a exec = "'a option"

datatype ptr = NULL | Ref (addr: nat)

definition u8 :: "nat \<Rightarrow> nat" where
  "u8 n = n mod 256"

definition u16 :: "nat \<Rightarrow> nat" where
  "u16 n = n mod 65536"

definition u32 :: "nat \<Rightarrow> nat" where
  "u32 n = n mod 4294967296"

definition PARAM_ALIGN :: "nat \<Rightarrow> nat" where
  "PARAM_ALIGN len = u32 (len + 3) div 4 * 4"

definition PARAM_IS_ALIGNED :: "nat \<Rightarrow> bool" where
  "PARAM_IS_ALIGNED x = (x mod 4 = 0)"

definition PARAM_TEST_FLAG :: "32 word \<Rightarrow> 32 word \<Rightarrow> bool" where
  "PARAM_TEST_FLAG node flag = (node AND flag = flag)"

definition PARAM_SET_FLAG :: "32 word \<Rightarrow> 32 word \<Rightarrow> 32 word" where
  "PARAM_SET_FLAG node flag = node OR flag"

definition PARAM_CLEAR_FLAG :: "32 word \<Rightarrow> 32 word \<Rightarrow> 32 word" where
  "PARAM_CLEAR_FLAG node flag = node AND NOT flag"

subsection \<open>Return codes\<close>

abbreviation (input) PARAM_CODE_ERROR :: int where "PARAM_CODE_ERROR \<equiv> - 1"
abbreviation (input) PARAM_CODE_SUCCESS :: int where "PARAM_CODE_SUCCESS \<equiv> 0"
abbreviation (input) PARAM_CODE_INVALID_PARAM :: int where "PARAM_CODE_INVALID_PARAM \<equiv> 100"
abbreviation (input) PARAM_CODE_INVALID_NAME :: int where "PARAM_CODE_INVALID_NAME \<equiv> 101"
abbreviation (input) PARAM_CODE_INVALID_VALUE :: int where "PARAM_CODE_INVALID_VALUE \<equiv> 102"
abbreviation (input) PARAM_CODE_REACHED_MAX :: int where "PARAM_CODE_REACHED_MAX \<equiv> 103"
abbreviation (input) PARAM_CODE_NOT_SUPPORT :: int where "PARAM_CODE_NOT_SUPPORT \<equiv> 104"
abbreviation (input) PARAM_CODE_TIMEOUT :: int where "PARAM_CODE_TIMEOUT \<equiv> 105"
abbreviation (input) PARAM_CODE_NOT_FOUND :: int where "PARAM_CODE_NOT_FOUND \<equiv> 106"
abbreviation (input) PARAM_CODE_READ_ONLY :: int where "PARAM_CODE_READ_ONLY \<equiv> 107"
abbreviation (input) PARAM_CODE_IPC_ERROR :: int where "PARAM_CODE_IPC_ERROR \<equiv> 108"
abbreviation (input) PARAM_CODE_NODE_EXIST :: int where "PARAM_CODE_NODE_EXIST \<equiv> 109"
abbreviation (input) PARAM_CODE_MEMORY_MAP_FAILED :: int where "PARAM_CODE_MEMORY_MAP_FAILED \<equiv> 112"
abbreviation (input) PARAM_WORKSPACE_NOT_INIT :: int where "PARAM_WORKSPACE_NOT_INIT \<equiv> 113"
abbreviation (input) PARAM_CODE_MEMORY_NOT_ENOUGH :: int where "PARAM_CODE_MEMORY_NOT_ENOUGH \<equiv> 115"
abbreviation (input) PARAM_CODE_PERMISSION_DENIED :: int where "PARAM_CODE_PERMISSION_DENIED \<equiv> 116"
abbreviation (input) PARAM_DEFAULT_PARAM_MEMORY_NOT_ENOUGH :: int where
  "PARAM_DEFAULT_PARAM_MEMORY_NOT_ENOUGH \<equiv> 117"
abbreviation (input) DAC_RESULT_INVALID_PARAM :: int where "DAC_RESULT_INVALID_PARAM \<equiv> 1000"
abbreviation (input) DAC_RESULT_FORBIDED :: int where "DAC_RESULT_FORBIDED \<equiv> 1001"

subsection \<open>Limits and flags\<close>

abbreviation (input) PARAM_NAME_LEN_MAX :: nat where "PARAM_NAME_LEN_MAX \<equiv> 96"
abbreviation (input) PARAM_VALUE_LEN_MAX :: nat where "PARAM_VALUE_LEN_MAX \<equiv> 96"
abbreviation (input) PARAM_CONST_VALUE_LEN_MAX :: nat where "PARAM_CONST_VALUE_LEN_MAX \<equiv> 4096"
abbreviation (input) LOAD_PARAM_NORMAL :: "32 word" where "LOAD_PARAM_NORMAL \<equiv> 0"
abbreviation (input) LOAD_PARAM_ONLY_ADD :: "32 word" where "LOAD_PARAM_ONLY_ADD \<equiv> 1"
abbreviation (input) LOAD_PARAM_PERSIST :: "32 word" where "LOAD_PARAM_PERSIST \<equiv> 2"
abbreviation (input) LOAD_PARAM_UPDATE_CONST :: "32 word" where "LOAD_PARAM_UPDATE_CONST \<equiv> 4"
abbreviation (input) PARAM_TYPE_STRING :: nat where "PARAM_TYPE_STRING \<equiv> 0"
abbreviation (input) PARAM_TYPE_INT :: nat where "PARAM_TYPE_INT \<equiv> 1"
abbreviation (input) PARAM_TYPE_BOOL :: nat where "PARAM_TYPE_BOOL \<equiv> 2"

subsection \<open>The C string library\<close>

text \<open>\<^verbatim>\<open>strncmp (a, b, n) == 0\<close>: both strings agree up to n characters or their common end.\<close>

definition strncmp_eq :: "string \<Rightarrow> string \<Rightarrow> nat \<Rightarrow> bool" where
  "strncmp_eq a b n = (take n a = take n b)"

text \<open>\<^verbatim>\<open>strchr\<close> returns the suffix that starts at the first occurrence.\<close>

fun strchr :: "string \<Rightarrow> char \<Rightarrow> string option" where
  "strchr [] c = None"
| "strchr (x # xs) c = (if x = c then Some (x # xs) else strchr xs c)"

text \<open>\<^verbatim>\<open>strstr\<close> returns the suffix that starts at the first occurrence of the needle.\<close>

fun strstr :: "string \<Rightarrow> string \<Rightarrow> string option" where
  "strstr [] needle = (if needle = [] then Some [] else None)"
| "strstr (x # xs) needle =
     (if prefix needle (x # xs) then Some (x # xs) else strstr xs needle)"

text \<open>The sign of \<^verbatim>\<open>memcmp\<close> on two blocks of the same length (bytes compare unsigned).\<close>

fun memcmp :: "string \<Rightarrow> string \<Rightarrow> int" where
  "memcmp (x # xs) (y # ys) =
     (if x = y then memcmp xs ys
      else if (of_char x :: nat) < of_char y then - 1 else 1)"
| "memcmp _ _ = 0"

subsection \<open>Generic lemmas\<close>

lemma u32_id [simp]: "n < 4294967296 \<Longrightarrow> u32 n = n"
  by (simp add: u32_def)

lemma u16_id [simp]: "n < 65536 \<Longrightarrow> u16 n = n"
  by (simp add: u16_def)

lemma u8_id [simp]: "n < 256 \<Longrightarrow> u8 n = n"
  by (simp add: u8_def)

lemma PARAM_ALIGN_ge: "len + 3 < 4294967296 \<Longrightarrow> len \<le> PARAM_ALIGN len"
  by (simp add: PARAM_ALIGN_def)

lemma PARAM_ALIGN_less: "len + 3 < 4294967296 \<Longrightarrow> PARAM_ALIGN len < len + 4"
  by (simp add: PARAM_ALIGN_def)

lemma PARAM_ALIGN_aligned [simp]: "PARAM_IS_ALIGNED (PARAM_ALIGN len)"
  by (simp add: PARAM_ALIGN_def PARAM_IS_ALIGNED_def)

lemma PARAM_IS_ALIGNED_add:
  "PARAM_IS_ALIGNED m \<Longrightarrow> PARAM_IS_ALIGNED n \<Longrightarrow> PARAM_IS_ALIGNED (m + n)"
  by (simp add: PARAM_IS_ALIGNED_def mod_add_eq [symmetric])

lemma strncmp_eq_prefix: "strncmp_eq a p (length p) \<longleftrightarrow> prefix p a"
  by (auto simp: strncmp_eq_def prefix_def) (metis append_take_drop_id)

lemma strchr_None_iff: "strchr s c = None \<longleftrightarrow> c \<notin> set s"
  by (induction s) auto

lemma strchr_Some_dropWhile: "strchr s c = Some t \<Longrightarrow> t = dropWhile (\<lambda>x. x \<noteq> c) s \<and> t \<noteq> [] \<and> hd t = c"
  by (induction s) (auto split: if_splits)

lemma strchr_Some_length: "strchr s c = Some t \<Longrightarrow> length t \<le> length s"
  by (induction s) (auto split: if_splits)

lemma strstr_Some_suffix: "strstr s n = Some t \<Longrightarrow> suffix t s \<and> prefix n t"
  by (induction s) (auto simp: suffix_Cons split: if_splits)

lemma strstr_None_iff: "strstr s n = None \<longleftrightarrow> \<not> sublist n s"
  by (induction s) (auto simp: sublist_Cons_right)

lemma memcmp_zero_iff: "length a = length b \<Longrightarrow> memcmp a b = 0 \<longleftrightarrow> a = b"
  by (induction a b rule: memcmp.induct) auto

end
