(* ===== verification/Param_Trie.thy ===== *)
theory Param_Trie
  imports Prelude
begin

text \<open>
  The parameter trie: \<^verbatim>\<open>services/param/base/param_trie.c\<close>, the lookup of
  \<^verbatim>\<open>services/param/base/param_include.h\<close> and the structures of
  \<^verbatim>\<open>services/param/include/param_common.h\<close>.

  A workspace is one memory area. Its objects (trie nodes, parameter nodes, security labels) are
  addressed by byte offsets and allocated by moving \<^verbatim>\<open>currOffset\<close> forward. The area is modelled as
  a typed store: \<^verbatim>\<open>hd_data\<close> maps the offset of each allocated object to the object, while the
  header's counters and offsets keep the byte arithmetic of the code. The configuration modelled is
  the one without \<^verbatim>\<open>PARAM_WORKSPACE_DYNAMIC_ALLOC\<close> and without \<^verbatim>\<open>PARAM_SUPPORT_SELINUX\<close>. The locks
  around the operations are not modelled: each operation is one step.
\<close>

subsection \<open>Data of an area\<close>

text \<open>The field \<^verbatim>\<open>selinuxLabel\<close> of the trie node, which no operation of this file reads or
  writes, is left out.\<close>

record ParamTrieNode =
  tn_left :: nat
  tn_right :: nat
  tn_child :: nat
  tn_labelIndex :: nat
  tn_dataIndex :: nat
  tn_length :: nat
  tn_key :: string

text \<open>\<^verbatim>\<open>pn_data\<close> is the text \<^verbatim>\<open>key=value\<close> up to its NUL.\<close>

record ParamNode =
  pn_commitId :: "32 word"
  pn_type :: nat
  pn_keyLength :: nat
  pn_valueLength :: nat
  pn_data :: string

record ParamSecurityNode =
  sn_uid :: nat
  sn_gid :: nat
  sn_selinuxIndex :: nat
  sn_mode :: nat
  sn_type :: nat
  sn_members :: "nat list"

datatype cell =
    TrieCell ParamTrieNode
  | ParamCell ParamNode
  | SecCell ParamSecurityNode

record ParamTrieHeader =
  hd_commitId :: "64 word"
  hd_commitPersistId :: "64 word"
  hd_trieNodeCount :: nat
  hd_paramNodeCount :: nat
  hd_securityNodeCount :: nat
  hd_currOffset :: nat
  hd_spaceSizeOffset :: nat
  hd_firstNode :: nat
  hd_dataSize :: nat
  hd_data :: "nat \<Rightarrow> cell option"

record WorkSpace =
  ws_flags :: "32 word"
  ws_area :: "ParamTrieHeader option"
  ws_spaceSize :: nat
  ws_spaceIndex :: nat
  ws_fileName :: string

record ParamAuditData =
  ad_uid :: nat
  ad_gid :: nat
  ad_mode :: nat
  ad_paramType :: nat
  ad_name :: string
  ad_members :: "nat list"

abbreviation (input) sizeof_ParamTrieNode :: nat where "sizeof_ParamTrieNode \<equiv> 24"
abbreviation (input) sizeof_ParamNode :: nat where "sizeof_ParamNode \<equiv> 8"
abbreviation (input) sizeof_ParamSecurityNode :: nat where "sizeof_ParamSecurityNode \<equiv> 20"
abbreviation (input) sizeof_ParamTrieHeader :: nat where "sizeof_ParamTrieHeader \<equiv> 48"
abbreviation (input) WORKSPACE_FLAGS_INIT :: "32 word" where "WORKSPACE_FLAGS_INIT \<equiv> 1"
abbreviation (input) PARAM_FLAGS_PERSIST :: "32 word" where "PARAM_FLAGS_PERSIST \<equiv> 0x10000000"
abbreviation (input) OFFSET_ERR :: nat where "OFFSET_ERR \<equiv> 0"

subsection \<open>Typed reads and writes\<close>

definition trie_at :: "ParamTrieHeader \<Rightarrow> nat \<Rightarrow> ParamTrieNode exec" where
  "trie_at a off = (case hd_data a off of Some (TrieCell n) \<Rightarrow> Some n | _ \<Rightarrow> None)"

definition param_at :: "ParamTrieHeader \<Rightarrow> nat \<Rightarrow> ParamNode exec" where
  "param_at a off = (case hd_data a off of Some (ParamCell n) \<Rightarrow> Some n | _ \<Rightarrow> None)"

definition sec_at :: "ParamTrieHeader \<Rightarrow> nat \<Rightarrow> ParamSecurityNode exec" where
  "sec_at a off = (case hd_data a off of Some (SecCell n) \<Rightarrow> Some n | _ \<Rightarrow> None)"

definition put_cell :: "ParamTrieHeader \<Rightarrow> nat \<Rightarrow> cell \<Rightarrow> ParamTrieHeader" where
  "put_cell a off c = a\<lparr>hd_data := (hd_data a)(off \<mapsto> c)\<rparr>"

definition upd_trie ::
  "ParamTrieHeader \<Rightarrow> nat \<Rightarrow> (ParamTrieNode \<Rightarrow> ParamTrieNode) \<Rightarrow> ParamTrieHeader exec" where
  "upd_trie a off f = do { n \<leftarrow> trie_at a off; Some (put_cell a off (TrieCell (f n))) }"

definition GetTrieNode :: "ParamTrieHeader \<Rightarrow> nat \<Rightarrow> ptr" where
  "GetTrieNode a off = (if off = 0 \<or> off > hd_dataSize a then NULL else Ref off)"

subsection \<open>Allocation\<close>

definition AllocateParamTrieNode :: "ParamTrieHeader \<Rightarrow> string \<Rightarrow> ParamTrieHeader \<times> nat" where
  "AllocateParamTrieNode a key =
     (let len = PARAM_ALIGN (u32 (length key + sizeof_ParamTrieNode + 1)) in
      if u32 (hd_currOffset a + len) < hd_dataSize a then
        (a\<lparr>hd_data := (hd_data a)(hd_currOffset a \<mapsto>
             TrieCell \<lparr>tn_left = 0, tn_right = 0, tn_child = 0, tn_labelIndex = 0, tn_dataIndex = 0,
                       tn_length = u16 (length key), tn_key = key\<rparr>),
           hd_currOffset := u32 (hd_currOffset a + len),
           hd_trieNodeCount := u32 (hd_trieNodeCount a + 1)\<rparr>,
         hd_currOffset a)
      else (a, 0))"

definition GetRealFileName :: "WorkSpace \<Rightarrow> string option" where
  "GetRealFileName ws =
     (let buffer = ''/dev/__parameters__'' @ ''/'' @ ws_fileName ws in
      if length buffer < 255 then Some buffer else None)"

text \<open>\<^verbatim>\<open>GetSharedMem\<close> maps the file of the workspace; its result (the mapped area, or none when the
  mapping fails) is the argument \<^verbatim>\<open>mem\<close>.\<close>

definition InitWorkSpace_inner ::
  "WorkSpace \<Rightarrow> nat \<Rightarrow> bool \<Rightarrow> ParamTrieHeader option \<Rightarrow> int \<times> WorkSpace" where
  "InitWorkSpace_inner ws spaceSize readOnly mem =
     (if \<not> sizeof_ParamTrieHeader < spaceSize then (PARAM_CODE_INVALID_PARAM, ws)
      else case GetRealFileName ws of
        None \<Rightarrow> (- 1, ws)
      | Some buffer \<Rightarrow>
         (case mem of
            None \<Rightarrow> (PARAM_CODE_MEMORY_MAP_FAILED, ws)
          | Some area \<Rightarrow>
             if \<not> readOnly then
               (let a0 = area\<lparr>hd_commitId := 0, hd_commitPersistId := 0, hd_trieNodeCount := 0,
                              hd_paramNodeCount := 0, hd_securityNodeCount := 0,
                              hd_dataSize := spaceSize - sizeof_ParamTrieHeader,
                              hd_spaceSizeOffset := 0, hd_currOffset := 0\<rparr>;
                    (a1, offset) = AllocateParamTrieNode a0 ''#''
                in (0, ws\<lparr>ws_area := Some (a1\<lparr>hd_firstNode := offset\<rparr>)\<rparr>))
             else (0, ws\<lparr>ws_area := Some area\<rparr>)))"

definition InitWorkSpace ::
  "WorkSpace \<Rightarrow> bool \<Rightarrow> nat \<Rightarrow> ParamTrieHeader option \<Rightarrow> int \<times> WorkSpace" where
  "InitWorkSpace ws onlyRead spaceSize mem =
     (if PARAM_TEST_FLAG (ws_flags ws) WORKSPACE_FLAGS_INIT then (0, ws)
      else
        (let (ret, ws') = InitWorkSpace_inner ws spaceSize onlyRead mem in
         if ret \<noteq> 0 then (ret, ws')
         else (ret, ws'\<lparr>ws_flags := PARAM_SET_FLAG (ws_flags ws') WORKSPACE_FLAGS_INIT\<rparr>)))"

definition CloseWorkSpace :: "WorkSpace \<Rightarrow> WorkSpace" where
  "CloseWorkSpace ws =
     (if \<not> PARAM_TEST_FLAG (ws_flags ws) WORKSPACE_FLAGS_INIT then ws
      else if ws_area ws = None then ws
      else ws\<lparr>ws_area := None\<rparr>)"

definition CheckWorkSpace :: "WorkSpace \<Rightarrow> int" where
  "CheckWorkSpace ws =
     (if ws_area ws = None then PARAM_WORKSPACE_NOT_INIT
      else if \<not> PARAM_TEST_FLAG (ws_flags ws) WORKSPACE_FLAGS_INIT then PARAM_WORKSPACE_NOT_INIT
      else 0)"

subsection \<open>Descent along a key\<close>

definition CompareParamTrieNode :: "ParamTrieNode \<Rightarrow> string \<Rightarrow> int" where
  "CompareParamTrieNode n key =
     (if tn_length n > length key then - 1
      else if tn_length n < length key then 1
      else memcmp (tn_key n) key)"

text \<open>\<^verbatim>\<open>GetNextKey\<close>: the component at the start of the remaining key and the suffix from the
  following dot on, if there is one.\<close>

definition GetNextKey :: "string \<Rightarrow> string \<times> string option" where
  "GetNextKey remainingKey =
     (case strchr remainingKey (CHR ''.'') of
        Some subKey \<Rightarrow> (take (length remainingKey - length subKey) remainingKey, Some subKey)
      | None \<Rightarrow> (remainingKey, None))"

lemma GetNextKey_length:
  assumes "GetNextKey k = (s, Some r)"
  shows "length r - Suc 0 < length k"
proof -
  from assms have "strchr k (CHR ''.'') = Some r"
    by (auto simp: GetNextKey_def split: option.splits)
  then have "r \<noteq> []" and "length r \<le> length k"
    using strchr_Some_dropWhile strchr_Some_length by blast+
  then show ?thesis
    by (cases r) auto
qed

partial_function (option) FindSubTrie ::
  "ParamTrieHeader \<Rightarrow> ptr \<Rightarrow> string \<Rightarrow> nat \<Rightarrow> (ptr \<times> nat) exec" where
  "FindSubTrie a current key matchLabel =
     (case current of
        NULL \<Rightarrow> Some (NULL, matchLabel)
      | Ref off \<Rightarrow> do {
          n \<leftarrow> trie_at a off;
          let ret = CompareParamTrieNode n key in
          if ret = 0 then
            Some (Ref off, if tn_labelIndex n \<noteq> 0 then tn_labelIndex n else matchLabel)
          else
            (let offset = (if ret < 0 then tn_left n else tn_right n) in
             if offset = 0 \<or> offset > hd_dataSize a then Some (NULL, matchLabel)
             else FindSubTrie a (Ref offset) key matchLabel)
        })"

text \<open>The loop of \<^verbatim>\<open>FindTrieNode_\<close> from the node at \<^verbatim>\<open>current\<close>.\<close>

function FindTrieNode_loop ::
  "ParamTrieHeader \<Rightarrow> nat \<Rightarrow> string \<Rightarrow> nat \<Rightarrow> (ptr \<times> nat) exec" where
  "FindTrieNode_loop a current remainingKey matchLabel =
     (case GetNextKey remainingKey of (sub, subKey) \<Rightarrow>
      if sub = [] then Some (NULL, matchLabel)
      else do {
        n \<leftarrow> trie_at a current;
        (next, lbl) \<leftarrow> (if tn_child n \<noteq> 0
           then FindSubTrie a (GetTrieNode a (tn_child n)) sub matchLabel
           else FindSubTrie a (Ref current) sub matchLabel);
        case next of
          NULL \<Rightarrow> Some (NULL, lbl)
        | Ref off \<Rightarrow> do {
            m \<leftarrow> trie_at a off;
            let lbl' = (if tn_labelIndex m \<noteq> 0 then tn_labelIndex m else lbl) in
            case subKey of
              None \<Rightarrow> Some (Ref off, lbl')
            | Some r \<Rightarrow> if r = ''.'' then Some (Ref off, lbl')
                        else FindTrieNode_loop a off (tl r) lbl'
          }
      })"
  by pat_completeness auto
termination
  by (relation "measure (\<lambda>(a, c, k, l). length k)") (auto dest: GetNextKey_length [OF sym])

declare FindTrieNode_loop.simps [simp del]

definition FindTrieNode_inner :: "WorkSpace \<Rightarrow> string \<Rightarrow> (ptr \<times> nat) exec" where
  "FindTrieNode_inner ws key =
     (case ws_area ws of
        None \<Rightarrow> Some (NULL, 0)
      | Some a \<Rightarrow> do {
          root \<leftarrow> trie_at a (hd_firstNode a);
          FindTrieNode_loop a (hd_firstNode a) key (tn_labelIndex root)
        })"

definition FindTrieNode :: "WorkSpace \<Rightarrow> string \<Rightarrow> (ptr \<times> nat) exec" where
  "FindTrieNode ws key =
     (if key = [] then Some (NULL, 0)
      else do {
        (node, matchLabel) \<leftarrow> FindTrieNode_inner ws key;
        case (node, ws_area ws) of
          (Ref off, Some a) \<Rightarrow> do {
            n \<leftarrow> trie_at a off;
            if tn_dataIndex n \<noteq> 0 then
              (case GetTrieNode a (tn_dataIndex n) of
                 NULL \<Rightarrow> Some (NULL, matchLabel)
               | Ref d \<Rightarrow> do {
                   entry \<leftarrow> param_at a d;
                   Some (if pn_keyLength entry = length key then node else NULL, matchLabel)
                 })
            else Some (node, matchLabel)
          }
        | _ \<Rightarrow> Some (node, matchLabel)
      })"

subsection \<open>Insertion\<close>

definition SaveIndex_left :: "ParamTrieHeader \<Rightarrow> nat \<Rightarrow> nat \<Rightarrow> ParamTrieHeader exec" where
  "SaveIndex_left a off index = upd_trie a off (\<lambda>n. n\<lparr>tn_left := index\<rparr>)"

definition SaveIndex_right :: "ParamTrieHeader \<Rightarrow> nat \<Rightarrow> nat \<Rightarrow> ParamTrieHeader exec" where
  "SaveIndex_right a off index = upd_trie a off (\<lambda>n. n\<lparr>tn_right := index\<rparr>)"

definition SaveIndex_child :: "ParamTrieHeader \<Rightarrow> nat \<Rightarrow> nat \<Rightarrow> ParamTrieHeader exec" where
  "SaveIndex_child a off index = upd_trie a off (\<lambda>n. n\<lparr>tn_child := index\<rparr>)"

definition SaveIndex_data :: "ParamTrieHeader \<Rightarrow> nat \<Rightarrow> nat \<Rightarrow> ParamTrieHeader exec" where
  "SaveIndex_data a off index = upd_trie a off (\<lambda>n. n\<lparr>tn_dataIndex := index\<rparr>)"

definition SaveIndex_label :: "ParamTrieHeader \<Rightarrow> nat \<Rightarrow> nat \<Rightarrow> ParamTrieHeader exec" where
  "SaveIndex_label a off index = upd_trie a off (\<lambda>n. n\<lparr>tn_labelIndex := index\<rparr>)"

partial_function (option) AddToSubTrie ::
  "ParamTrieHeader \<Rightarrow> ptr \<Rightarrow> string \<Rightarrow> (ParamTrieHeader \<times> ptr) exec" where
  "AddToSubTrie a current key =
     (case current of
        NULL \<Rightarrow> Some (a, NULL)
      | Ref off \<Rightarrow> do {
          n \<leftarrow> trie_at a off;
          let ret = CompareParamTrieNode n key in
          if ret = 0 then Some (a, Ref off)
          else if ret < 0 then
            (case GetTrieNode a (tn_left n) of
               NULL \<Rightarrow>
                 (let (a1, offset) = AllocateParamTrieNode a key in
                  if offset = 0 then Some (a1, NULL)
                  else do {
                    a2 \<leftarrow> SaveIndex_left a1 off offset;
                    Some (a2, GetTrieNode a2 offset)
                  })
             | Ref subTrie \<Rightarrow> AddToSubTrie a (Ref subTrie) key)
          else
            (case GetTrieNode a (tn_right n) of
               NULL \<Rightarrow>
                 (let (a1, offset) = AllocateParamTrieNode a key in
                  if offset = 0 then Some (a1, NULL)
                  else do {
                    a2 \<leftarrow> SaveIndex_right a1 off offset;
                    Some (a2, GetTrieNode a2 offset)
                  })
             | Ref subTrie \<Rightarrow> AddToSubTrie a (Ref subTrie) key)
        })"

text \<open>One round of the loop of \<^verbatim>\<open>AddTrieNode\<close>: the node of one component below \<^verbatim>\<open>current\<close>.\<close>

definition AddTrieNode_step ::
  "ParamTrieHeader \<Rightarrow> nat \<Rightarrow> string \<Rightarrow> (ParamTrieHeader \<times> ptr) exec" where
  "AddTrieNode_step a current sub = do {
     n \<leftarrow> trie_at a current;
     if tn_child n \<noteq> 0 then AddToSubTrie a (GetTrieNode a (tn_child n)) sub
     else
       (let (a1, dataOffset) = AllocateParamTrieNode a sub in
        if dataOffset = 0 then Some (a1, NULL)
        else do {
          a2 \<leftarrow> SaveIndex_child a1 current dataOffset;
          Some (a2, GetTrieNode a2 dataOffset)
        })
   }"

function AddTrieNode_loop ::
  "ParamTrieHeader \<Rightarrow> nat \<Rightarrow> string \<Rightarrow> (ParamTrieHeader \<times> ptr) exec" where
  "AddTrieNode_loop a current remainingKey =
     (case GetNextKey remainingKey of (sub, subKey) \<Rightarrow>
      if sub = [] then Some (a, NULL)
      else do {
        (a', next) \<leftarrow> AddTrieNode_step a current sub;
        case next of
          NULL \<Rightarrow> Some (a', NULL)
        | Ref off \<Rightarrow>
            (case subKey of
               None \<Rightarrow> Some (a', Ref off)
             | Some r \<Rightarrow> if r = ''.'' then Some (a', Ref off)
                         else AddTrieNode_loop a' off (tl r))
      })"
  by pat_completeness auto
termination
  by (relation "measure (\<lambda>(a, c, k). length k)") (auto dest: GetNextKey_length [OF sym])

declare AddTrieNode_loop.simps [simp del]

definition AddTrieNode :: "WorkSpace \<Rightarrow> string \<Rightarrow> (WorkSpace \<times> ptr) exec" where
  "AddTrieNode ws key =
     (if key = [] then Some (ws, NULL)
      else if CheckWorkSpace ws \<noteq> 0 then Some (ws, NULL)
      else case ws_area ws of
        None \<Rightarrow> Some (ws, NULL)
      | Some a \<Rightarrow> do {
          (a', p) \<leftarrow> AddTrieNode_loop a (hd_firstNode a) key;
          Some (ws\<lparr>ws_area := Some a'\<rparr>, p)
        })"

subsection \<open>Traversal\<close>

text \<open>The callback \<^verbatim>\<open>walkFunc\<close> with its \<^verbatim>\<open>cookie\<close> is a function from the node's offset and the
  callback's state to its new state; its return value is ignored by the code.\<close>

partial_function (option) TraversalSubTrieNode ::
  "ParamTrieHeader \<Rightarrow> (nat \<Rightarrow> 's \<Rightarrow> 's) \<Rightarrow> ptr \<Rightarrow> 's \<Rightarrow> 's exec" where
  "TraversalSubTrieNode a walkFunc current cookie =
     (case current of
        NULL \<Rightarrow> Some cookie
      | Ref off \<Rightarrow> do {
          n \<leftarrow> trie_at a off;
          s1 \<leftarrow> TraversalSubTrieNode a walkFunc (GetTrieNode a (tn_child n)) (walkFunc off cookie);
          s2 \<leftarrow> TraversalSubTrieNode a walkFunc (GetTrieNode a (tn_left n)) s1;
          TraversalSubTrieNode a walkFunc (GetTrieNode a (tn_right n)) s2
        })"

definition TraversalTrieNode ::
  "WorkSpace \<Rightarrow> ptr \<Rightarrow> (nat \<Rightarrow> 's \<Rightarrow> 's) \<Rightarrow> 's \<Rightarrow> (int \<times> 's) exec" where
  "TraversalTrieNode ws root walkFunc cookie =
     (if CheckWorkSpace ws \<noteq> 0 then Some (PARAM_CODE_INVALID_PARAM, cookie)
      else case ws_area ws of
        None \<Rightarrow> Some (PARAM_CODE_INVALID_PARAM, cookie)
      | Some a \<Rightarrow> do {
          let current = (case root of NULL \<Rightarrow> hd_firstNode a | Ref off \<Rightarrow> off);
          n \<leftarrow> trie_at a current;
          s1 \<leftarrow> TraversalSubTrieNode a walkFunc (GetTrieNode a (tn_child n)) (walkFunc current cookie);
          if root = NULL then do {
            s2 \<leftarrow> TraversalSubTrieNode a walkFunc (GetTrieNode a (tn_left n)) s1;
            s3 \<leftarrow> TraversalSubTrieNode a walkFunc (GetTrieNode a (tn_right n)) s2;
            Some (0, s3)
          } else Some (0, s1)
        })"

subsection \<open>Parameter nodes and security labels\<close>

definition GetParamMaxLen :: "nat \<Rightarrow> nat" where
  "GetParamMaxLen type =
     (let typeLengths = [PARAM_VALUE_LEN_MAX, 32, 8] in
      if type \<ge> length typeLengths then PARAM_VALUE_LEN_MAX else typeLengths ! type)"

text \<open>The bytes \<^verbatim>\<open>AddParamNode\<close> reserves for an entry.\<close>

definition ParamNode_realLen :: "nat \<Rightarrow> nat \<Rightarrow> nat \<Rightarrow> nat" where
  "ParamNode_realLen type keyLen valueLen =
     PARAM_ALIGN
       (if valueLen > PARAM_VALUE_LEN_MAX
        then u32 (sizeof_ParamNode + 1 + 1 + (keyLen + PARAM_CONST_VALUE_LEN_MAX))
        else u32 (sizeof_ParamNode + 1 + 1 + (keyLen + GetParamMaxLen type)))"

text \<open>\<^verbatim>\<open>PARAM_SPRINTF\<close> is \<^verbatim>\<open>snprintf_s\<close> with the bound \<^verbatim>\<open>realLen - 1\<close>: it fails when the text is longer.\<close>

definition AddParamNode ::
  "WorkSpace \<Rightarrow> nat \<Rightarrow> string \<Rightarrow> string \<Rightarrow> 32 word \<Rightarrow> WorkSpace \<times> nat" where
  "AddParamNode ws type key value mode =
     (if \<not> length value < PARAM_CONST_VALUE_LEN_MAX then (ws, OFFSET_ERR)
      else if CheckWorkSpace ws \<noteq> 0 then (ws, OFFSET_ERR)
      else case ws_area ws of
        None \<Rightarrow> (ws, OFFSET_ERR)
      | Some a \<Rightarrow>
         (let realLen = ParamNode_realLen type (length key) (length value) in
          if \<not> u32 (hd_currOffset a + realLen) < hd_dataSize a then (ws, OFFSET_ERR)
          else if length (key @ ''='' @ value) > realLen - 1 then (ws, OFFSET_ERR)
          else
            (let node = \<lparr>pn_commitId = (if mode AND LOAD_PARAM_PERSIST \<noteq> 0
                                       then PARAM_FLAGS_PERSIST else 0),
                         pn_type = type, pn_keyLength = u8 (length key),
                         pn_valueLength = u16 (length value), pn_data = key @ ''='' @ value\<rparr>;
                 a' = a\<lparr>hd_data := (hd_data a)(hd_currOffset a \<mapsto> ParamCell node),
                        hd_currOffset := u32 (hd_currOffset a + realLen),
                        hd_paramNodeCount := u32 (hd_paramNodeCount a + 1)\<rparr>
             in (ws\<lparr>ws_area := Some a'\<rparr>, hd_currOffset a))))"

definition AddParamSecurityNode :: "WorkSpace \<Rightarrow> ParamAuditData \<Rightarrow> WorkSpace \<times> nat" where
  "AddParamSecurityNode ws auditData =
     (if CheckWorkSpace ws \<noteq> 0 then (ws, OFFSET_ERR)
      else case ws_area ws of
        None \<Rightarrow> (ws, OFFSET_ERR)
      | Some a \<Rightarrow>
         (let realLen = PARAM_ALIGN (u32 (sizeof_ParamSecurityNode + 4 * length (ad_members auditData))) in
          if \<not> u32 (hd_currOffset a + realLen) < hd_dataSize a then (ws, OFFSET_ERR)
          else
            (let node = \<lparr>sn_uid = ad_uid auditData, sn_gid = ad_gid auditData, sn_selinuxIndex = 0,
                         sn_mode = ad_mode auditData, sn_type = ad_paramType auditData mod 16,
                         sn_members = ad_members auditData\<rparr>;
                 a' = a\<lparr>hd_data := (hd_data a)(hd_currOffset a \<mapsto> SecCell node),
                        hd_currOffset := u32 (hd_currOffset a + realLen),
                        hd_securityNodeCount := u32 (hd_securityNodeCount a + 1)\<rparr>
             in (ws\<lparr>ws_area := Some a'\<rparr>, hd_currOffset a))))"

text \<open>The test \<^verbatim>\<open>node != NULL && node->dataIndex != 0\<close> after \<^verbatim>\<open>FindTrieNode\<close>: the data index of the
  node found, 0 if there is none.\<close>

definition FindTrieNode_data :: "WorkSpace \<Rightarrow> string \<Rightarrow> nat exec" where
  "FindTrieNode_data ws name = do {
     (node, l) \<leftarrow> FindTrieNode ws name;
     case (node, ws_area ws) of
       (Ref off, Some a) \<Rightarrow> do { n \<leftarrow> trie_at a off; Some (tn_dataIndex n) }
     | _ \<Rightarrow> Some 0
   }"

text \<open>\<^verbatim>\<open>GetParamNode\<close> and \<^verbatim>\<open>AddParamEntry\<close> on the workspace that \<^verbatim>\<open>GetWorkSpace\<close> selected.\<close>

definition GetParamNode :: "WorkSpace \<Rightarrow> string \<Rightarrow> ptr exec" where
  "GetParamNode space name = do {
     (entry, labelIndex) \<leftarrow> FindTrieNode space name;
     case (entry, ws_area space) of
       (Ref off, Some a) \<Rightarrow> do {
         n \<leftarrow> trie_at a off;
         Some (if tn_dataIndex n = 0 then NULL else GetTrieNode a (tn_dataIndex n))
       }
     | _ \<Rightarrow> Some NULL
   }"

text \<open>The step shared by \<^verbatim>\<open>AddParamEntry\<close> and \<^verbatim>\<open>AddParam\<close>: a new parameter node, made reachable from the
  trie node at \<^verbatim>\<open>off\<close>. The result is the new workspace and the offset of the node, 0 if there is no
  room.\<close>

definition AttachParamNode ::
  "WorkSpace \<Rightarrow> nat \<Rightarrow> nat \<Rightarrow> string \<Rightarrow> string \<Rightarrow> 32 word \<Rightarrow> (WorkSpace \<times> nat) exec" where
  "AttachParamNode ws off type name value mode =
     (let (ws2, offset) = AddParamNode ws type name value mode in
      if offset = 0 then Some (ws2, 0)
      else case ws_area ws2 of
        None \<Rightarrow> None
      | Some a2 \<Rightarrow> do {
          a3 \<leftarrow> SaveIndex_data a2 off offset;
          Some (ws2\<lparr>ws_area := Some a3\<rparr>, offset)
        })"

definition AddParamEntry :: "WorkSpace \<Rightarrow> nat \<Rightarrow> string \<Rightarrow> string \<Rightarrow> (WorkSpace \<times> int) exec" where
  "AddParamEntry ws type name value = do {
     old \<leftarrow> FindTrieNode_data ws name;
     if old \<noteq> 0 then Some (ws, 0)
     else do {
       (ws1, node) \<leftarrow> AddTrieNode ws name;
       case (node, ws_area ws1) of
         (Ref off, Some a) \<Rightarrow> do {
           n \<leftarrow> trie_at a off;
           case GetTrieNode a (tn_dataIndex n) of
             Ref _ \<Rightarrow> Some (ws1, 0)
           | NULL \<Rightarrow> do {
               (ws2, offset) \<leftarrow> AttachParamNode ws1 off type name value 0;
               Some (ws2, if offset > 0 then 0 else PARAM_CODE_REACHED_MAX)
             }
         }
       | _ \<Rightarrow> Some (ws1, PARAM_CODE_REACHED_MAX)
     }
   }"

text \<open>\<^verbatim>\<open>AddSecurityLabel\<close> on the workspace of the labels.\<close>

definition AddSecurityLabel_node :: "WorkSpace \<Rightarrow> string \<Rightarrow> (WorkSpace \<times> ptr) exec" where
  "AddSecurityLabel_node ws name =
     (let find = do {
            (node, l) \<leftarrow> FindTrieNode ws name;
            if node = NULL then AddTrieNode ws name else Some (ws, node)
          } in
      case ws_area ws of
        None \<Rightarrow> find
      | Some a \<Rightarrow> do {
          root \<leftarrow> trie_at a (hd_firstNode a);
          if CompareParamTrieNode root name \<noteq> 0 then find else Some (ws, Ref (hd_firstNode a))
        })"

definition AddSecurityLabel :: "WorkSpace \<Rightarrow> ParamAuditData \<Rightarrow> (WorkSpace \<times> int) exec" where
  "AddSecurityLabel ws auditData = do {
     (ws1, node) \<leftarrow> AddSecurityLabel_node ws (ad_name auditData);
     case (node, ws_area ws1) of
       (Ref off, Some a) \<Rightarrow> do {
         n \<leftarrow> trie_at a off;
         if tn_labelIndex n = 0 then
           (let (ws2, offset) = AddParamSecurityNode ws1 auditData in
            if offset = 0 then Some (ws2, PARAM_CODE_REACHED_MAX)
            else case ws_area ws2 of
              None \<Rightarrow> None
            | Some a2 \<Rightarrow> do {
                a3 \<leftarrow> SaveIndex_label a2 off offset;
                Some (ws2\<lparr>ws_area := Some a3\<rparr>, 0)
              })
         else Some (ws1, if GetTrieNode a (tn_labelIndex n) = NULL then - 1 else 0)
       }
     | _ \<Rightarrow> Some (ws1, PARAM_CODE_REACHED_MAX)
   }"

end
