(* ===== verification/Trie_Spec.thy ===== *)
theory Trie_Spec
  imports Prelude
begin

text \<open>
  The abstract ternary search trie that a parameter area represents: every level of the name
  hierarchy is a binary search tree of components, every node carries the tree of the level below.
  Nodes remember the offset at which the area stores them. The lookup of a component path is the
  specification against which the operations on the memory are proved.
\<close>

datatype tst = Tip | TN nat string tst tst tst

text \<open>\<^verbatim>\<open>TN off key left child right\<close>.\<close>

subsection \<open>Components, order and search trees\<close>

definition kcmp :: "string \<Rightarrow> string \<Rightarrow> int" where
  "kcmp nk k = (if length nk > length k then - 1 else if length nk < length k then 1 else memcmp nk k)"

fun offs :: "tst \<Rightarrow> nat list" where
  "offs Tip = []"
| "offs (TN off k l c r) = off # offs c @ offs l @ offs r"

fun sib_keys :: "tst \<Rightarrow> string set" where
  "sib_keys Tip = {}"
| "sib_keys (TN off k l c r) = insert k (sib_keys l \<union> sib_keys r)"

fun bst :: "tst \<Rightarrow> bool" where
  "bst Tip = True"
| "bst (TN off k l c r) =
     ((\<forall>x \<in> sib_keys l. kcmp k x < 0) \<and> (\<forall>x \<in> sib_keys r. kcmp k x > 0) \<and> bst l \<and> bst c \<and> bst r)"

subsection \<open>Lookup and insertion\<close>

text \<open>The node of a component among its siblings.\<close>

fun fsub :: "tst \<Rightarrow> string \<Rightarrow> tst" where
  "fsub Tip k = Tip"
| "fsub (TN off nk l c r) k =
     (if kcmp nk k = 0 then TN off nk l c r else if kcmp nk k < 0 then fsub l k else fsub r k)"

fun child_of :: "tst \<Rightarrow> tst" where
  "child_of Tip = Tip"
| "child_of (TN off k l c r) = c"

fun root_off :: "tst \<Rightarrow> nat option" where
  "root_off Tip = None"
| "root_off (TN off k l c r) = Some off"

text \<open>The node of a component path.\<close>

fun tpath :: "tst \<Rightarrow> string list \<Rightarrow> tst" where
  "tpath t [] = Tip"
| "tpath t [k] = fsub t k"
| "tpath t (k # ks) = tpath (child_of (fsub t k)) ks"

definition node_at :: "tst \<Rightarrow> string list \<Rightarrow> nat option" where
  "node_at t ks = root_off (tpath t ks)"

fun ins_sub :: "tst \<Rightarrow> string \<Rightarrow> nat \<Rightarrow> tst" where
  "ins_sub Tip k new = TN new k Tip Tip Tip"
| "ins_sub (TN off nk l c r) k new =
     (if kcmp nk k = 0 then TN off nk l c r
      else if kcmp nk k < 0 then TN off nk (ins_sub l k new) c r
      else TN off nk l c (ins_sub r k new))"

fun set_child :: "tst \<Rightarrow> string \<Rightarrow> tst \<Rightarrow> tst" where
  "set_child Tip k c' = Tip"
| "set_child (TN off nk l c r) k c' =
     (if kcmp nk k = 0 then TN off nk l c' r
      else if kcmp nk k < 0 then TN off nk (set_child l k c') c r
      else TN off nk l c (set_child r k c'))"

subsection \<open>Laws\<close>

lemma kcmp_zero_iff [simp]: "kcmp a b = 0 \<longleftrightarrow> a = b"
  by (auto simp: kcmp_def memcmp_zero_iff)

lemma kcmp_self [simp]: "kcmp k k = 0"
  by simp

lemma fsub_eq_TN_key: "fsub t k = TN off nk l c r \<Longrightarrow> nk = k"
  by (induction t) (auto split: if_splits)

lemma fsub_Tip_iff: "bst t \<Longrightarrow> fsub t k = Tip \<longleftrightarrow> k \<notin> sib_keys t"
proof (induction t)
  case (TN off nk l c r)
  then have "k \<in> sib_keys l \<Longrightarrow> kcmp nk k < 0" and "k \<in> sib_keys r \<Longrightarrow> kcmp nk k > 0"
    by simp_all
  with TN show ?case by auto
qed simp

lemma root_off_fsub_ins_sub:
  "root_off (fsub (ins_sub t k new) k') =
     (if k' = k \<and> fsub t k = Tip then Some new else root_off (fsub t k'))"
  by (induction t) (auto split: if_splits)

lemma child_of_fsub_ins_sub:
  "child_of (fsub (ins_sub t k new) k') = child_of (fsub t k')"
  by (induction t) (auto split: if_splits)

lemma sib_keys_ins_sub [simp]: "sib_keys (ins_sub t k new) = insert k (sib_keys t)"
  by (induction t) auto

lemma sib_keys_set_child [simp]: "sib_keys (set_child t k c') = sib_keys t"
  by (induction t) auto

lemma kcmp_cases: "nk \<noteq> k \<Longrightarrow> \<not> kcmp nk k < 0 \<Longrightarrow> kcmp nk k > 0"
  using kcmp_zero_iff [of nk k] by linarith

lemma bst_ins_sub: "bst t \<Longrightarrow> bst (ins_sub t k new)"
  by (induction t) (auto dest: kcmp_cases)

lemma bst_set_child: "bst t \<Longrightarrow> bst c' \<Longrightarrow> bst (set_child t k c')"
  by (induction t) auto

lemma bst_child_fsub: "bst t \<Longrightarrow> bst (child_of (fsub t k))"
  by (induction t) auto

lemma root_off_fsub_set_child: "root_off (fsub (set_child t k c') k') = root_off (fsub t k')"
  by (induction t) auto

lemma child_of_fsub_set_child:
  "child_of (fsub (set_child t k c') k') =
     (if k' = k \<and> fsub t k \<noteq> Tip then c' else child_of (fsub t k'))"
  by (induction t) auto

lemma offs_ins_sub:
  "set (offs (ins_sub t k new)) = (if fsub t k = Tip then insert new (set (offs t)) else set (offs t))"
  by (induction t) auto

lemma distinct_offs_ins_sub:
  "distinct (offs t) \<Longrightarrow> new \<notin> set (offs t) \<Longrightarrow> distinct (offs (ins_sub t k new))"
  by (induction t) (auto simp: offs_ins_sub)

lemma ins_sub_present: "fsub t k \<noteq> Tip \<Longrightarrow> ins_sub t k new = t"
  by (induction t) auto

lemma root_off_Some_in_offs: "root_off (fsub t k) = Some off \<Longrightarrow> off \<in> set (offs t)"
  by (induction t) (auto split: if_splits)

lemma offs_child_fsub: "set (offs (child_of (fsub t k))) \<subseteq> set (offs t)"
  by (induction t) auto

lemma distinct_offs_child_fsub: "distinct (offs t) \<Longrightarrow> distinct (offs (child_of (fsub t k)))"
  by (induction t) auto

lemma root_notin_child_fsub:
  "distinct (offs t) \<Longrightarrow> root_off (fsub t k) = Some off \<Longrightarrow> off \<notin> set (offs (child_of (fsub t k)))"
  by (induction t) (auto split: if_splits)

lemma tpath_Tip [simp]: "tpath Tip ks = Tip"
  by (induction Tip ks rule: tpath.induct) auto

lemma node_at_Nil [simp]: "node_at t [] = None"
  by (simp add: node_at_def)

lemma node_at_single [simp]: "node_at t [k] = root_off (fsub t k)"
  by (simp add: node_at_def)

lemma node_at_Cons: "ks \<noteq> [] \<Longrightarrow> node_at t (k # ks) = node_at (child_of (fsub t k)) ks"
  by (cases ks) (auto simp: node_at_def)

lemma node_at_Tip [simp]: "node_at Tip ks = None"
  by (simp add: node_at_def)

lemma node_at_in_offs: "node_at t ks = Some off \<Longrightarrow> off \<in> set (offs t)"
proof (induction ks arbitrary: t)
  case (Cons k ks)
  then show ?case
    using offs_child_fsub by (cases "ks = []") (auto simp: node_at_Cons dest: root_off_Some_in_offs)
qed simp

lemma offs_set_child:
  "set (offs (set_child t k c')) \<subseteq>
     set (offs t) - set (offs (child_of (fsub t k))) \<union> set (offs c')" if "distinct (offs t)"
  using that
proof (induction t)
  case (TN off nk l c r)
  have "set (offs (child_of (fsub l k))) \<subseteq> set (offs l)" "set (offs (child_of (fsub r k))) \<subseteq> set (offs r)"
    by (rule offs_child_fsub)+
  with TN show ?case by auto
qed simp

lemma distinct_offs_set_child:
  assumes "distinct (offs t)" "distinct (offs c')"
    and "set (offs c') \<inter> (set (offs t) - set (offs (child_of (fsub t k)))) = {}"
  shows "distinct (offs (set_child t k c'))"
  using assms
proof (induction t)
  case (TN off nk l c r)
  have sub: "set (offs (child_of (fsub l k))) \<subseteq> set (offs l)" "set (offs (child_of (fsub r k))) \<subseteq> set (offs r)"
    by (rule offs_child_fsub)+
  have sc: "set (offs (set_child l k c')) \<subseteq> set (offs l) \<union> set (offs c')"
    "set (offs (set_child r k c')) \<subseteq> set (offs r) \<union> set (offs c')"
    using offs_set_child [of l k c'] offs_set_child [of r k c'] TN.prems(1) by auto
  consider "nk = k" | "nk \<noteq> k" "kcmp nk k < 0" | "nk \<noteq> k" "\<not> kcmp nk k < 0" by blast
  then show ?case
  proof cases
    case 1
    with TN.prems show ?thesis by (simp add: disjoint_iff) blast
  next
    case 2
    have dj: "set (offs c') \<inter> (insert off (set (offs c) \<union> set (offs r))) = {}"
      using 2 TN.prems(1,3) sub(1) by (simp add: disjoint_iff) blast
    have "distinct (offs (set_child l k c'))"
      using 2 TN.prems by (intro TN.IH(1)) (simp_all add: disjoint_iff, blast)
    moreover have "set (offs (set_child l k c')) \<inter> insert off (set (offs c) \<union> set (offs r)) = {}"
      using sc(1) dj TN.prems(1) by (simp add: disjoint_iff subset_iff) blast
    ultimately show ?thesis
      using 2 TN.prems(1) by (simp add: disjoint_iff) blast
  next
    case 3
    have dj: "set (offs c') \<inter> (insert off (set (offs c) \<union> set (offs l))) = {}"
      using 3 TN.prems(1,3) sub(2) by (simp add: disjoint_iff) blast
    have "distinct (offs (set_child r k c'))"
      using 3 TN.prems by (intro TN.IH(3)) (simp_all add: disjoint_iff, blast)
    moreover have "set (offs (set_child r k c')) \<inter> insert off (set (offs c) \<union> set (offs l)) = {}"
      using sc(2) dj TN.prems(1) by (simp add: disjoint_iff subset_iff) blast
    ultimately show ?thesis
      using 3 TN.prems(1) by (simp add: disjoint_iff) blast
  qed
qed simp

text \<open>Every node of \<^verbatim>\<open>t\<close> is still at its path in \<^verbatim>\<open>t'\<close>; a node that is new lies on the path \<^verbatim>\<open>ks\<close>
  and was allocated at or above \<^verbatim>\<open>lim\<close>.\<close>

definition grows :: "nat \<Rightarrow> tst \<Rightarrow> string list \<Rightarrow> tst \<Rightarrow> bool" where
  "grows lim t ks t' =
     ((\<forall>p x. node_at t p = Some x \<longrightarrow> node_at t' p = Some x) \<and>
      (\<forall>p x. node_at t' p = Some x \<longrightarrow> node_at t p = Some x \<or> prefix p ks \<and> lim \<le> x))"

lemma grows_refl [simp]: "grows lim t ks t"
  by (simp add: grows_def)

lemma grows_mono: "grows lim t ks t' \<Longrightarrow> lim' \<le> lim \<Longrightarrow> grows lim' t ks t'"
  unfolding grows_def by (meson order_trans)

lemma node_at_ins_sub:
  "node_at (ins_sub t k new) p = (if p = [k] \<and> fsub t k = Tip then Some new else node_at t p)"
proof (cases p)
  case (Cons x xs)
  then show ?thesis
    by (cases "xs = []") (auto simp: root_off_fsub_ins_sub node_at_Cons child_of_fsub_ins_sub)
qed simp

lemma grows_ins_sub: "lim \<le> new \<Longrightarrow> grows lim t (k # ks) (ins_sub t k new)"
  by (auto simp: grows_def node_at_ins_sub split: if_splits)

lemma node_at_set_child:
  "node_at (set_child t k c') p =
     (case p of [] \<Rightarrow> None | x # xs \<Rightarrow>
        if x = k \<and> xs \<noteq> [] \<and> fsub t k \<noteq> Tip then node_at c' xs else node_at t p)"
proof (cases p)
  case (Cons x xs)
  then show ?thesis
    by (cases "xs = []") (auto simp: root_off_fsub_set_child node_at_Cons child_of_fsub_set_child)
qed simp

lemma grows_set_child:
  assumes "fsub t k \<noteq> Tip" "grows lim (child_of (fsub t k)) ks c'"
  shows "grows lim t (k # ks) (set_child t k c')"
proof -
  have "node_at t (k # xs) = node_at (child_of (fsub t k)) xs" if "xs \<noteq> []" for xs
    using that by (rule node_at_Cons)
  with assms show ?thesis
    by (auto simp: grows_def node_at_set_child split: list.splits if_splits)
qed

lemma grows_trans: "grows lim t ks t' \<Longrightarrow> grows lim t' ks t'' \<Longrightarrow> grows lim t ks t''"
  unfolding grows_def by blast

end
