(* ===== verification/Param_Trie_Refine.thy ===== *)
theory Param_Trie_Refine
  imports Param_Trie Trie_Spec
begin

text \<open>
  The memory of a workspace represents an abstract trie: representation predicate, the exact
  behaviour of the lookup on it, preservation of the representation by insertion, and the
  traversal. The operations terminate and read only allocated objects on every represented area.
\<close>

subsection \<open>Representation\<close>

fun repr :: "(nat \<Rightarrow> cell option) \<Rightarrow> tst \<Rightarrow> nat \<Rightarrow> bool" where
  "repr m Tip ix = (ix = 0)"
| "repr m (TN off k l c r) ix =
     (ix = off \<and> 0 < off \<and>
      (\<exists>n. m off = Some (TrieCell n) \<and> tn_key n = k \<and> tn_length n = length k \<and>
           repr m l (tn_left n) \<and> repr m c (tn_child n) \<and> repr m r (tn_right n)))"

text \<open>The tree \<^verbatim>\<open>c\<close> of the top level components below the root node, which is the first object of
  the area and carries the key \<^verbatim>\<open>#\<close>.\<close>

definition area_repr :: "ParamTrieHeader \<Rightarrow> tst \<Rightarrow> bool" where
  "area_repr a c =
     (hd_firstNode a = 0 \<and>
      (\<exists>n. hd_data a 0 = Some (TrieCell n) \<and>
           tn_key n = ''#'' \<and> tn_length n = 1 \<and> tn_left n = 0 \<and> tn_right n = 0 \<and>
           repr (hd_data a) c (tn_child n)) \<and>
      bst c \<and> distinct (offs c) \<and> (\<forall>off \<in> set (offs c). off < hd_currOffset a) \<and>
      0 < hd_currOffset a \<and> hd_currOffset a < hd_dataSize a \<and> hd_dataSize a < 2147483648)"

definition lab :: "ParamTrieHeader \<Rightarrow> nat \<Rightarrow> nat" where
  "lab a off = (case trie_at a off of Some n \<Rightarrow> tn_labelIndex n | None \<Rightarrow> 0)"

fun tptr :: "tst \<Rightarrow> ptr" where
  "tptr Tip = NULL"
| "tptr (TN off k l c r) = Ref off"

text \<open>The components of a key, and whether the descent reaches the end of the key without meeting
  an empty component.\<close>

function key_split :: "string \<Rightarrow> string list \<times> bool" where
  "key_split key =
     (case GetNextKey key of (sub, subKey) \<Rightarrow>
      if sub = [] then ([], False)
      else case subKey of
        None \<Rightarrow> ([sub], True)
      | Some r \<Rightarrow> if r = ''.'' then ([sub], True)
                  else (case key_split (tl r) of (ks, ok) \<Rightarrow> (sub # ks, ok)))"
  by pat_completeness auto
termination
  by (relation "measure length") (auto dest: GetNextKey_length [OF sym])

declare key_split.simps [simp del]

text \<open>The level that the lookup searches below a node: its child tree, or the subtree of the node
  itself when it has no child.\<close>

fun level :: "tst \<Rightarrow> tst" where
  "level Tip = Tip"
| "level (TN off k l c r) = (if c = Tip then TN off k l c r else c)"

fun gfind :: "(nat \<Rightarrow> nat) \<Rightarrow> tst \<Rightarrow> string list \<Rightarrow> nat \<Rightarrow> tst \<times> nat" where
  "gfind L t [] lbl = (t, lbl)"
| "gfind L t (k # ks) lbl =
     (case fsub (level t) k of
        Tip \<Rightarrow> (Tip, lbl)
      | TN off nk l c r \<Rightarrow> gfind L (TN off nk l c r) ks (if L off \<noteq> 0 then L off else lbl))"

text \<open>The label of the longest labelled prefix of a path.\<close>

fun plabel :: "(nat \<Rightarrow> nat) \<Rightarrow> tst \<Rightarrow> string list \<Rightarrow> nat \<Rightarrow> nat" where
  "plabel L t [] lbl = lbl"
| "plabel L t (k # ks) lbl =
     (case fsub t k of
        Tip \<Rightarrow> lbl
      | TN off nk l c r \<Rightarrow> plabel L c ks (if L off \<noteq> 0 then L off else lbl))"

subsection \<open>Lookup\<close>

lemma repr_Tip_iff: "repr m t ix \<Longrightarrow> ix = 0 \<longleftrightarrow> t = Tip"
  by (cases t) auto

lemma repr_fsub:
  "repr m t ix \<Longrightarrow> fsub t k = TN off nk l c r \<Longrightarrow> repr m (TN off nk l c r) off"
  by (induction t arbitrary: ix) (auto split: if_splits)

lemma GetTrieNode_Ref: "0 < off \<Longrightarrow> off \<le> hd_dataSize a \<Longrightarrow> GetTrieNode a off = Ref off"
  by (simp add: GetTrieNode_def)

lemma GetTrieNode_0 [simp]: "GetTrieNode a 0 = NULL"
  by (simp add: GetTrieNode_def)

lemma CompareParamTrieNode_kcmp:
  "tn_length n = length (tn_key n) \<Longrightarrow> CompareParamTrieNode n k = kcmp (tn_key n) k"
  by (simp add: CompareParamTrieNode_def kcmp_def)

lemma repr_TN_D:
  assumes "repr (hd_data a) (TN off k l c r) ix"
  obtains n where "ix = off" "0 < off" "hd_data a off = Some (TrieCell n)" "trie_at a off = Some n"
    "tn_key n = k" "tn_length n = length k" "repr (hd_data a) l (tn_left n)"
    "repr (hd_data a) c (tn_child n)" "repr (hd_data a) r (tn_right n)"
  using assms by (auto simp: trie_at_def)

text \<open>A node whose subtrees are represented; unlike in \<^verbatim>\<open>repr\<close> its offset may be 0, as the root's is.\<close>

fun node_repr :: "(nat \<Rightarrow> cell option) \<Rightarrow> tst \<Rightarrow> bool" where
  "node_repr m Tip = False"
| "node_repr m (TN off k l c r) =
     (\<exists>n. m off = Some (TrieCell n) \<and> tn_key n = k \<and> tn_length n = length k \<and>
          repr m l (tn_left n) \<and> repr m c (tn_child n) \<and> repr m r (tn_right n))"

lemma repr_TN_iff: "repr m (TN off k l c r) ix \<longleftrightarrow> ix = off \<and> 0 < off \<and> node_repr m (TN off k l c r)"
  by simp

definition find_result :: "ParamTrieHeader \<Rightarrow> tst \<Rightarrow> nat \<Rightarrow> ptr \<times> nat" where
  "find_result a t lbl =
     (case t of Tip \<Rightarrow> (NULL, lbl)
      | TN off k l c r \<Rightarrow> (Ref off, if lab a off \<noteq> 0 then lab a off else lbl))"

lemma FindSubTrie_NULL [simp]: "FindSubTrie a NULL k lbl = Some (NULL, lbl)"
  by (simp add: FindSubTrie.simps [of a NULL])

lemma FindSubTrie_Ref:
  "trie_at a off = Some n \<Longrightarrow> FindSubTrie a (Ref off) k lbl =
     (if CompareParamTrieNode n k = 0
      then Some (Ref off, if lab a off \<noteq> 0 then lab a off else lbl)
      else if CompareParamTrieNode n k < 0 then FindSubTrie a (GetTrieNode a (tn_left n)) k lbl
      else FindSubTrie a (GetTrieNode a (tn_right n)) k lbl)"
  by (subst FindSubTrie.simps) (auto simp: lab_def GetTrieNode_def)

lemma FindSubTrie_repr:
  assumes "repr (hd_data a) t ix" and "\<forall>off \<in> set (offs t). off \<le> hd_dataSize a"
  shows "FindSubTrie a (GetTrieNode a ix) k lbl = Some (find_result a (fsub t k) lbl)"
  using assms
proof (induction t arbitrary: ix)
  case Tip
  then show ?case
    by (simp add: find_result_def)
next
  case (TN off nk l c r)
  from TN.prems(1) obtain n where n: "ix = off" "0 < off" "trie_at a off = Some n"
      "tn_key n = nk" "tn_length n = length nk" "repr (hd_data a) l (tn_left n)"
      "repr (hd_data a) c (tn_child n)" "repr (hd_data a) r (tn_right n)"
    by (rule repr_TN_D)
  then have "CompareParamTrieNode n k = kcmp nk k" and "GetTrieNode a ix = Ref off"
    using CompareParamTrieNode_kcmp TN.prems(2) by (auto simp: GetTrieNode_def)
  with n TN.IH(1) [OF n(6)] TN.IH(3) [OF n(8)] TN.prems(2) show ?case
    by (simp add: FindSubTrie_Ref find_result_def)
qed

lemma FindSubTrie_node:
  assumes "node_repr (hd_data a) (TN off nk l c r)"
    and "\<forall>x \<in> set (offs l) \<union> set (offs r). x \<le> hd_dataSize a"
  shows "FindSubTrie a (Ref off) k lbl = Some (find_result a (fsub (TN off nk l c r) k) lbl)"
proof -
  from assms(1) obtain n where n: "trie_at a off = Some n" "tn_key n = nk" "tn_length n = length nk"
      "repr (hd_data a) l (tn_left n)" "repr (hd_data a) r (tn_right n)"
    by (auto simp: trie_at_def)
  then have "CompareParamTrieNode n k = kcmp nk k"
    using CompareParamTrieNode_kcmp by auto
  with n assms(2) show ?thesis
    by (simp add: FindSubTrie_Ref FindSubTrie_repr find_result_def)
qed

lemma node_repr_trie_at:
  "node_repr (hd_data a) (TN off nk l c r) \<Longrightarrow>
     \<exists>n. trie_at a off = Some n \<and> repr (hd_data a) c (tn_child n) \<and> tn_labelIndex n = lab a off"
  by (auto simp: trie_at_def lab_def)

lemma node_repr_level:
  assumes "node_repr (hd_data a) t" and "fsub (level t) k \<noteq> Tip"
  shows "node_repr (hd_data a) (fsub (level t) k)"
proof (cases t)
  case (TN off nk l c r)
  obtain off' nk' l' c' r' where f: "fsub (level t) k = TN off' nk' l' c' r'"
    using assms(2) by (cases "fsub (level t) k") auto
  show ?thesis
  proof (cases "c = Tip")
    case True
    with TN assms f show ?thesis
      by (auto split: if_splits dest: repr_fsub)
  next
    case False
    with TN assms f show ?thesis
      by (auto dest: repr_fsub)
  qed
qed (use assms in simp)

lemma offs_fsub: "set (offs (fsub t k)) \<subseteq> set (offs t)"
  by (induction t) auto

lemma offs_level: "set (offs (level t)) \<subseteq> set (offs t)"
  by (cases t) auto

text \<open>The lookup is the abstract lookup, with the label of the last labelled node it passed.\<close>

lemma FindTrieNode_loop_repr:
  assumes "node_repr (hd_data a) (TN off nk l c r)"
    and "\<forall>x \<in> set (offs (TN off nk l c r)). x \<le> hd_dataSize a"
  shows "FindTrieNode_loop a off key lbl =
    (case gfind (lab a) (TN off nk l c r) (fst (key_split key)) lbl of
       (t, lbl') \<Rightarrow> Some (if snd (key_split key) then tptr t else NULL, lbl'))"
  using assms
proof (induction key arbitrary: off nk l c r lbl rule: key_split.induct)
  case (1 key)
  let ?t = "TN off nk l c r"
  obtain sub subKey where g: "GetNextKey key = (sub, subKey)"
    by fastforce
  obtain n where n: "trie_at a off = Some n" "repr (hd_data a) c (tn_child n)"
    using node_repr_trie_at [OF "1.prems"(1)] by blast
  have search: "(if tn_child n \<noteq> 0
      then FindSubTrie a (GetTrieNode a (tn_child n)) sub lbl
      else FindSubTrie a (Ref off) sub lbl) = Some (find_result a (fsub (level ?t) sub) lbl)"
    using n "1.prems" FindSubTrie_repr [OF n(2)] FindSubTrie_node [OF "1.prems"(1)]
      repr_Tip_iff [OF n(2)] by simp
  have ks: "key_split key = (if sub = [] then ([], False) else case subKey of None \<Rightarrow> ([sub], True)
      | Some r \<Rightarrow> if r = ''.'' then ([sub], True)
                  else (case key_split (tl r) of (ks, ok) \<Rightarrow> (sub # ks, ok)))"
    by (subst key_split.simps) (simp add: g)
  have lp: "FindTrieNode_loop a off key lbl =
     (if sub = [] then Some (NULL, lbl)
      else do {
        (next, lbl) \<leftarrow> Some (find_result a (fsub (level ?t) sub) lbl);
        case next of
          NULL \<Rightarrow> Some (NULL, lbl)
        | Ref off \<Rightarrow> do {
            m \<leftarrow> trie_at a off;
            let lbl' = (if tn_labelIndex m \<noteq> 0 then tn_labelIndex m else lbl) in
            case subKey of
              None \<Rightarrow> Some (Ref off, lbl')
            | Some r \<Rightarrow> if r = ''.'' then Some (Ref off, lbl')
                        else FindTrieNode_loop a off (tl r) lbl'
          }
      })"
    using search
    by (subst FindTrieNode_loop.simps, cases "tn_child n = 0") (simp_all add: g n del: level.simps)
  show ?case
  proof (cases "fsub (level ?t) sub")
    case Tip
    then show ?thesis
      unfolding lp ks by (simp add: find_result_def del: level.simps split: option.split prod.split)
  next
    case (TN off' nk' l' c' r')
    have nr: "node_repr (hd_data a) (TN off' nk' l' c' r')"
      using node_repr_level [OF "1.prems"(1), of sub] by (simp add: TN del: level.simps node_repr.simps)
    have bd: "\<forall>x \<in> set (offs (TN off' nk' l' c' r')). x \<le> hd_dataSize a"
      using offs_fsub [of "level ?t" sub] offs_level [of ?t] TN "1.prems"(2) by (auto simp del: offs.simps)
    obtain m where m: "trie_at a off' = Some m" "tn_labelIndex m = lab a off'"
      using node_repr_trie_at [OF nr] by blast
    have ih: "FindTrieNode_loop a off' (tl x) lbl' =
        (case gfind (lab a) (TN off' nk' l' c' r') (fst (key_split (tl x))) lbl' of
           (t, lbl'') \<Rightarrow> Some (if snd (key_split (tl x)) then tptr t else NULL, lbl''))"
      if "sub \<noteq> []" "subKey = Some x" "x \<noteq> ''.''" for x lbl'
      by (rule "1.IH" [OF g [symmetric] that nr bd])
    show ?thesis
      unfolding lp ks using m TN ih
      by (auto simp: find_result_def simp del: level.simps split: option.split prod.split)
  qed
qed

lemma level_child [simp]: "c \<noteq> Tip \<Longrightarrow> level (TN off k l c r) = c"
  by simp

lemma gfind_path:
  "ks \<noteq> [] \<Longrightarrow> tpath c ks \<noteq> Tip \<Longrightarrow>
     gfind L (TN off k l c r) ks lbl = (tpath c ks, plabel L c ks lbl)"
proof (induction ks arbitrary: off k l c r lbl)
  case (Cons x ks)
  have "c \<noteq> Tip" using Cons.prems(2) by auto
  moreover have "fsub c x \<noteq> Tip" using Cons.prems(2) by (cases ks) auto
  then obtain off' k' l' c' r' where "fsub c x = TN off' k' l' c' r'"
    by (cases "fsub c x") auto
  ultimately show ?case
    using Cons by (cases ks) auto
qed simp

lemma area_repr_root:
  assumes "area_repr a c"
  shows "node_repr (hd_data a) (TN 0 ''#'' Tip c Tip)"
    and "\<forall>x \<in> set (offs (TN 0 ''#'' Tip c Tip)). x \<le> hd_dataSize a"
    and "\<exists>n. trie_at a (hd_firstNode a) = Some n \<and> tn_labelIndex n = lab a 0"
  using assms by (auto simp: area_repr_def trie_at_def lab_def)

lemma FindTrieNode_inner_repr:
  assumes "ws_area ws = Some a" and "area_repr a c"
  shows "FindTrieNode_inner ws key =
    (case gfind (lab a) (TN 0 ''#'' Tip c Tip) (fst (key_split key)) (lab a 0) of
       (t, lbl) \<Rightarrow> Some (if snd (key_split key) then tptr t else NULL, lbl))"
proof -
  have "hd_firstNode a = 0" using assms(2) by (simp add: area_repr_def)
  then show ?thesis
    using area_repr_root [OF assms(2)] FindTrieNode_loop_repr [of a 0 "''#''" Tip c Tip key "lab a 0"] assms(1)
    by (auto simp: FindTrieNode_inner_def)
qed

subsection \<open>Insertion\<close>

definition fresh_trie :: "string \<Rightarrow> ParamTrieNode" where
  "fresh_trie key = \<lparr>tn_left = 0, tn_right = 0, tn_child = 0, tn_labelIndex = 0, tn_dataIndex = 0,
                     tn_length = u16 (length key), tn_key = key\<rparr>"

definition area_bounds :: "ParamTrieHeader \<Rightarrow> bool" where
  "area_bounds a = (0 < hd_currOffset a \<and> hd_currOffset a < hd_dataSize a \<and> hd_dataSize a < 2147483648)"

lemma Allocate_cases:
  assumes "area_bounds a" and "length k < 65536"
  obtains (full) "AllocateParamTrieNode a k = (a, 0)"
  | (new) a1 where "AllocateParamTrieNode a k = (a1, hd_currOffset a)"
      "hd_data a1 = (hd_data a)(hd_currOffset a \<mapsto> TrieCell (fresh_trie k))"
      "hd_currOffset a < hd_currOffset a1" "area_bounds a1"
      "hd_dataSize a1 = hd_dataSize a" "hd_firstNode a1 = hd_firstNode a"
proof (cases "u32 (hd_currOffset a + PARAM_ALIGN (u32 (length k + 24 + 1))) < hd_dataSize a")
  case True
  have "PARAM_ALIGN (25 + length k) < length k + 29" and "length k + 25 \<le> PARAM_ALIGN (25 + length k)"
    using assms(2) PARAM_ALIGN_less [of "25 + length k"] PARAM_ALIGN_ge [of "25 + length k"] by auto
  with True assms show ?thesis
    by (intro new [of "fst (AllocateParamTrieNode a k)"])
       (auto simp: AllocateParamTrieNode_def fresh_trie_def area_bounds_def Let_def)
next
  case False
  then show ?thesis
    by (intro full) (simp add: AllocateParamTrieNode_def)
qed

lemma repr_frame: "repr m t ix \<Longrightarrow> \<forall>x \<in> set (offs t). m' x = m x \<Longrightarrow> repr m' t ix"
  by (induction t arbitrary: ix) auto

definition same_payload :: "ParamTrieNode \<Rightarrow> ParamTrieNode \<Rightarrow> bool" where
  "same_payload n n' =
     (tn_key n' = tn_key n \<and> tn_length n' = tn_length n \<and>
      tn_labelIndex n' = tn_labelIndex n \<and> tn_dataIndex n' = tn_dataIndex n)"

lemma same_payload_links [simp]:
  "same_payload n (n\<lparr>tn_left := x\<rparr>)" "same_payload n (n\<lparr>tn_right := x\<rparr>)"
  "same_payload n (n\<lparr>tn_child := x\<rparr>)" "same_payload n n"
  by (simp_all add: same_payload_def)

text \<open>One node was allocated and linked into an existing node \<^verbatim>\<open>off\<close>.\<close>

definition linked :: "ParamTrieHeader \<Rightarrow> string \<Rightarrow> nat \<Rightarrow> ParamTrieHeader \<Rightarrow> bool" where
  "linked a k off a2 =
     (\<exists>a1 n n'. AllocateParamTrieNode a k = (a1, hd_currOffset a) \<and> hd_data a off = Some (TrieCell n) \<and>
        same_payload n n' \<and> a2 = put_cell a1 off (TrieCell n'))"

lemma linked_data:
  assumes "linked a k off a2" "area_bounds a" "length k < 65536" "off < hd_currOffset a"
  shows "hd_data a2 (hd_currOffset a) = Some (TrieCell (fresh_trie k))"
    and "x \<noteq> off \<Longrightarrow> x \<noteq> hd_currOffset a \<Longrightarrow> hd_data a2 x = hd_data a x"
    and "area_bounds a2" and "hd_currOffset a < hd_currOffset a2"
    and "hd_dataSize a2 = hd_dataSize a" and "hd_firstNode a2 = hd_firstNode a"
    and "\<exists>n n'. hd_data a off = Some (TrieCell n) \<and> hd_data a2 off = Some (TrieCell n') \<and> same_payload n n'"
proof -
  obtain a1 n n' where al: "AllocateParamTrieNode a k = (a1, hd_currOffset a)"
      and n: "hd_data a off = Some (TrieCell n)" "same_payload n n'"
      and a2: "a2 = put_cell a1 off (TrieCell n')"
    using assms(1) unfolding linked_def by blast
  have a1: "hd_data a1 = (hd_data a)(hd_currOffset a \<mapsto> TrieCell (fresh_trie k))"
      "hd_currOffset a < hd_currOffset a1" "area_bounds a1"
      "hd_dataSize a1 = hd_dataSize a" "hd_firstNode a1 = hd_firstNode a"
    using assms(2) al by (rule_tac Allocate_cases [OF assms(2,3)]; simp add: area_bounds_def)+
  show "hd_data a2 (hd_currOffset a) = Some (TrieCell (fresh_trie k))"
    and "x \<noteq> off \<Longrightarrow> x \<noteq> hd_currOffset a \<Longrightarrow> hd_data a2 x = hd_data a x"
    and "area_bounds a2" and "hd_currOffset a < hd_currOffset a2"
    and "hd_dataSize a2 = hd_dataSize a" and "hd_firstNode a2 = hd_firstNode a"
    and "\<exists>n n'. hd_data a off = Some (TrieCell n) \<and> hd_data a2 off = Some (TrieCell n') \<and> same_payload n n'"
    using a1 n assms(4) by (auto simp: a2 put_cell_def area_bounds_def)
qed

definition link_new ::
  "ParamTrieHeader \<Rightarrow> string \<Rightarrow> (ParamTrieHeader \<Rightarrow> nat \<Rightarrow> ParamTrieHeader exec) \<Rightarrow> (ParamTrieHeader \<times> ptr) exec" where
  "link_new a k save =
     (let (a1, offset) = AllocateParamTrieNode a k in
      if offset = 0 then Some (a1, NULL)
      else do { a2 \<leftarrow> save a1 offset; Some (a2, GetTrieNode a2 offset) })"

lemma AddToSubTrie_Ref:
  "trie_at a off = Some n \<Longrightarrow> AddToSubTrie a (Ref off) k =
     (if CompareParamTrieNode n k = 0 then Some (a, Ref off)
      else if CompareParamTrieNode n k < 0 then
        (if GetTrieNode a (tn_left n) = NULL then link_new a k (\<lambda>a1 i. SaveIndex_left a1 off i)
         else AddToSubTrie a (GetTrieNode a (tn_left n)) k)
      else
        (if GetTrieNode a (tn_right n) = NULL then link_new a k (\<lambda>a1 i. SaveIndex_right a1 off i)
         else AddToSubTrie a (GetTrieNode a (tn_right n)) k))"
  by (subst AddToSubTrie.simps) (auto simp: link_new_def split: ptr.splits)

lemma AddTrieNode_step_eq:
  "trie_at a off = Some n \<Longrightarrow> AddTrieNode_step a off k =
     (if tn_child n \<noteq> 0 then AddToSubTrie a (GetTrieNode a (tn_child n)) k
      else link_new a k (\<lambda>a1 i. SaveIndex_child a1 off i))"
  by (simp add: AddTrieNode_step_def link_new_def)

lemma link_new_full: "AllocateParamTrieNode a k = (a, 0) \<Longrightarrow> link_new a k save = Some (a, NULL)"
  by (simp add: link_new_def)

lemma link_new_ok:
  assumes "area_bounds a" "length k < 65536" "AllocateParamTrieNode a k \<noteq> (a, 0)"
    and "hd_data a off = Some (TrieCell n)" "off < hd_currOffset a" "same_payload n (f n)"
    and save: "\<And>a1. save a1 (hd_currOffset a) = upd_trie a1 off f"
  shows "\<exists>a2. link_new a k save = Some (a2, Ref (hd_currOffset a)) \<and> linked a k off a2 \<and>
      hd_data a2 off = Some (TrieCell (f n))"
  using assms(1,2)
proof (cases rule: Allocate_cases)
  case full
  with assms(3) show ?thesis by simp
next
  case (new a1)
  let ?a2 = "put_cell a1 off (TrieCell (f n))"
  have "linked a k off ?a2"
    unfolding linked_def using new(1) assms(4,6) by blast
  moreover have "trie_at a1 off = Some n"
    using new(2) assms(4,5) by (simp add: trie_at_def)
  ultimately show ?thesis
    using new assms(1) by (intro exI [of _ ?a2])
      (auto simp: link_new_def save upd_trie_def area_bounds_def put_cell_def GetTrieNode_def)
qed

lemma repr_fresh: "m new = Some (TrieCell (fresh_trie k)) \<Longrightarrow> 0 < new \<Longrightarrow> length k < 65536 \<Longrightarrow>
    repr m (TN new k Tip Tip Tip) new"
  by (simp add: fresh_trie_def)

lemma linked_repr:
  assumes "linked a k off a2" "area_bounds a" "length k < 65536" "off < hd_currOffset a"
    and "repr (hd_data a) t ix" "off \<notin> set (offs t)" "\<forall>x \<in> set (offs t). x < hd_currOffset a"
  shows "repr (hd_data a2) t ix"
  using repr_frame [OF assms(5)] linked_data(2) [OF assms(1-4)] assms(6,7) by (metis less_irrefl)

text \<open>The outcome of inserting a component into a level \<^verbatim>\<open>t\<close> stored at \<^verbatim>\<open>ix\<close>: the component is there
  already, the area is full, or one node was added.\<close>

definition added :: "ParamTrieHeader \<Rightarrow> tst \<Rightarrow> nat \<Rightarrow> string \<Rightarrow> (ParamTrieHeader \<times> ptr) exec \<Rightarrow> bool" where
  "added a t ix k res =
     (if fsub t k \<noteq> Tip then res = Some (a, tptr (fsub t k))
      else if AllocateParamTrieNode a k = (a, 0) then res = Some (a, NULL)
      else \<exists>off a2. off \<in> set (offs t) \<and> linked a k off a2 \<and> res = Some (a2, Ref (hd_currOffset a)) \<and>
             repr (hd_data a2) (ins_sub t k (hd_currOffset a)) ix)"

lemma added_leaf:
  assumes "area_bounds a" "length k < 65536" "hd_data a off = Some (TrieCell n)" "off < hd_currOffset a"
    and "same_payload n (f n)" "\<And>a1. save a1 (hd_currOffset a) = upd_trie a1 off f"
    and "off \<in> set (offs t)" "fsub t k = Tip"
    and "\<And>a2. linked a k off a2 \<Longrightarrow> hd_data a2 off = Some (TrieCell (f n)) \<Longrightarrow>
           repr (hd_data a2) (ins_sub t k (hd_currOffset a)) ix"
  shows "added a t ix k (link_new a k save)"
proof (cases "AllocateParamTrieNode a k = (a, 0)")
  case True
  with assms(8) show ?thesis by (simp add: added_def link_new_full)
next
  case False
  with link_new_ok [OF assms(1,2) False assms(3,4), of f save] assms(5,6) assms(7-9) show ?thesis
    unfolding added_def by auto
qed

lemma added_sub:
  assumes "added a s i k res" "set (offs s) \<subseteq> set (offs t)" "fsub t k = fsub s k"
    and "\<And>off a2. off \<in> set (offs s) \<Longrightarrow> linked a k off a2 \<Longrightarrow>
           repr (hd_data a2) (ins_sub s k (hd_currOffset a)) i \<Longrightarrow>
           repr (hd_data a2) (ins_sub t k (hd_currOffset a)) ix"
  shows "added a t ix k res"
  using assms unfolding added_def by (auto split: if_splits)

lemma GetTrieNode_repr:
  "area_bounds a \<Longrightarrow> repr (hd_data a) s i \<Longrightarrow> \<forall>x \<in> set (offs s). x < hd_currOffset a \<Longrightarrow>
     GetTrieNode a i = (if s = Tip then NULL else Ref i)"
  by (cases s) (auto simp: GetTrieNode_def area_bounds_def)

text \<open>Linking below one subtree keeps the node above it and its other subtrees.\<close>

lemma linked_node:
  assumes "area_bounds a" "length k < 65536" "linked a k x a2" "x < hd_currOffset a"
    and "hd_data a off = Some (TrieCell n)" "x \<noteq> off" "off < hd_currOffset a"
  shows "hd_data a2 off = Some (TrieCell n)"
  using linked_data(2) [OF assms(3,1,2,4), of off] assms(5-7) by simp

lemma AddToSubTrie_repr:
  assumes "repr (hd_data a) t ix" "t \<noteq> Tip" "\<forall>x \<in> set (offs t). x < hd_currOffset a"
    and "distinct (offs t)" "area_bounds a" "length k < 65536"
  shows "added a t ix k (AddToSubTrie a (Ref ix) k)"
  using assms(1-4)
proof (induction t arbitrary: ix)
  case (TN off nk l c r)
  let ?cur = "hd_currOffset a"
  note ctx = assms(5,6)
  from TN.prems(1) obtain n where n: "ix = off" "0 < off" "trie_at a off = Some n"
      "hd_data a off = Some (TrieCell n)"
      "tn_key n = nk" "tn_length n = length nk" "repr (hd_data a) l (tn_left n)"
      "repr (hd_data a) c (tn_child n)" "repr (hd_data a) r (tn_right n)"
    by (rule repr_TN_D)
  have cmp: "CompareParamTrieNode n k = kcmp nk k"
    using n CompareParamTrieNode_kcmp by auto
  have less: "off < ?cur" and cur: "0 < ?cur"
    using TN.prems(3) ctx(1) by (auto simp: area_bounds_def)
  note ref = GetTrieNode_repr [OF ctx(1) n(7)] GetTrieNode_repr [OF ctx(1) n(9)]
  have fresh: "repr (hd_data a2) (TN ?cur k Tip Tip Tip) ?cur" if "linked a k x a2" "x < ?cur" for x a2
    using linked_data(1) [OF that(1) ctx that(2)] cur ctx(2) by (rule repr_fresh)
  consider "nk = k" | (left) "nk \<noteq> k" "kcmp nk k < 0" | (right) "nk \<noteq> k" "\<not> kcmp nk k < 0"
    by blast
  then show ?case
  proof cases
    case 1
    with n cmp show ?thesis by (simp add: added_def AddToSubTrie_Ref)
  next
    case left
    show ?thesis
    proof (cases "l = Tip")
      case True
      have "added a (TN off nk l c r) ix k (link_new a k (\<lambda>a1 i. SaveIndex_left a1 off i))"
      proof (rule added_leaf [OF ctx n(4) less, where f = "\<lambda>n. n\<lparr>tn_left := ?cur\<rparr>"])
        fix a2 assume a2: "linked a k off a2" "hd_data a2 off = Some (TrieCell (n\<lparr>tn_left := ?cur\<rparr>))"
        with left n True fresh [OF a2(1) less] TN.prems(3,4) linked_repr [OF a2(1) ctx less n(8)]
          linked_repr [OF a2(1) ctx less n(9)]
        show "repr (hd_data a2) (ins_sub (TN off nk l c r) k ?cur) ix" by auto
      qed (use left True in \<open>auto simp: SaveIndex_left_def\<close>)
      with n left cmp True ref show ?thesis by (simp add: AddToSubTrie_Ref)
    next
      case False
      have IH: "added a l (tn_left n) k (AddToSubTrie a (Ref (tn_left n)) k)"
        using TN.IH(1) [OF n(7) False] TN.prems by simp
      have "added a (TN off nk l c r) ix k (AddToSubTrie a (Ref (tn_left n)) k)"
      proof (rule added_sub [OF IH])
        fix x a2 assume a2: "x \<in> set (offs l)" "linked a k x a2"
          "repr (hd_data a2) (ins_sub l k ?cur) (tn_left n)"
        then have x: "x < ?cur" "x \<noteq> off" "x \<notin> set (offs c)" "x \<notin> set (offs r)"
          using TN.prems(3,4) by auto
        with left n a2(3) TN.prems(3) linked_repr [OF a2(2) ctx x(1) n(8)] linked_repr [OF a2(2) ctx x(1) n(9)]
          linked_node [OF ctx a2(2) x(1) n(4) x(2) less]
        show "repr (hd_data a2) (ins_sub (TN off nk l c r) k ?cur) ix" by auto
      qed (use left in auto)
      with n left cmp False ref TN.prems(3) show ?thesis by (simp add: AddToSubTrie_Ref)
    qed
  next
    case right
    show ?thesis
    proof (cases "r = Tip")
      case True
      have "added a (TN off nk l c r) ix k (link_new a k (\<lambda>a1 i. SaveIndex_right a1 off i))"
      proof (rule added_leaf [OF ctx n(4) less, where f = "\<lambda>n. n\<lparr>tn_right := ?cur\<rparr>"])
        fix a2 assume a2: "linked a k off a2" "hd_data a2 off = Some (TrieCell (n\<lparr>tn_right := ?cur\<rparr>))"
        with right n True fresh [OF a2(1) less] TN.prems(3,4) linked_repr [OF a2(1) ctx less n(8)]
          linked_repr [OF a2(1) ctx less n(7)]
        show "repr (hd_data a2) (ins_sub (TN off nk l c r) k ?cur) ix" by auto
      qed (use right True in \<open>auto simp: SaveIndex_right_def\<close>)
      with n right cmp True ref show ?thesis by (simp add: AddToSubTrie_Ref)
    next
      case False
      have IH: "added a r (tn_right n) k (AddToSubTrie a (Ref (tn_right n)) k)"
        using TN.IH(3) [OF n(9) False] TN.prems by simp
      have "added a (TN off nk l c r) ix k (AddToSubTrie a (Ref (tn_right n)) k)"
      proof (rule added_sub [OF IH])
        fix x a2 assume a2: "x \<in> set (offs r)" "linked a k x a2"
          "repr (hd_data a2) (ins_sub r k ?cur) (tn_right n)"
        then have x: "x < ?cur" "x \<noteq> off" "x \<notin> set (offs c)" "x \<notin> set (offs l)"
          using TN.prems(3,4) by auto
        with right n a2(3) TN.prems(3) linked_repr [OF a2(2) ctx x(1) n(8)] linked_repr [OF a2(2) ctx x(1) n(7)]
          linked_node [OF ctx a2(2) x(1) n(4) x(2) less]
        show "repr (hd_data a2) (ins_sub (TN off nk l c r) k ?cur) ix" by auto
      qed (use right in auto)
      with n right cmp False ref TN.prems(3) show ?thesis by (simp add: AddToSubTrie_Ref)
    qed
  qed
qed simp

subsection \<open>Insertion of a key\<close>

definition node_need :: "string \<Rightarrow> nat" where
  "node_need k = PARAM_ALIGN (length k + 25)"

lemma Allocate_currOffset:
  assumes "AllocateParamTrieNode a k = (a1, hd_currOffset a)" "area_bounds a" "length k < 65536"
  shows "hd_currOffset a1 = hd_currOffset a + node_need k"
proof -
  have "hd_currOffset a1 = u32 (hd_currOffset a + PARAM_ALIGN (25 + length k))"
    using assms by (auto simp: AllocateParamTrieNode_def area_bounds_def Let_def split: if_splits)
  then show ?thesis
    using assms PARAM_ALIGN_less [of "25 + length k"]
    by (simp add: node_need_def area_bounds_def add.commute)
qed

lemma linked_currOffset:
  assumes "linked a k off a2" "area_bounds a" "length k < 65536"
  shows "hd_currOffset a2 = hd_currOffset a + node_need k"
  using assms Allocate_currOffset by (auto simp: linked_def put_cell_def)

lemma Allocate_room:
  assumes "area_bounds a" "length k < 65536" "hd_currOffset a + node_need k < hd_dataSize a"
  shows "AllocateParamTrieNode a k \<noteq> (a, 0)"
  using assms by (auto simp: AllocateParamTrieNode_def area_bounds_def node_need_def Let_def add.commute)

text \<open>Only the nodes in \<^verbatim>\<open>S\<close> and newly allocated objects differ, and nodes keep what they carry.\<close>

definition kept :: "nat set \<Rightarrow> ParamTrieHeader \<Rightarrow> ParamTrieHeader \<Rightarrow> bool" where
  "kept S a a' =
     (area_bounds a' \<and> hd_currOffset a \<le> hd_currOffset a' \<and>
      hd_dataSize a' = hd_dataSize a \<and> hd_firstNode a' = hd_firstNode a \<and>
      (\<forall>x. x \<notin> S \<longrightarrow> x < hd_currOffset a \<longrightarrow> hd_data a' x = hd_data a x) \<and>
      (\<forall>x n. x < hd_currOffset a \<longrightarrow> hd_data a x = Some (TrieCell n) \<longrightarrow>
         (\<exists>n'. hd_data a' x = Some (TrieCell n') \<and> same_payload n n')))"

lemma same_payload_trans: "same_payload n n' \<Longrightarrow> same_payload n' n'' \<Longrightarrow> same_payload n n''"
  by (simp add: same_payload_def)

lemma kept_refl: "area_bounds a \<Longrightarrow> kept S a a"
  by (auto simp: kept_def)

lemma kept_trans:
  assumes "kept S a a'" "kept T a' a''"
  shows "kept (S \<union> T) a a''"
proof -
  have "\<exists>n'. hd_data a'' x = Some (TrieCell n') \<and> same_payload n n'"
    if x: "x < hd_currOffset a" "hd_data a x = Some (TrieCell n)" for x n
  proof -
    have "x < hd_currOffset a'" using assms(1) x(1) by (simp add: kept_def)
    moreover obtain n' where "hd_data a' x = Some (TrieCell n')" "same_payload n n'"
      using assms(1) x unfolding kept_def by blast
    ultimately show ?thesis
      using assms(2) same_payload_trans unfolding kept_def by blast
  qed
  then show ?thesis
    using assms unfolding kept_def by simp
qed

lemma kept_mono:
  assumes "kept S a a'" "S \<inter> {..<hd_currOffset a} \<subseteq> T"
  shows "kept T a a'"
proof -
  have "x \<notin> S" if "x \<notin> T" "x < hd_currOffset a" for x
    using assms(2) that by auto
  with assms(1) show ?thesis by (simp add: kept_def)
qed

lemma linked_kept:
  assumes "linked a k off a2" "area_bounds a" "length k < 65536" "off < hd_currOffset a"
  shows "kept {off} a a2"
proof -
  note ld = linked_data [OF assms]
  have "\<exists>n'. hd_data a2 x = Some (TrieCell n') \<and> same_payload n n'"
    if "x < hd_currOffset a" "hd_data a x = Some (TrieCell n)" for x n
    using ld(2) [of x] ld(7) that by (cases "x = off") auto
  with ld show ?thesis
    by (auto simp: kept_def)
qed

text \<open>The node at \<^verbatim>\<open>off\<close> with the level \<^verbatim>\<open>c\<close> below it.\<close>

definition under :: "ParamTrieHeader \<Rightarrow> nat \<Rightarrow> ParamTrieNode \<Rightarrow> tst \<Rightarrow> bool" where
  "under a off n c =
     (area_bounds a \<and> hd_data a off = Some (TrieCell n) \<and> repr (hd_data a) c (tn_child n) \<and>
      off < hd_currOffset a \<and> off \<notin> set (offs c) \<and> (\<forall>x \<in> set (offs c). x < hd_currOffset a) \<and>
      distinct (offs c) \<and> bst c)"

lemma under_trie_at: "under a off n c \<Longrightarrow> trie_at a off = Some n"
  by (simp add: under_def trie_at_def)

lemma ins_sub_offs_bound:
  "\<forall>x \<in> set (offs c). x < hd_currOffset a \<Longrightarrow> hd_currOffset a < hd_currOffset a2 \<Longrightarrow>
     set (offs (ins_sub c k (hd_currOffset a))) \<subseteq> set (offs c) \<union> {hd_currOffset a} \<and>
     (\<forall>x \<in> set (offs (ins_sub c k (hd_currOffset a))). x < hd_currOffset a2)"
  by (auto simp: offs_ins_sub split: if_splits)

text \<open>One component is inserted below a node.\<close>

lemma AddTrieNode_step_under:
  assumes u: "under a off n c" and k: "length k < 65536"
  obtains (full) "AddTrieNode_step a off k = Some (a, NULL)" "fsub c k = Tip"
      "hd_dataSize a \<le> hd_currOffset a + node_need k"
  | (there) "AddTrieNode_step a off k = Some (a, tptr (fsub c k))" "fsub c k \<noteq> Tip"
  | (new) a2 i where "AddTrieNode_step a off k = Some (a2, Ref (hd_currOffset a))" "fsub c k = Tip"
      "under a2 off (n\<lparr>tn_child := i\<rparr>) (ins_sub c k (hd_currOffset a))"
      "kept (insert off (set (offs c))) a a2" "hd_currOffset a2 = hd_currOffset a + node_need k"
proof -
  let ?cur = "hd_currOffset a"
  have bd: "area_bounds a" and n: "hd_data a off = Some (TrieCell n)"
    and c: "repr (hd_data a) c (tn_child n)" and off: "off < ?cur" "off \<notin> set (offs c)"
    and offs: "\<forall>x \<in> set (offs c). x < ?cur" "distinct (offs c)" and bst: "bst c"
    using u by (auto simp: under_def)
  have eq: "AddTrieNode_step a off k =
     (if c \<noteq> Tip then AddToSubTrie a (Ref (tn_child n)) k
      else link_new a k (\<lambda>a1 i. SaveIndex_child a1 off i))"
    using AddTrieNode_step_eq [OF under_trie_at [OF u]] repr_Tip_iff [OF c] GetTrieNode_repr [OF bd c offs(1)]
    by auto
  have fin: "under a2 off (n\<lparr>tn_child := i\<rparr>) (ins_sub c k ?cur)" "kept (insert off (set (offs c))) a a2"
      "hd_currOffset a2 = ?cur + node_need k"
    if "linked a k x a2" "x = off \<or> x \<in> set (offs c)" "hd_data a2 off = Some (TrieCell (n\<lparr>tn_child := i\<rparr>))"
      "repr (hd_data a2) (ins_sub c k ?cur) i" for a2 x i
  proof -
    have x: "x < ?cur" using that(2) off offs by auto
    note ld = linked_data [OF that(1) bd k x]
    have "?cur \<notin> set (offs c)" using offs(1) by auto
    then show "under a2 off (n\<lparr>tn_child := i\<rparr>) (ins_sub c k ?cur)"
      using ld(3,4) that(3,4) off ins_sub_offs_bound [OF offs(1) ld(4), of k]
        distinct_offs_ins_sub [OF offs(2)] bst_ins_sub [OF bst] by (auto simp: under_def)
    show "kept (insert off (set (offs c))) a a2"
      using linked_kept [OF that(1) bd k x] that(2) by (auto elim: kept_mono)
    show "hd_currOffset a2 = ?cur + node_need k"
      using linked_currOffset [OF that(1) bd k] .
  qed
  have sub: "added a c (tn_child n) k (AddToSubTrie a (Ref (tn_child n)) k)" if "c \<noteq> Tip"
    using AddToSubTrie_repr [OF c that offs bd k] .
  consider "fsub c k \<noteq> Tip" | "fsub c k = Tip" "AllocateParamTrieNode a k = (a, 0)"
    | "fsub c k = Tip" "AllocateParamTrieNode a k \<noteq> (a, 0)" by blast
  then show thesis
  proof cases
    case 1
    with sub eq show thesis by (intro there) (auto simp: added_def)
  next
    case 2
    with sub eq have "AddTrieNode_step a off k = Some (a, NULL)"
      by (auto simp: added_def link_new_full)
    moreover have "\<not> ?cur + node_need k < hd_dataSize a"
      using 2 Allocate_room [OF bd k] by blast
    ultimately show thesis using 2 by (intro full) auto
  next
    case 3
    show thesis
    proof (cases "c = Tip")
      case True
      obtain a2 where a2: "link_new a k (\<lambda>a1 i. SaveIndex_child a1 off i) = Some (a2, Ref ?cur)"
          "linked a k off a2" "hd_data a2 off = Some (TrieCell (n\<lparr>tn_child := ?cur\<rparr>))"
        using link_new_ok [OF bd k 3(2) n off(1), of "\<lambda>n. n\<lparr>tn_child := ?cur\<rparr>"
            "\<lambda>a1 i. SaveIndex_child a1 off i"] by (auto simp: SaveIndex_child_def)
      have "repr (hd_data a2) (ins_sub c k ?cur) ?cur"
        using repr_fresh [of "hd_data a2" ?cur k] linked_data(1) [OF a2(2) bd k off(1)] k True bd
        by (simp add: area_bounds_def)
      from new [OF _ 3(1) fin [OF a2(2) _ a2(3) this]] eq True a2(1) show thesis by simp
    next
      case False
      then obtain x a2 where a2: "x \<in> set (offs c)" "linked a k x a2"
          "AddToSubTrie a (Ref (tn_child n)) k = Some (a2, Ref ?cur)"
          "repr (hd_data a2) (ins_sub c k ?cur) (tn_child n)"
        using sub 3 by (auto simp: added_def)
      have "hd_data a2 off = Some (TrieCell (n\<lparr>tn_child := tn_child n\<rparr>))"
        using linked_node [OF bd k a2(2) _ n _ off(1)] a2(1) off offs(1) by auto
      from new [OF _ 3(1) fin [OF a2(2) _ this a2(4)]] eq False a2(1,3) show thesis by simp
    qed
  qed
qed

lemma repr_set_child:
  assumes "repr m t ix" "fsub t k = TN off nk l c r" "distinct (offs t)"
    and "\<forall>x \<in> set (offs t) - insert off (set (offs c)). m' x = m x"
    and "m off = Some (TrieCell n)" "m' off = Some (TrieCell (n\<lparr>tn_child := i\<rparr>))" "repr m' c' i"
  shows "repr m' (set_child t k c') ix"
  using assms(1-4)
proof (induction t arbitrary: ix)
  case (TN off1 nk1 l1 c1 r1)
  from TN.prems(1) obtain n1 where n1: "ix = off1" "0 < off1" "m off1 = Some (TrieCell n1)"
      "tn_key n1 = nk1" "tn_length n1 = length nk1" "repr m l1 (tn_left n1)"
      "repr m c1 (tn_child n1)" "repr m r1 (tn_right n1)"
    by auto
  have sub: "off \<in> set (offs t') \<and> set (offs c) \<subseteq> set (offs t')" if "fsub t' k = TN off nk l c r" for t'
    using that root_off_Some_in_offs [of t' k off] offs_child_fsub [of t' k] by auto
  consider "nk1 = k" | "nk1 \<noteq> k" "kcmp nk1 k < 0" | "nk1 \<noteq> k" "\<not> kcmp nk1 k < 0" by blast
  then show ?case
  proof cases
    case 1
    with TN.prems have "off1 = off" "l1 = l" "c1 = c" "r1 = r" by auto
    with 1 TN.prems n1 assms(5-7) repr_frame [OF n1(6), of m'] repr_frame [OF n1(8), of m'] show ?thesis
      by auto
  next
    case 2
    with TN.prems sub [of l1] have "off \<in> set (offs l1)" "set (offs c) \<subseteq> set (offs l1)" by auto
    moreover from this TN.prems(3,4) have "m' off1 = m off1" "\<forall>x \<in> set (offs c1). m' x = m x"
        "\<forall>x \<in> set (offs r1). m' x = m x"
      by (auto simp: disjoint_iff subset_iff)
    ultimately show ?thesis
      using 2 TN.prems n1 TN.IH(1) [OF n1(6)] repr_frame [OF n1(7), of m'] repr_frame [OF n1(8), of m']
      by auto
  next
    case 3
    with TN.prems sub [of r1] have "off \<in> set (offs r1)" "set (offs c) \<subseteq> set (offs r1)" by auto
    moreover from this TN.prems(3,4) have "m' off1 = m off1" "\<forall>x \<in> set (offs c1). m' x = m x"
        "\<forall>x \<in> set (offs l1). m' x = m x"
      by (auto simp: disjoint_iff subset_iff)
    ultimately show ?thesis
      using 3 TN.prems n1 TN.IH(3) [OF n1(8)] repr_frame [OF n1(7), of m'] repr_frame [OF n1(6), of m']
      by auto
  qed
qed simp

lemma under_sub:
  assumes "under a off n c" "fsub c k = TN off' k' l cc r"
  obtains n' where "under a off' n' cc" "off' \<in> set (offs c)" "set (offs cc) \<subseteq> set (offs c)"
proof -
  have nr: "repr (hd_data a) (TN off' k' l cc r) off'"
    using assms repr_fsub unfolding under_def by blast
  then obtain n' where n': "hd_data a off' = Some (TrieCell n')" "repr (hd_data a) cc (tn_child n')"
    by auto
  moreover have "off' \<in> set (offs c)" "set (offs cc) \<subseteq> set (offs c)"
    using assms(2) root_off_Some_in_offs [of c k off'] offs_child_fsub [of c k] by auto
  moreover have "distinct (offs cc)" "off' \<notin> set (offs cc)" "bst cc"
    using assms distinct_offs_child_fsub [of c k] root_notin_child_fsub [of c k off'] bst_child_fsub [of c k]
    by (auto simp: under_def)
  ultimately show ?thesis
    using assms(1) by (intro that) (auto simp: under_def)
qed

lemma under_set_child:
  assumes u: "under a off n c" and f: "fsub c k = TN off' k' l cc r" and u': "under a off' n' cc"
    and kp: "kept (insert off' (set (offs cc))) a a'" and u'': "under a' off' (n'\<lparr>tn_child := i\<rparr>) cc'"
    and new: "set (offs cc') \<subseteq> set (offs cc) \<union> {hd_currOffset a..<hd_currOffset a'}"
  shows "under a' off n (set_child c k cc')"
    and "set (offs (set_child c k cc')) \<subseteq> set (offs c) \<union> {hd_currOffset a..<hd_currOffset a'}"
proof -
  have in_c: "off' \<in> set (offs c)" "set (offs cc) \<subseteq> set (offs c)"
    using f root_off_Some_in_offs [of c k off'] offs_child_fsub [of c k] by auto
  have less: "\<forall>x \<in> set (offs c). x < hd_currOffset a" "off < hd_currOffset a" "off \<notin> set (offs c)"
    and dc: "distinct (offs c)" and mono: "hd_currOffset a \<le> hd_currOffset a'"
    using u kp by (auto simp: under_def kept_def)
  have "set (offs (set_child c k cc')) \<subseteq> set (offs c) - set (offs cc) \<union> set (offs cc')"
    using offs_set_child [OF dc, of k cc'] f by simp
  with new in_c(2) show sub: "set (offs (set_child c k cc')) \<subseteq> set (offs c) \<union> {hd_currOffset a..<hd_currOffset a'}"
    by blast
  have "distinct (offs (set_child c k cc'))"
    using distinct_offs_set_child [OF dc, of cc' k] f u'' new less by (fastforce simp: under_def)
  moreover have "repr (hd_data a') (set_child c k cc') (tn_child n)"
  proof (rule repr_set_child [OF _ f dc])
    show "repr (hd_data a) c (tn_child n)" using u by (simp add: under_def)
    show "\<forall>x \<in> set (offs c) - insert off' (set (offs cc)). hd_data a' x = hd_data a x"
      using kp less unfolding kept_def by blast
  qed (use u' u'' in \<open>auto simp: under_def\<close>)
  moreover have "hd_data a' off = Some (TrieCell n)"
  proof -
    have "off \<notin> insert off' (set (offs cc))"
      using less(3) in_c by auto
    then have "hd_data a' off = hd_data a off"
      using kp less(2) by (simp add: kept_def)
    then show ?thesis using u by (simp add: under_def)
  qed
  moreover have "\<forall>x \<in> set (offs (set_child c k cc')). x < hd_currOffset a'"
    using sub less(1) mono by (auto dest!: subsetD)
  moreover have "off \<notin> set (offs (set_child c k cc'))"
    using sub less(2,3) by (auto dest!: subsetD)
  ultimately show "under a' off n (set_child c k cc')"
    using u u'' mono by (auto simp: under_def intro: bst_set_child)
qed

text \<open>The outcome of inserting the components \<^verbatim>\<open>ks\<close> below the node at \<^verbatim>\<open>off\<close>.\<close>

definition path_added ::
  "ParamTrieHeader \<Rightarrow> nat \<Rightarrow> ParamTrieNode \<Rightarrow> tst \<Rightarrow> string list \<Rightarrow> bool \<Rightarrow> ParamTrieHeader \<Rightarrow> ptr \<Rightarrow> tst \<Rightarrow> bool" where
  "path_added a off n c ks ok a' p c' =
     ((\<exists>i. under a' off (n\<lparr>tn_child := i\<rparr>) c') \<and>
      kept (insert off (set (offs c))) a a' \<and> grows (hd_currOffset a) c ks c' \<and>
      set (offs c') \<subseteq> set (offs c) \<union> {hd_currOffset a..<hd_currOffset a'} \<and>
      hd_currOffset a' \<le> hd_currOffset a + sum_list (map node_need ks) \<and>
      (p \<noteq> NULL \<longrightarrow> ok \<and> (\<exists>x. p = Ref x \<and> node_at c' ks = Some x)) \<and>
      (ok \<longrightarrow> hd_currOffset a + sum_list (map node_need ks) < hd_dataSize a \<longrightarrow> p \<noteq> NULL))"

lemma path_added_NULL:
  assumes "under a off n c" "ok \<longrightarrow> hd_dataSize a \<le> hd_currOffset a + sum_list (map node_need ks)"
  shows "path_added a off n c ks ok a NULL c"
proof -
  have "\<exists>i. under a off (n\<lparr>tn_child := i\<rparr>) c"
    using assms(1) by (intro exI [of _ "tn_child n"]) simp
  with assms kept_refl show ?thesis
    by (auto simp: path_added_def under_def linorder_not_less)
qed

text \<open>A level step that reaches the node of \<^verbatim>\<open>k\<close>, with the bytes it used.\<close>

definition stepped ::
  "ParamTrieHeader \<Rightarrow> nat \<Rightarrow> ParamTrieNode \<Rightarrow> tst \<Rightarrow> string \<Rightarrow> ParamTrieHeader \<Rightarrow> nat \<Rightarrow> tst \<Rightarrow> bool" where
  "stepped a off n c k a2 x c2 =
     ((\<exists>i. under a2 off (n\<lparr>tn_child := i\<rparr>) c2) \<and> kept (insert off (set (offs c))) a a2 \<and>
      (\<forall>ks. grows (hd_currOffset a) c (k # ks) c2) \<and> root_off (fsub c2 k) = Some x \<and>
      set (offs c2) \<subseteq> set (offs c) \<union> {hd_currOffset a..<hd_currOffset a2} \<and>
      hd_currOffset a2 \<le> hd_currOffset a + node_need k)"

lemma AddTrieNode_step_stepped:
  assumes u: "under a off n c" and k: "length k < 65536"
  obtains (full) "AddTrieNode_step a off k = Some (a, NULL)"
      "hd_dataSize a \<le> hd_currOffset a + node_need k"
  | (ok) a2 x c2 where "AddTrieNode_step a off k = Some (a2, Ref x)" "stepped a off n c k a2 x c2"
  using u k
proof (cases rule: AddTrieNode_step_under)
  case full
  then show ?thesis using that(1) by blast
next
  case there
  then obtain x k' l cc r where f: "fsub c k = TN x k' l cc r"
    by (cases "fsub c k") auto
  have "stepped a off n c k a x c"
  proof -
    have "\<exists>i. under a off (n\<lparr>tn_child := i\<rparr>) c"
      using u by (intro exI [of _ "tn_child n"]) simp
    with u f kept_refl show ?thesis
      by (simp add: stepped_def under_def)
  qed
  with there f show ?thesis using that(2) by simp
next
  case (new a2 i)
  let ?cur = "hd_currOffset a"
  have "?cur < hd_currOffset a2"
    using new(5) PARAM_ALIGN_ge [of "length k + 25"] k by (simp add: node_need_def)
  moreover have "\<forall>x \<in> set (offs c). x < ?cur" using u by (simp add: under_def)
  ultimately have "stepped a off n c k a2 ?cur (ins_sub c k ?cur)"
    using new by (auto simp: stepped_def root_off_fsub_ins_sub offs_ins_sub intro: grows_ins_sub)
  with new(1) show ?thesis by (rule that(2))
qed

lemma path_added_last:
  assumes "stepped a off n c k a2 x c2"
  shows "path_added a off n c [k] True a2 (Ref x) c2"
proof -
  have "grows (hd_currOffset a) c [k] c2" "node_at c2 [k] = Some x"
    "hd_currOffset a2 \<le> hd_currOffset a + sum_list (map node_need [k])"
    using assms by (simp_all add: stepped_def)
  with assms show ?thesis
    unfolding stepped_def path_added_def by blast
qed

lemma path_added_Cons:
  assumes st: "stepped a off n c k a2 x c2" and f: "fsub c2 k = TN x k' l cc r"
    and ux: "under a2 x n' cc" and rest: "path_added a2 x n' cc ks ok a' p cc'"
  shows "path_added a off n c (k # ks) ok a' p (set_child c2 k cc')"
proof -
  obtain i where u2: "under a2 off (n\<lparr>tn_child := i\<rparr>) c2" using st by (auto simp: stepped_def)
  obtain j where uj: "under a' x (n'\<lparr>tn_child := j\<rparr>) cc'" using rest by (auto simp: path_added_def)
  have kp: "kept (insert x (set (offs cc))) a2 a'" "kept (insert off (set (offs c))) a a2"
    and sub: "set (offs cc') \<subseteq> set (offs cc) \<union> {hd_currOffset a2..<hd_currOffset a'}"
      "set (offs c2) \<subseteq> set (offs c) \<union> {hd_currOffset a..<hd_currOffset a2}"
    using rest st by (auto simp: path_added_def stepped_def)
  note usc = under_set_child [OF u2 f ux kp(1) uj sub(1)]
  have in_c2: "x \<in> set (offs c2)" "set (offs cc) \<subseteq> set (offs c2)"
    using f root_off_Some_in_offs [of c2 k x] offs_child_fsub [of c2 k] by auto
  have mono: "hd_currOffset a \<le> hd_currOffset a2" "hd_currOffset a2 \<le> hd_currOffset a'"
      "hd_dataSize a2 = hd_dataSize a"
    using kp by (auto simp: kept_def)
  have "kept (insert off (set (offs c))) a a'"
    using in_c2 sub(2) by (intro kept_mono [OF kept_trans [OF kp(2,1)]]) auto
  moreover have "grows (hd_currOffset a) c (k # ks) (set_child c2 k cc')"
  proof (rule grows_trans)
    show "grows (hd_currOffset a) c (k # ks) c2" using st by (simp add: stepped_def)
    have "grows (hd_currOffset a) cc ks cc'"
      using rest mono(1) grows_mono by (auto simp: path_added_def)
    then show "grows (hd_currOffset a) c2 (k # ks) (set_child c2 k cc')"
      using f by (intro grows_set_child) auto
  qed
  moreover have "set (offs (set_child c2 k cc')) \<subseteq> set (offs c) \<union> {hd_currOffset a..<hd_currOffset a'}"
  proof
    fix y assume "y \<in> set (offs (set_child c2 k cc'))"
    then consider "y \<in> set (offs c2)" | "hd_currOffset a2 \<le> y" "y < hd_currOffset a'"
      using usc(2) by auto
    then show "y \<in> set (offs c) \<union> {hd_currOffset a..<hd_currOffset a'}"
      using sub(2) mono(1,2) by cases (auto dest!: subsetD)
  qed
  moreover have "node_at (set_child c2 k cc') (k # ks) = Some y" if "node_at cc' ks = Some y" for y
    using that f by (cases "ks = []") (auto simp: node_at_set_child)
  moreover have "p \<noteq> NULL" if "ok" "hd_currOffset a + sum_list (map node_need (k # ks)) < hd_dataSize a"
    using rest that st mono by (auto simp: path_added_def stepped_def)
  moreover have "p \<noteq> NULL \<longrightarrow> ok \<and> (\<exists>y. p = Ref y \<and> node_at cc' ks = Some y)"
    using rest by (simp add: path_added_def)
  moreover have "hd_currOffset a' \<le> hd_currOffset a + sum_list (map node_need (k # ks))"
    using rest st by (simp add: path_added_def stepped_def)
  ultimately show ?thesis
    unfolding path_added_def using usc(1) by blast
qed

lemma AddTrieNode_loop_under:
  assumes "under a off n c" "\<forall>k \<in> set (fst (key_split key)). length k < 65536"
  shows "\<exists>a' p c'. AddTrieNode_loop a off key = Some (a', p) \<and>
    path_added a off n c (fst (key_split key)) (snd (key_split key)) a' p c'"
  using assms
proof (induction key arbitrary: a off n c rule: key_split.induct)
  case (1 key)
  obtain sub subKey where g: "GetNextKey key = (sub, subKey)" by fastforce
  have ks: "key_split key = (if sub = [] then ([], False) else case subKey of None \<Rightarrow> ([sub], True)
      | Some r \<Rightarrow> if r = ''.'' then ([sub], True)
                  else (case key_split (tl r) of (ks, ok) \<Rightarrow> (sub # ks, ok)))"
    by (subst key_split.simps) (simp add: g)
  have lp: "AddTrieNode_loop a off key =
     (if sub = [] then Some (a, NULL)
      else do {
        (a', next) \<leftarrow> AddTrieNode_step a off sub;
        case next of NULL \<Rightarrow> Some (a', NULL)
        | Ref x \<Rightarrow> (case subKey of None \<Rightarrow> Some (a', Ref x)
             | Some r \<Rightarrow> if r = ''.'' then Some (a', Ref x) else AddTrieNode_loop a' x (tl r))
      })"
    by (subst AddTrieNode_loop.simps) (simp add: g)
  show ?case
  proof (cases "sub = []")
    case True
    with lp ks path_added_NULL [OF "1.prems"(1), of False] show ?thesis by auto
  next
    case False
    have len: "length sub < 65536"
      using "1.prems"(2) ks False by (auto split: option.splits if_splits prod.splits)
    from "1.prems"(1) len show ?thesis
    proof (cases rule: AddTrieNode_step_stepped)
      case full
      have "hd_dataSize a \<le> hd_currOffset a + sum_list (map node_need (fst (key_split key)))"
        using full(2) ks False by (auto split: option.splits prod.splits)
      with full lp False path_added_NULL [OF "1.prems"(1)] show ?thesis by auto
    next
      case (ok a2 x c2)
      obtain k' l cc r where f: "fsub c2 sub = TN x k' l cc r"
        using ok(2) by (cases "fsub c2 sub") (auto simp: stepped_def)
      obtain i where "under a2 off (n\<lparr>tn_child := i\<rparr>) c2"
        using ok(2) by (auto simp: stepped_def)
      from this f obtain n' where ux: "under a2 x n' cc"
        by (rule under_sub)
      show ?thesis
      proof (cases "\<exists>rest. subKey = Some rest \<and> rest \<noteq> ''.''")
        case True
        then obtain rest where rest: "subKey = Some rest" "rest \<noteq> ''.''" by blast
        have kk: "fst (key_split key) = sub # fst (key_split (tl rest))" "snd (key_split key) = snd (key_split (tl rest))"
          using ks False rest by (auto split: prod.splits)
        obtain a' p cc' where ih: "AddTrieNode_loop a2 x (tl rest) = Some (a', p)"
            "path_added a2 x n' cc (fst (key_split (tl rest))) (snd (key_split (tl rest))) a' p cc'"
          using "1.IH" [OF g [symmetric] False rest ux] "1.prems"(2) kk by auto
        have "AddTrieNode_loop a off key = Some (a', p)"
          using ih(1) lp ok(1) rest False by simp
        with path_added_Cons [OF ok(2) f ux ih(2)] kk show ?thesis by auto
      next
        case single: False
        then have "key_split key = ([sub], True)" "AddTrieNode_loop a off key = Some (a2, Ref x)"
          using ks lp False ok(1) by (auto split: option.splits)
        with path_added_last [OF ok(2)] show ?thesis by auto
      qed
    qed
  qed
qed

end
