(* ===== verification/Param_Keys.thy ===== *)
theory Param_Keys
  imports Param_Trie_Refine
begin

text \<open>
  Keys as component paths: how the dotted name is split, which names have the same path, and which
  node of the represented trie a lookup of a key reaches.
\<close>

subsection \<open>Keys and component paths\<close>

fun join :: "string list \<Rightarrow> string" where
  "join [] = []"
| "join [k] = k"
| "join (k # ks) = k @ ''.'' @ join ks"

definition plen :: "string list \<Rightarrow> nat" where
  "plen p = sum_list (map (\<lambda>k. length k + 1) p)"

lemma plen_simps [simp]: "plen [] = 0" "plen (k # ks) = length k + 1 + plen ks"
  "plen (p @ q) = plen p + plen q"
  by (simp_all add: plen_def)

lemma length_join: "ks \<noteq> [] \<Longrightarrow> Suc (length (join ks)) = plen ks"
  by (induction ks rule: join.induct) auto

lemma GetNextKey_cases:
  obtains (last) "CHR ''.'' \<notin> set key" "GetNextKey key = (key, None)"
  | (dot) sub r where "key = sub @ ''.'' @ r" "CHR ''.'' \<notin> set sub" "GetNextKey key = (sub, Some (''.'' @ r))"
proof (cases "strchr key (CHR ''.'')")
  case None
  then have "CHR ''.'' \<notin> set key"
    by (simp add: strchr_None_iff)
  with None show ?thesis
    by (intro last) (simp_all add: GetNextKey_def)
next
  case (Some t)
  then have t: "t = dropWhile (\<lambda>x. x \<noteq> CHR ''.'') key" "t \<noteq> []" "hd t = CHR ''.''"
    using strchr_Some_dropWhile by auto
  let ?s = "takeWhile (\<lambda>x. x \<noteq> CHR ''.'') key"
  have key: "key = ?s @ t" using t(1) by simp
  then have "take (length key - length t) key = ?s"
    by (metis add_diff_cancel_right' append_eq_conv_conj length_append)
  moreover have "t = ''.'' @ tl t" using t(2,3) by (cases t) auto
  moreover have "CHR ''.'' \<notin> set ?s" by (auto dest: set_takeWhileD)
  ultimately show ?thesis
    using dot [of ?s "tl t"] key Some by (simp add: GetNextKey_def)
qed

lemma key_split_last: "CHR ''.'' \<notin> set key \<Longrightarrow> key_split key = (if key = [] then ([], False) else ([key], True))"
  by (subst key_split.simps, rule GetNextKey_cases [of key]) auto

lemma strchr_append: "c \<notin> set sub \<Longrightarrow> strchr (sub @ c # r) c = Some (c # r)"
  by (induction sub) auto

lemma GetNextKey_dot: "CHR ''.'' \<notin> set sub \<Longrightarrow> GetNextKey (sub @ ''.'' @ r) = (sub, Some (''.'' @ r))"
  by (simp add: GetNextKey_def strchr_append)

lemma key_split_dot:
  "CHR ''.'' \<notin> set sub \<Longrightarrow> key_split (sub @ ''.'' @ r) =
     (if sub = [] then ([], False) else if r = [] then ([sub], True)
      else (sub # fst (key_split r), snd (key_split r)))"
  by (subst key_split.simps, subst GetNextKey_dot) (simp_all split: prod.split)

text \<open>Keys are read component by component.\<close>

lemma key_cases:
  obtains (last) "CHR ''.'' \<notin> set key"
  | (dot) sub r where "key = sub @ ''.'' @ r" "CHR ''.'' \<notin> set sub" "length r < length key"
  by (rule GetNextKey_cases [of key]) auto

lemma key_split_comps:
  "k \<in> set (fst (key_split key)) \<Longrightarrow> k \<noteq> [] \<and> length k \<le> length key \<and> CHR ''.'' \<notin> set k"
proof (induction key arbitrary: k rule: length_induct)
  case (1 key)
  show ?case
  proof (cases rule: key_cases [of key])
    case last
    with 1 show ?thesis by (auto simp: key_split_last split: if_splits)
  next
    case (dot sub r)
    with "1.prems" consider "sub \<noteq> []" "k = sub" | "k \<in> set (fst (key_split r))"
      unfolding dot(1) key_split_dot [OF dot(2)] by (auto split: if_splits)
    then show ?thesis
    proof cases
      case 2
      with "1.IH" dot(3) show ?thesis by fastforce
    qed (use dot in auto)
  qed
qed

lemma key_split_join:
  "key_split key = (ks, True) \<Longrightarrow> ks \<noteq> [] \<and> (key = join ks \<or> key = join ks @ ''.'')"
proof (induction key arbitrary: ks rule: length_induct)
  case (1 key)
  show ?case
  proof (cases rule: key_cases [of key])
    case last
    with 1 show ?thesis by (auto simp: key_split_last split: if_splits)
  next
    case (dot sub r)
    with "1.prems" consider "r = []" "ks = [sub]" | ks' where "key_split r = (ks', True)" "ks = sub # ks'"
      unfolding dot(1) key_split_dot [OF dot(2)] by (cases "key_split r") (auto split: if_splits)
    then show ?thesis
    proof cases
      case 2
      with "1.IH" dot(3) have "ks' \<noteq> []" "r = join ks' \<or> r = join ks' @ ''.''" by auto
      with 2 dot(1) show ?thesis by (cases ks') auto
    qed (use dot in auto)
  qed
qed

lemma key_split_length:
  assumes "key_split key = (ks, True)"
  shows "length key = plen ks - 1 \<or> length key = plen ks"
  using key_split_join [OF assms] length_join [of ks] by auto

lemma key_split_inj:
  assumes "key_split key = (ks, True)" "key_split key' = (ks, True)" "length key = length key'"
  shows "key = key'"
  using key_split_join [OF assms(1)] key_split_join [OF assms(2)] assms(3) by auto

subsection \<open>Which node a lookup reaches\<close>

lemma tpath_snoc:
  "tpath c (q @ [k]) = fsub (if q = [] then c else child_of (tpath c q)) k"
proof (induction q arbitrary: c)
  case (Cons x q)
  show ?case
  proof (cases q)
    case Nil
    then show ?thesis by simp
  next
    case (Cons y ys)
    with Cons.IH [of "child_of (fsub c x)"] show ?thesis by simp
  qed
qed simp

lemma bst_fsub: "bst t \<Longrightarrow> bst (fsub t k)"
  by (induction t) auto

lemma bst_tpath: "bst c \<Longrightarrow> bst (tpath c q)"
  by (induction c q rule: tpath.induct) (auto simp: bst_fsub bst_child_fsub)

lemma bst_child_of: "bst t \<Longrightarrow> bst (child_of t)"
  by (cases t) auto

lemma fsub_fsub:
  assumes "bst t" "fsub (fsub t k0) k \<noteq> Tip"
  shows "fsub t k = fsub (fsub t k0) k"
  using assms
proof (induction t)
  case (TN off nk l c r)
  have sub: "k \<in> sib_keys t'" if "fsub (fsub t' k0) k \<noteq> Tip" "bst t'" "fsub t' k = fsub (fsub t' k0) k" for t'
    using that fsub_Tip_iff by metis
  consider "nk = k0" | "nk \<noteq> k0" "kcmp nk k0 < 0" | "nk \<noteq> k0" "\<not> kcmp nk k0 < 0" by blast
  then show ?case
  proof cases
    case 2
    with TN have IH: "fsub l k = fsub (fsub l k0) k" "fsub (fsub l k0) k \<noteq> Tip" by auto
    with sub [of l] TN.prems have "k \<in> sib_keys l" by simp
    with TN.prems have "kcmp nk k < 0" by simp
    with IH 2 show ?thesis by auto
  next
    case 3
    with TN have IH: "fsub r k = fsub (fsub r k0) k" "fsub (fsub r k0) k \<noteq> Tip" by auto
    with sub [of r] TN.prems have "k \<in> sib_keys r" by simp
    with TN.prems have "kcmp nk k > 0" by simp
    with IH 3 show ?thesis by auto
  qed simp
qed simp

lemma gfind_Tip_root: "gfind L (TN 0 k0 Tip Tip Tip) ks lbl = (t, l) \<Longrightarrow> t = Tip \<or> t = TN 0 k0 Tip Tip Tip"
  by (induction ks arbitrary: lbl) (auto split: if_splits tst.splits)

text \<open>A lookup that reaches a node reaches the node of the key's own path, or, through a childless
  node on the way, the node of a path that is at least two characters shorter.\<close>

lemma gfind_reaches:
  assumes "bst c" "\<forall>k \<in> set (q @ ks). k \<noteq> []" "tpath c q \<noteq> Tip"
    and "gfind L (tpath c q) ks lbl = (t, l)" "t \<noteq> Tip"
  shows "\<exists>q'. tpath c q' = t \<and> (q' = q @ ks \<or> plen q' + 2 \<le> plen (q @ ks))"
  using assms(2-)
proof (induction ks arbitrary: q lbl)
  case Nil
  then show ?case by auto
next
  case (Cons k ks)
  have q: "q \<noteq> []" using Cons.prems(2) by auto
  let ?t = "tpath c q"
  obtain t1 where t1: "fsub (level ?t) k = t1" "t1 \<noteq> Tip"
    using Cons.prems(3,4) by (cases "fsub (level ?t) k") auto
  have g: "\<exists>lbl'. gfind L t1 ks lbl' = (t, l)"
    using Cons.prems(3) t1 by (cases t1) auto
  show ?case
  proof (cases "child_of ?t = Tip")
    case False
    then have "level ?t = child_of ?t" by (cases ?t) auto
    then have "tpath c (q @ [k]) = t1"
      using t1 q by (simp add: tpath_snoc)
    with g Cons.IH [of "q @ [k]"] Cons.prems t1 show ?thesis by auto
  next
    case True
    let ?lvl = "if butlast q = [] then c else child_of (tpath c (butlast q))"
    have "?t = fsub ?lvl (last q)"
      using tpath_snoc [of c "butlast q" "last q"] q by simp
    moreover have "level ?t = ?t" using True Cons.prems(2) by (cases ?t) auto
    moreover have "bst ?lvl" using assms(1) by (auto intro: bst_tpath bst_child_of)
    ultimately have "fsub ?lvl k = t1"
      using fsub_fsub [of ?lvl "last q" k] t1 by metis
    then have t1': "tpath c (butlast q @ [k]) = t1" by (simp add: tpath_snoc)
    have ne: "\<forall>k \<in> set ((butlast q @ [k]) @ ks). k \<noteq> []"
      using Cons.prems(1) by (auto dest: in_set_butlastD)
    obtain q' where q': "tpath c q' = t" "q' = (butlast q @ [k]) @ ks \<or> plen q' + 2 \<le> plen ((butlast q @ [k]) @ ks)"
      using g Cons.IH [OF ne] t1' t1(2) Cons.prems(4) by metis
    have "plen q = plen (butlast q) + length (last q) + 1"
      using arg_cong [OF append_butlast_last_id [OF q], of plen] by simp
    moreover have "last q \<noteq> []" using Cons.prems(1) q by simp
    then have "length (last q) \<ge> 1" by (cases "last q") auto
    ultimately have "plen q' + 2 \<le> plen (q @ k # ks)"
      using q'(2) by auto
    with q'(1) show ?thesis by blast
  qed
qed

lemma gfind_root_reaches:
  assumes "bst c" "\<forall>k \<in> set ks. k \<noteq> []" "ks \<noteq> []"
    and "gfind L (TN 0 ''#'' Tip c Tip) ks lbl = (t, l)" "t \<noteq> Tip"
  shows "t = TN 0 ''#'' Tip c Tip \<or>
    (\<exists>q'. tpath c q' = t \<and> (q' = ks \<or> plen q' + 2 \<le> plen ks))"
proof (cases "c = Tip")
  case True
  with gfind_Tip_root [of L "''#''" ks lbl t l] assms(4,5) show ?thesis by auto
next
  case False
  obtain k ks' where ks: "ks = k # ks'" using assms(3) by (cases ks) auto
  obtain t1 where t1: "fsub c k = t1" "t1 \<noteq> Tip"
    using assms(4,5) ks False by (cases "fsub c k") auto
  have "\<exists>lbl'. gfind L (tpath c [k]) ks' lbl' = (t, l)"
    using assms(4) ks False t1 by (cases t1) auto
  with gfind_reaches [OF assms(1), of "[k]" ks' L _ t l] assms(2,5) ks t1 show ?thesis by auto
qed

end
