(* ===== verification/Param_Area.thy ===== *)
theory Param_Area
  imports Param_Keys
begin

text \<open>
  The typed store of an area: objects lie apart from each other and below the allocation mark,
  and indexes point to objects of the right kind. A locale collects what an insertion into the
  trie preserves.
\<close>

subsection \<open>Objects lie apart\<close>

text \<open>The bytes that an object may use. For a parameter node this is the slot for its value: the
  long one for a value above \<^verbatim>\<open>PARAM_VALUE_LEN_MAX\<close>, the slot of its type otherwise.\<close>

definition value_slot :: "nat \<Rightarrow> nat \<Rightarrow> nat" where
  "value_slot type valueLen =
     (if valueLen > PARAM_VALUE_LEN_MAX then PARAM_CONST_VALUE_LEN_MAX else GetParamMaxLen type)"

fun cell_room :: "cell \<Rightarrow> nat" where
  "cell_room (TrieCell n) = sizeof_ParamTrieNode + tn_length n + 1"
| "cell_room (ParamCell e) =
     sizeof_ParamNode + pn_keyLength e + 1 + value_slot (pn_type e) (pn_valueLength e) + 1"
| "cell_room (SecCell s) = sizeof_ParamSecurityNode + 4 * length (sn_members s)"

text \<open>The bytes that an object does use.\<close>

fun cell_bytes :: "cell \<Rightarrow> nat" where
  "cell_bytes (TrieCell n) = sizeof_ParamTrieNode + tn_length n + 1"
| "cell_bytes (ParamCell e) = sizeof_ParamNode + length (pn_data e) + 1"
| "cell_bytes (SecCell s) = sizeof_ParamSecurityNode + 4 * length (sn_members s)"

fun cell_typed :: "(nat \<Rightarrow> cell option) \<Rightarrow> cell \<Rightarrow> bool" where
  "cell_typed m (TrieCell n) =
     ((tn_dataIndex n \<noteq> 0 \<longrightarrow> (\<exists>e. m (tn_dataIndex n) = Some (ParamCell e))) \<and>
      (tn_labelIndex n \<noteq> 0 \<longrightarrow> (\<exists>s. m (tn_labelIndex n) = Some (SecCell s))))"
| "cell_typed m (ParamCell e) =
     (length (pn_data e) = pn_keyLength e + 1 + pn_valueLength e \<and>
      pn_valueLength e \<le> value_slot (pn_type e) (pn_valueLength e))"
| "cell_typed m (SecCell s) = True"

definition store_ok :: "ParamTrieHeader \<Rightarrow> bool" where
  "store_ok a =
     (PARAM_IS_ALIGNED (hd_currOffset a) \<and>
      (\<forall>off c. hd_data a off = Some c \<longrightarrow>
         PARAM_IS_ALIGNED off \<and> off + cell_room c \<le> hd_currOffset a \<and> cell_typed (hd_data a) c \<and>
         (\<forall>off' c'. hd_data a off' = Some c' \<longrightarrow> off < off' \<longrightarrow> off + cell_room c \<le> off')))"

definition objects_apart :: "ParamTrieHeader \<Rightarrow> bool" where
  "objects_apart a =
     (\<forall>off c. hd_data a off = Some c \<longrightarrow>
        off + cell_bytes c \<le> hd_currOffset a \<and>
        (\<forall>off' c'. hd_data a off' = Some c' \<longrightarrow> off < off' \<longrightarrow> off + cell_bytes c \<le> off'))"

lemma cell_bytes_le_room: "cell_typed m c \<Longrightarrow> cell_bytes c \<le> cell_room c"
  by (cases c) auto

lemma store_ok_objects_apart:
  assumes "store_ok a"
  shows "objects_apart a"
proof -
  have "cell_bytes c \<le> cell_room c" if "hd_data a off = Some c" for off c
    using assms that cell_bytes_le_room unfolding store_ok_def by blast
  with assms show ?thesis
    unfolding store_ok_def objects_apart_def by (meson add_le_mono le_refl le_trans)
qed

lemma cell_room_pos: "0 < cell_room c"
  by (cases c) auto

lemma store_ok_below: "store_ok a \<Longrightarrow> hd_data a off = Some c \<Longrightarrow> off < hd_currOffset a"
  using cell_room_pos [of c] unfolding store_ok_def by fastforce

lemma store_ok_typed: "store_ok a \<Longrightarrow> hd_data a off = Some c \<Longrightarrow> cell_typed (hd_data a) c"
  unfolding store_ok_def by blast

text \<open>A new object at the allocation mark.\<close>

lemma store_ok_alloc:
  assumes "store_ok a" "cell_typed ((hd_data a)(hd_currOffset a \<mapsto> c)) c"
    and "PARAM_IS_ALIGNED len" "cell_room c \<le> len"
    and "hd_data a' = (hd_data a)(hd_currOffset a \<mapsto> c)" "hd_currOffset a' = hd_currOffset a + len"
  shows "store_ok a'"
proof -
  let ?cur = "hd_currOffset a"
  have fresh: "hd_data a ?cur = None"
    using store_ok_below [OF assms(1)] by (cases "hd_data a ?cur") auto
  have mono: "cell_typed (hd_data a') d" if "cell_typed (hd_data a) d" for d
    using that fresh by (cases d) (auto simp: assms(5))
  show ?thesis
    unfolding store_ok_def
  proof (intro conjI allI impI)
    show "PARAM_IS_ALIGNED (hd_currOffset a')"
      using assms by (auto simp: store_ok_def intro: PARAM_IS_ALIGNED_add)
    fix off d assume d: "hd_data a' off = Some d"
    consider "off = ?cur" "d = c" | "off \<noteq> ?cur" "hd_data a off = Some d"
      using d assms(5) by (auto split: if_splits)
    note cases = this
    show "PARAM_IS_ALIGNED off"
      using cases assms(1) by cases (auto simp: store_ok_def)
    show "off + cell_room d \<le> hd_currOffset a'"
      using cases assms(1,4,6) by cases (auto simp: store_ok_def intro: trans_le_add1)
    show "cell_typed (hd_data a') d"
      using cases assms(1,2,5) mono by cases (auto simp: store_ok_def)
    fix off' d' assume d': "hd_data a' off' = Some d'" "off < off'"
    show "off + cell_room d \<le> off'"
      using cases
    proof cases
      case 1
      with d' assms(5) store_ok_below [OF assms(1), of off' d'] show ?thesis by (auto split: if_splits)
    next
      case 2
      with d' assms(1,5) show ?thesis
        by (cases "off' = ?cur") (auto simp: store_ok_def)
    qed
  qed
qed

text \<open>An object is overwritten by one of the same kind that needs no more room.\<close>

definition same_kind :: "cell \<Rightarrow> cell \<Rightarrow> bool" where
  "same_kind c c' =
     (case (c, c') of (TrieCell _, TrieCell _) \<Rightarrow> True | (ParamCell _, ParamCell _) \<Rightarrow> True
      | (SecCell _, SecCell _) \<Rightarrow> True | _ \<Rightarrow> False)"

lemma store_ok_put:
  assumes "store_ok a" "hd_data a off = Some c" "same_kind c c'" "cell_room c' \<le> cell_room c"
    and "cell_typed (hd_data a) c'"
  shows "store_ok (put_cell a off c')"
proof -
  let ?a' = "put_cell a off c'"
  have mono: "cell_typed (hd_data ?a') d" if "cell_typed (hd_data a) d" for d
    using that assms(2,3) by (cases d) (auto simp: put_cell_def same_kind_def split: cell.splits)
  show ?thesis
    unfolding store_ok_def
  proof (intro conjI allI impI)
    show "PARAM_IS_ALIGNED (hd_currOffset ?a')"
      using assms(1) by (simp add: store_ok_def put_cell_def)
    fix x d assume d: "hd_data ?a' x = Some d"
    obtain d0 where d0: "hd_data a x = Some d0" "cell_room d \<le> cell_room d0" "cell_typed (hd_data a) d"
      using d assms by (cases "x = off") (auto simp: put_cell_def store_ok_def)
    show "PARAM_IS_ALIGNED x" using d0(1) assms(1) by (simp add: store_ok_def)
    show "x + cell_room d \<le> hd_currOffset ?a'"
      using d0(1,2) assms(1) by (fastforce simp: store_ok_def put_cell_def)
    show "cell_typed (hd_data ?a') d" using mono d0(3) by simp
    fix y e assume e: "hd_data ?a' y = Some e" "x < y"
    then obtain e0 where "hd_data a y = Some e0"
      using assms(2) by (cases "y = off") (auto simp: put_cell_def)
    with d0 e(2) assms(1) show "x + cell_room d \<le> y"
      unfolding store_ok_def by (meson add_le_mono le_refl le_trans)
  qed
qed

subsection \<open>What insertion into the trie preserves\<close>

text \<open>A change of links: the node at some offset is overwritten by one with the same payload.\<close>

definition relinks :: "(ParamTrieHeader \<Rightarrow> nat \<Rightarrow> ParamTrieHeader exec) \<Rightarrow> bool" where
  "relinks save = (\<forall>a1 i a2. save a1 i = Some a2 \<longrightarrow>
     (\<exists>off n n'. trie_at a1 off = Some n \<and> same_payload n n' \<and> a2 = put_cell a1 off (TrieCell n')))"

lemma relinks_upd_trie: "(\<And>n i. same_payload n (f i n)) \<Longrightarrow> relinks (\<lambda>a i. upd_trie a off (f i))"
  unfolding relinks_def upd_trie_def by (fastforce split: bind_splits)

lemma relinks_SaveIndex:
  "relinks (\<lambda>a i. SaveIndex_left a off i)" "relinks (\<lambda>a i. SaveIndex_right a off i)"
  "relinks (\<lambda>a i. SaveIndex_child a off i)"
  by (simp_all add: SaveIndex_left_def SaveIndex_right_def SaveIndex_child_def relinks_upd_trie)

text \<open>A property of areas that survives the allocation of a trie node and a change of links
  survives the insertion of keys.\<close>

locale trie_invariant =
  fixes P :: "ParamTrieHeader \<Rightarrow> bool"
  assumes alloc: "P a \<Longrightarrow> length k < 65536 \<Longrightarrow> AllocateParamTrieNode a k = (a', off) \<Longrightarrow> P a'"
    and relink: "P a \<Longrightarrow> trie_at a off = Some n \<Longrightarrow> same_payload n n' \<Longrightarrow> P (put_cell a off (TrieCell n'))"
begin

lemma link_new:
  assumes "P a" "length k < 65536" "relinks save" "link_new a k save = Some (a', p)"
  shows "P a'"
proof -
  obtain a1 off where al: "AllocateParamTrieNode a k = (a1, off)" by fastforce
  then have "P a1" using alloc assms(1,2) by blast
  moreover have "a' = a1 \<or> save a1 off = Some a'"
    using assms(4) al by (auto simp: link_new_def split: if_splits bind_splits)
  ultimately show ?thesis
    using assms(3) relink unfolding relinks_def by blast
qed

lemma AddToSubTrie:
  assumes "AddToSubTrie a p k = Some r"
  shows "P a \<longrightarrow> length k < 65536 \<longrightarrow> P (fst r)"
  using assms
  by (rule AddToSubTrie.raw_induct [rotated, where P = "\<lambda>a p k r. P a \<longrightarrow> length k < 65536 \<longrightarrow> P (fst r)"])
     (auto simp: Let_def split: ptr.splits if_splits bind_splits
       dest: link_new [OF _ _ relinks_SaveIndex(1), unfolded link_new_def Let_def]
         link_new [OF _ _ relinks_SaveIndex(2), unfolded link_new_def Let_def])

lemma AddTrieNode_step:
  assumes "AddTrieNode_step a off k = Some (a', p)" "P a" "length k < 65536"
  shows "P a'"
proof -
  obtain n where n: "trie_at a off = Some n"
    using assms(1) by (cases "trie_at a off") (auto simp: AddTrieNode_step_def)
  show ?thesis
  proof (cases "tn_child n = 0")
    case True
    with assms n show ?thesis
      by (auto simp: AddTrieNode_step_eq dest: link_new [OF _ _ relinks_SaveIndex(3)])
  next
    case False
    with assms n AddToSubTrie show ?thesis
      by (fastforce simp: AddTrieNode_step_eq)
  qed
qed

lemma AddTrieNode_loop:
  "AddTrieNode_loop a off key = Some (a', p) \<Longrightarrow> P a \<Longrightarrow>
     \<forall>k \<in> set (fst (key_split key)). length k < 65536 \<Longrightarrow> P a'"
proof (induction key arbitrary: a off a' p rule: length_induct)
  case (1 key)
  obtain sub subKey where g: "GetNextKey key = (sub, subKey)" by fastforce
  show ?case
  proof (cases "sub = []")
    case True
    with 1 g show ?thesis by (auto simp: AddTrieNode_loop.simps [of a])
  next
    case False
    have ks: "sub \<in> set (fst (key_split key))"
      by (subst key_split.simps) (use g False in \<open>auto split: option.splits prod.splits\<close>)
    obtain a1 q where st: "AddTrieNode_step a off sub = Some (a1, q)"
      using "1.prems"(1) False g by (cases "AddTrieNode_step a off sub") (auto simp: AddTrieNode_loop.simps [of a])
    have P1: "P a1" using AddTrieNode_step [OF st] "1.prems" ks by blast
    show ?thesis
    proof (cases "a' = a1")
      case False
      then obtain x r where r: "subKey = Some r" "r \<noteq> ''.''" "AddTrieNode_loop a1 x (tl r) = Some (a', p)"
        using "1.prems"(1) \<open>sub \<noteq> []\<close> g st
        by (auto simp: AddTrieNode_loop.simps [of a] split: ptr.splits option.splits if_splits)
      have "fst (key_split key) = sub # fst (key_split (tl r))"
        by (subst key_split.simps) (use g \<open>sub \<noteq> []\<close> r in \<open>auto split: prod.splits\<close>)
      moreover have "length (tl r) < length key"
        using GetNextKey_length g r(1) by simp
      ultimately show ?thesis
        using "1.IH" [rule_format, OF _ r(3) P1] "1.prems"(3) by simp
    qed (use P1 in simp)
  qed
qed

end

lemma AddTrieNode_loop_small:
  "length key < 65536 \<Longrightarrow> \<forall>k \<in> set (fst (key_split key)). length k < 65536"
  by (meson key_split_comps le_less_trans)

text \<open>The store invariant is one such property, and so is that entries and labels stay as they are.\<close>

definition area_ok :: "ParamTrieHeader \<Rightarrow> bool" where
  "area_ok a = (area_bounds a \<and> store_ok a)"

lemma area_ok_Allocate:
  assumes "area_ok a" "length k < 65536" "AllocateParamTrieNode a k = (a', off)"
  shows "area_ok a'"
proof -
  have bd: "area_bounds a" "store_ok a" using assms(1) by (auto simp: area_ok_def)
  show ?thesis
    using bd(1) assms(2)
  proof (cases rule: Allocate_cases)
    case full
    with assms show ?thesis by simp
  next
    case (new a1)
    then have a1: "a1 = a'" using assms(3) by simp
    have len: "length k + 25 + 3 < 4294967296" using assms(2) by simp
    have "hd_currOffset a' = hd_currOffset a + node_need k"
      using new(1) a1 Allocate_currOffset bd(1) assms(2) by blast
    moreover have "cell_room (TrieCell (fresh_trie k)) \<le> node_need k"
      using PARAM_ALIGN_ge [OF len] assms(2) by (simp add: fresh_trie_def node_need_def)
    ultimately have "store_ok a'"
      using new(2) a1 by (intro store_ok_alloc [OF bd(2), of "TrieCell (fresh_trie k)" "node_need k"])
        (auto simp: fresh_trie_def node_need_def)
    with new(4) a1 show ?thesis by (simp add: area_ok_def)
  qed
qed

lemma area_ok_relink:
  assumes "area_ok a" "trie_at a off = Some n" "same_payload n n'"
  shows "area_ok (put_cell a off (TrieCell n'))"
proof -
  have n: "hd_data a off = Some (TrieCell n)"
    using assms(2) by (auto simp: trie_at_def split: option.splits cell.splits)
  then have "cell_typed (hd_data a) (TrieCell n)"
    using assms(1) store_ok_typed unfolding area_ok_def by blast
  with n assms(1,3) have "store_ok (put_cell a off (TrieCell n'))"
    by (intro store_ok_put) (auto simp: area_ok_def same_kind_def same_payload_def)
  with assms(1) show ?thesis
    by (simp add: area_ok_def area_bounds_def put_cell_def)
qed

interpretation store: trie_invariant area_ok
  by unfold_locales (fact area_ok_Allocate, fact area_ok_relink)

end
