(* ===== verification/Param_Map.thy ===== *)
theory Param_Map
  imports Param_Area
begin

text \<open>
  The invariant of an area and its abstract value: the entry below a node carries a name whose path
  leads to that node, and the area as a whole is a map from parameter names to entries. Lookup is
  the lookup of that map, and inserting trie nodes does not change it.
\<close>

lemma trie_at_iff [heap_simps]: "trie_at a off = Some n \<longleftrightarrow> hd_data a off = Some (TrieCell n)"
  by (auto simp: trie_at_def split: option.splits cell.splits)

lemma param_at_iff [heap_simps]: "param_at a off = Some e \<longleftrightarrow> hd_data a off = Some (ParamCell e)"
  by (auto simp: param_at_def split: option.splits cell.splits)

lemma sec_at_iff [heap_simps]: "sec_at a off = Some s \<longleftrightarrow> hd_data a off = Some (SecCell s)"
  by (auto simp: sec_at_def split: option.splits cell.splits)

subsection \<open>Insertion and what it leaves alone\<close>

fun is_trie :: "cell \<Rightarrow> bool" where
  "is_trie (TrieCell n) = True"
| "is_trie _ = False"

text \<open>Compared with \<^verbatim>\<open>a0\<close>, the area \<^verbatim>\<open>a\<close> has further trie nodes without data and label.\<close>

definition keeps :: "ParamTrieHeader \<Rightarrow> ParamTrieHeader \<Rightarrow> bool" where
  "keeps a0 a =
     (area_ok a \<and> hd_currOffset a0 \<le> hd_currOffset a \<and> hd_dataSize a = hd_dataSize a0 \<and>
      hd_commitId a = hd_commitId a0 \<and> hd_commitPersistId a = hd_commitPersistId a0 \<and>
      (\<forall>off d. hd_data a0 off = Some d \<longrightarrow> \<not> is_trie d \<longrightarrow> hd_data a off = Some d) \<and>
      (\<forall>off n0. hd_data a0 off = Some (TrieCell n0) \<longrightarrow>
         (\<exists>n. hd_data a off = Some (TrieCell n) \<and> same_payload n0 n)) \<and>
      (\<forall>off d. hd_data a off = Some d \<longrightarrow> hd_data a0 off = None \<longrightarrow>
         hd_currOffset a0 \<le> off \<and> (\<exists>n. d = TrieCell n \<and> tn_dataIndex n = 0 \<and> tn_labelIndex n = 0)))"

lemma keeps_refl: "area_ok a \<Longrightarrow> keeps a a"
  by (auto simp: keeps_def)

lemma keeps_Allocate:
  assumes "keeps a0 a" "length k < 65536" "AllocateParamTrieNode a k = (a', off)"
  shows "keeps a0 a'"
proof -
  have ok: "area_ok a" and bd: "area_bounds a" and st: "store_ok a"
    using assms(1) by (auto simp: keeps_def area_ok_def)
  have fresh: "hd_data a (hd_currOffset a) = None"
    using store_ok_below [OF st] by (cases "hd_data a (hd_currOffset a)") auto
  then have fresh0: "hd_data a0 (hd_currOffset a) = None"
    using assms(1) unfolding keeps_def by (metis is_trie.elims(1) option.distinct(1) option.exhaust)
  have misc: "hd_commitId a' = hd_commitId a" "hd_commitPersistId a' = hd_commitPersistId a"
    using assms(3) by (auto simp: AllocateParamTrieNode_def Let_def split: if_splits)
  show ?thesis
    using bd assms(2)
  proof (cases rule: Allocate_cases)
    case full
    with assms show ?thesis by simp
  next
    case (new a1)
    then have [simp]: "a1 = a'" using assms(3) by simp
    have "area_ok a'" using area_ok_Allocate [OF ok assms(2,3)] .
    moreover have "hd_data a' x = hd_data a x" if "hd_data a0 x \<noteq> None" for x
      using that new(2) fresh0 by auto
    ultimately show ?thesis
      using assms(1) new(2,3,5) misc fresh0
      by (auto simp: keeps_def fresh_trie_def split: if_splits)
  qed
qed

lemma keeps_relink:
  assumes "keeps a0 a" "trie_at a off = Some n" "same_payload n n'"
  shows "keeps a0 (put_cell a off (TrieCell n'))"
proof -
  have n: "hd_data a off = Some (TrieCell n)"
    using assms(2) by (auto simp: trie_at_def split: option.splits cell.splits)
  have "area_ok (put_cell a off (TrieCell n'))"
    using assms by (intro area_ok_relink) (auto simp: keeps_def)
  moreover have "\<not> is_trie d \<Longrightarrow> hd_data a0 off \<noteq> Some d" for d
    using assms(1) n unfolding keeps_def by force
  moreover have "\<exists>m. hd_data (put_cell a off (TrieCell n')) x = Some (TrieCell m) \<and> same_payload n0 m"
    if "hd_data a0 x = Some (TrieCell n0)" for x n0
  proof -
    obtain m where "hd_data a x = Some (TrieCell m)" "same_payload n0 m"
      using assms(1) \<open>hd_data a0 x = Some (TrieCell n0)\<close> unfolding keeps_def by blast
    with n assms(3) same_payload_trans show ?thesis by (auto simp: put_cell_def)
  qed
  moreover have "hd_currOffset a0 \<le> off \<and> tn_dataIndex n' = 0 \<and> tn_labelIndex n' = 0" if "hd_data a0 off = None"
    using assms(1,3) n that unfolding keeps_def by (auto simp: same_payload_def)
  ultimately show ?thesis
    using assms(1) by (auto simp: keeps_def put_cell_def)
qed

interpretation keep: trie_invariant "keeps a0" for a0
  by unfold_locales (fact keeps_Allocate, fact keeps_relink)

subsection \<open>The invariant of an area\<close>

text \<open>The entry \<^verbatim>\<open>e\<close> holds a parameter called \<^verbatim>\<open>nm\<close>.\<close>

definition entry_for :: "string \<Rightarrow> ParamNode \<Rightarrow> bool" where
  "entry_for nm e =
     (pn_keyLength e = length nm \<and> pn_valueLength e = length (pn_data e) - length nm - 1 \<and>
      prefix (nm @ ''='') (pn_data e))"

definition entry_value :: "ParamNode \<Rightarrow> string" where
  "entry_value e = drop (pn_keyLength e + 1) (pn_data e)"

definition names_ok :: "ParamTrieHeader \<Rightarrow> tst \<Rightarrow> bool" where
  "names_ok a c =
     ((\<forall>n. hd_data a 0 = Some (TrieCell n) \<longrightarrow> tn_dataIndex n = 0) \<and>
      (\<forall>p off n. node_at c p = Some off \<longrightarrow> hd_data a off = Some (TrieCell n) \<longrightarrow> tn_dataIndex n \<noteq> 0 \<longrightarrow>
         (\<exists>nm e. hd_data a (tn_dataIndex n) = Some (ParamCell e) \<and> key_split nm = (p, True) \<and>
            last nm \<noteq> CHR ''.'' \<and> entry_for nm e)))"

definition area_inv :: "ParamTrieHeader \<Rightarrow> tst \<Rightarrow> bool" where
  "area_inv a c = (area_repr a c \<and> area_ok a \<and> names_ok a c)"

definition ws_inv :: "WorkSpace \<Rightarrow> bool" where
  "ws_inv ws = (CheckWorkSpace ws = 0 \<and> (\<exists>a c. ws_area ws = Some a \<and> area_inv a c))"

text \<open>The abstract value of an area: the entry of each name.\<close>

definition entry_at :: "ParamTrieHeader \<Rightarrow> tst \<Rightarrow> string \<Rightarrow> (nat \<times> ParamNode) option" where
  "entry_at a c nm =
     (if \<not> snd (key_split nm) then None
      else do {
        off \<leftarrow> node_at c (fst (key_split nm));
        n \<leftarrow> trie_at a off;
        e \<leftarrow> param_at a (tn_dataIndex n);
        if tn_dataIndex n \<noteq> 0 \<and> pn_keyLength e = length nm then Some (tn_dataIndex n, e) else None
      })"

definition params :: "ParamTrieHeader \<Rightarrow> tst \<Rightarrow> string \<Rightarrow> string option" where
  "params a c nm = map_option (entry_value \<circ> snd) (entry_at a c nm)"

lemma area_repr_under:
  "area_repr a c \<longleftrightarrow> hd_firstNode a = 0 \<and>
     (\<exists>n. under a 0 n c \<and> tn_key n = ''#'' \<and> tn_length n = 1 \<and> tn_left n = 0 \<and> tn_right n = 0)"
proof -
  have pos: "0 \<notin> set (offs t)" if "repr m t ix" for m t ix
    using that by (induction t arbitrary: ix) auto
  show ?thesis
    unfolding area_repr_def under_def area_bounds_def using pos by blast
qed

lemma node_at_trie:
  assumes "area_repr a c" "node_at c p = Some off"
  obtains n where "hd_data a off = Some (TrieCell n)" "trie_at a off = Some n" "0 < off"
proof -
  have gen: "\<exists>n. m off = Some (TrieCell n) \<and> 0 < off" if "repr m t ix" "off \<in> set (offs t)" for m t ix
    using that by (induction t arbitrary: ix) auto
  obtain n where "hd_data a off = Some (TrieCell n)" "0 < off"
    using assms gen node_at_in_offs [OF assms(2)] unfolding area_repr_def by blast
  then show ?thesis
    by (intro that) (auto simp: trie_at_def)
qed

subsection \<open>Lookup of a name\<close>

lemma tptr_Ref: "tptr t = Ref off \<longleftrightarrow> root_off t = Some off"
  by (cases t) auto

text \<open>Where the lookup can end.\<close>

lemma FindTrieNode_inner_cases:
  assumes "ws_area ws = Some a" "area_repr a c"
  obtains (none) l where "FindTrieNode_inner ws key = Some (NULL, l)"
  | (root) l where "FindTrieNode_inner ws key = Some (Ref 0, l)" "snd (key_split key)"
  | (node) l off q where "FindTrieNode_inner ws key = Some (Ref off, l)" "snd (key_split key)"
      "node_at c q = Some off" "q = fst (key_split key) \<or> plen q + 2 \<le> plen (fst (key_split key))"
proof -
  obtain ks ok where ks: "key_split key = (ks, ok)" by fastforce
  obtain t l where g: "gfind (lab a) (TN 0 ''#'' Tip c Tip) ks (lab a 0) = (t, l)" by fastforce
  have res: "FindTrieNode_inner ws key = Some (if ok then tptr t else NULL, l)"
    using FindTrieNode_inner_repr [OF assms, of key] ks g by simp
  show thesis
  proof (cases "ok \<and> t \<noteq> Tip")
    case True
    have ne: "ks \<noteq> []" using key_split_join [of key ks] ks True by simp
    have comps: "\<forall>k \<in> set ks. k \<noteq> []" using key_split_comps [of _ key] ks by auto
    have "bst c" using assms(2) by (simp add: area_repr_def)
    from gfind_root_reaches [OF this comps ne g] True
    consider "t = TN 0 ''#'' Tip c Tip"
      | q where "tpath c q = t" "q = ks \<or> plen q + 2 \<le> plen ks" by blast
    then show thesis
    proof cases
      case 1
      with True res ks show thesis by (intro root) auto
    next
      case 2
      obtain off where "root_off t = Some off" using True by (cases t) auto
      with True res ks 2 show thesis by (intro node [of off l q]) (auto simp: tptr_Ref node_at_def)
    qed
  next
    case False
    with res show thesis by (intro none) (auto split: if_splits)
  qed
qed

lemma FindTrieNode_inner_path:
  assumes "ws_area ws = Some a" "area_repr a c" "key_split key = (ks, True)" "node_at c ks = Some off"
  shows "FindTrieNode_inner ws key = Some (Ref off, plabel (lab a) c ks (lab a 0))"
proof -
  have "tpath c ks \<noteq> Tip" "ks \<noteq> []" "tptr (tpath c ks) = Ref off"
    using assms(4) by (auto simp: node_at_def tptr_Ref)
  with FindTrieNode_inner_repr [OF assms(1,2), of key] gfind_path [of ks c] assms(3) show ?thesis
    by simp
qed

definition data_index :: "(nat \<times> ParamNode) option \<Rightarrow> nat" where
  "data_index r = (case r of None \<Rightarrow> 0 | Some (d, e) \<Rightarrow> d)"

lemma area_typed:
  "area_inv a c \<Longrightarrow> hd_data a off = Some (TrieCell n) \<Longrightarrow> tn_dataIndex n \<noteq> 0 \<Longrightarrow>
     \<exists>e. hd_data a (tn_dataIndex n) = Some (ParamCell e) \<and> param_at a (tn_dataIndex n) = Some e \<and>
       GetTrieNode a (tn_dataIndex n) = Ref (tn_dataIndex n)"
  using store_ok_typed [of a off "TrieCell n"] store_ok_below [of a "tn_dataIndex n"]
  by (fastforce simp: area_inv_def area_ok_def area_bounds_def param_at_def GetTrieNode_def)

lemma names_entry:
  assumes "area_inv a c" "node_at c q = Some off" "hd_data a off = Some (TrieCell n)" "tn_dataIndex n \<noteq> 0"
  obtains nm e where "param_at a (tn_dataIndex n) = Some e" "key_split nm = (q, True)" "entry_for nm e"
    "last nm \<noteq> CHR ''.''"
  using assms unfolding area_inv_def names_ok_def param_at_def by fastforce

text \<open>A lookup never yields an entry with another name: a path that leads elsewhere is too short
  for the comparison of lengths.\<close>

lemma lookup_name_unique:
  assumes "key_split nm = (q, True)" "snd (key_split key)" "length nm = length key"
    and "q = fst (key_split key) \<or> plen q + 2 \<le> plen (fst (key_split key))"
  shows "q = fst (key_split key) \<and> nm = key"
proof -
  obtain ks where ks: "key_split key = (ks, True)" using assms(2) by (cases "key_split key") auto
  have "q = ks"
    using key_split_length [OF assms(1)] key_split_length [OF ks] assms(3,4) ks by auto
  with key_split_inj [OF assms(1), of key] ks assms(3) show ?thesis by simp
qed

lemma FindTrieNode_result:
  assumes "ws_area ws = Some a" "area_inv a c" "key \<noteq> []"
    and "FindTrieNode_inner ws key = Some (Ref off, l)" "hd_data a off = Some (TrieCell n)"
  shows "FindTrieNode ws key =
     Some (if tn_dataIndex n = 0 \<or> (\<exists>e. param_at a (tn_dataIndex n) = Some e \<and> pn_keyLength e = length key)
           then Ref off else NULL, l)"
  using assms area_typed [OF assms(2,5)] by (auto simp: FindTrieNode_def trie_at_def)

lemma entry_at_iff:
  "entry_at a c key = Some (d, e) \<longleftrightarrow>
     snd (key_split key) \<and> d \<noteq> 0 \<and> pn_keyLength e = length key \<and> param_at a d = Some e \<and>
     (\<exists>off n. node_at c (fst (key_split key)) = Some off \<and> trie_at a off = Some n \<and> tn_dataIndex n = d)"
  by (auto simp: entry_at_def split: bind_splits if_splits)

lemma data_index_None: "(\<And>d e. r \<noteq> Some (d, e)) \<Longrightarrow> data_index r = 0"
  by (cases r) (auto simp: data_index_def)

lemma FindTrieNode_total:
  assumes "ws_area ws = Some a" "area_inv a c"
  shows "\<exists>p l. FindTrieNode ws key = Some (p, l)"
proof (cases "key = []")
  case False
  have ar: "area_repr a c" using assms(2) by (simp add: area_inv_def)
  from assms(1) ar show ?thesis
  proof (cases rule: FindTrieNode_inner_cases [where key = key])
    case (none l)
    with False assms(1) show ?thesis by (simp add: FindTrieNode_def)
  next
    case (root l)
    moreover obtain n where "hd_data a 0 = Some (TrieCell n)" using ar by (auto simp: area_repr_def)
    ultimately show ?thesis using FindTrieNode_result [OF assms False] by blast
  next
    case (node l off q)
    moreover obtain n where "hd_data a off = Some (TrieCell n)" using ar node(3) by (rule node_at_trie)
    ultimately show ?thesis using FindTrieNode_result [OF assms False] by blast
  qed
qed (simp add: FindTrieNode_def)

lemma FindTrieNode_data_entry:
  assumes "ws_area ws = Some a" "area_inv a c"
  shows "FindTrieNode_data ws key = Some (data_index (entry_at a c key))"
proof (cases "key = []")
  case True
  then show ?thesis
    by (simp add: FindTrieNode_data_def FindTrieNode_def entry_at_def key_split_last data_index_def)
next
  case False
  have ar: "area_repr a c" using assms(2) by (simp add: area_inv_def)
  have inner: "\<exists>off l n. FindTrieNode_inner ws key = Some (Ref off, l) \<and> 0 < off \<and> trie_at a off = Some n \<and> tn_dataIndex n = d"
    if ent: "entry_at a c key = Some (d, e)" for d e
  proof -
    obtain off n where o: "key_split key = (fst (key_split key), True)" "node_at c (fst (key_split key)) = Some off"
        "trie_at a off = Some n" "tn_dataIndex n = d"
      using ent unfolding entry_at_iff by (cases "key_split key") auto
    with FindTrieNode_inner_path [OF assms(1) ar o(1,2)] node_at_trie [OF ar o(2)] show ?thesis by blast
  qed
  from assms(1) ar show ?thesis
  proof (cases rule: FindTrieNode_inner_cases [where key = key])
    case (none l)
    then have "data_index (entry_at a c key) = 0" using inner by (intro data_index_None) auto
    with none False assms(1) show ?thesis by (simp add: FindTrieNode_data_def FindTrieNode_def)
  next
    case (root l)
    obtain n where n: "hd_data a 0 = Some (TrieCell n)" using ar by (auto simp: area_repr_def)
    moreover have "tn_dataIndex n = 0" using assms(2) n by (auto simp: area_inv_def names_ok_def)
    moreover have "data_index (entry_at a c key) = 0" using inner root by (intro data_index_None) auto
    ultimately show ?thesis
      using FindTrieNode_result [OF assms False root(1) n] assms(1) by (simp add: FindTrieNode_data_def trie_at_def)
  next
    case (node l off q)
    obtain n where n: "hd_data a off = Some (TrieCell n)" "trie_at a off = Some n" using ar node(3) by (rule node_at_trie)
    note res = FindTrieNode_result [OF assms False node(1) n(1)]
    show ?thesis
    proof (cases "tn_dataIndex n \<noteq> 0 \<and> (\<exists>e. param_at a (tn_dataIndex n) = Some e \<and> pn_keyLength e = length key)")
      case True
      then obtain nm e where e: "param_at a (tn_dataIndex n) = Some e" "key_split nm = (q, True)" "entry_for nm e"
        using names_entry [OF assms(2) node(3) n(1)] by blast
      with True have "length nm = length key" by (auto simp: entry_for_def)
      with lookup_name_unique [OF e(2) node(2) _ node(4)] have "q = fst (key_split key)" by blast
      with True e(1) node(2,3) n(2) have "entry_at a c key = Some (tn_dataIndex n, e)"
        by (simp add: entry_at_iff)
      with True res n assms(1) show ?thesis by (simp add: FindTrieNode_data_def data_index_def)
    next
      case na: False
      have "entry_at a c key \<noteq> Some (d, e)" for d e
        using inner [of d e] node(1) n(2) na by (auto simp: entry_at_iff)
      then have "data_index (entry_at a c key) = 0" by (rule data_index_None)
      with na res n assms(1) show ?thesis by (auto simp: FindTrieNode_data_def)
    qed
  qed
qed

subsection \<open>Insertion of a name\<close>

lemma CheckWorkSpace_area: "CheckWorkSpace ws = 0 \<Longrightarrow> ws_area ws = Some a \<Longrightarrow>
    CheckWorkSpace (ws\<lparr>ws_area := Some a'\<rparr>) = 0"
  by (auto simp: CheckWorkSpace_def split: if_splits)

lemma keeps_trie_at: "keeps a a' \<Longrightarrow> trie_at a off = Some n \<Longrightarrow> \<exists>n'. trie_at a' off = Some n' \<and> same_payload n n'"
  unfolding keeps_def trie_at_iff by blast

lemma keeps_param_at: "keeps a a' \<Longrightarrow> param_at a off = Some e \<Longrightarrow> param_at a' off = Some e"
  unfolding keeps_def param_at_iff by fastforce

lemma keeps_sec_at: "keeps a a' \<Longrightarrow> sec_at a off = Some e \<Longrightarrow> sec_at a' off = Some e"
  unfolding keeps_def sec_at_iff by fastforce

lemma keeps_trie_back:
  assumes "keeps a a'" "hd_data a' off = Some (TrieCell n')" "off < hd_currOffset a \<or> tn_dataIndex n' \<noteq> 0 \<or> tn_labelIndex n' \<noteq> 0"
  obtains n where "hd_data a off = Some (TrieCell n)" "same_payload n n'"
proof (cases "hd_data a off")
  case None
  with assms show ?thesis unfolding keeps_def by force
next
  case (Some d)
  with assms(1,2) that show ?thesis unfolding keeps_def by (cases d) fastforce+
qed

text \<open>The outcome of \<^verbatim>\<open>AddTrieNode\<close> on a represented area.\<close>

lemma AddTrieNode_inv:
  assumes "CheckWorkSpace ws = 0" "ws_area ws = Some a" "area_inv a c" "length key < 65536"
  obtains a' p c' where "AddTrieNode ws key = Some (ws\<lparr>ws_area := Some a'\<rparr>, p)"
    "area_inv a' c'" "keeps a a'" "grows (hd_currOffset a) c (fst (key_split key)) c'"
    "p \<noteq> NULL \<longrightarrow> snd (key_split key) \<and> (\<exists>off. p = Ref off \<and> node_at c' (fst (key_split key)) = Some off)"
    "snd (key_split key) \<longrightarrow> hd_currOffset a + sum_list (map node_need (fst (key_split key))) < hd_dataSize a \<longrightarrow> p \<noteq> NULL"
    "hd_currOffset a' \<le> hd_currOffset a + sum_list (map node_need (fst (key_split key)))"
proof (cases "key = []")
  case True
  with assms show ?thesis
    by (intro that [of a NULL c]) (auto simp: AddTrieNode_def area_inv_def key_split_last intro: keeps_refl)
next
  case False
  let ?ks = "fst (key_split key)" and ?ok = "snd (key_split key)"
  have inv: "area_repr a c" "area_ok a" "names_ok a c" using assms(3) by (auto simp: area_inv_def)
  obtain n where n: "hd_firstNode a = 0" "under a 0 n c" "tn_key n = ''#''" "tn_length n = 1"
      "tn_left n = 0" "tn_right n = 0"
    using inv(1) unfolding area_repr_under by blast
  note small = AddTrieNode_loop_small [OF assms(4)]
  obtain a' p c' where lp: "AddTrieNode_loop a 0 key = Some (a', p)" and pa: "path_added a 0 n c ?ks ?ok a' p c'"
    using AddTrieNode_loop_under [OF n(2) small] by blast
  have kp: "keeps a a'"
    using keep.AddTrieNode_loop [OF lp keeps_refl [OF inv(2)] small] .
  have gr: "grows (hd_currOffset a) c ?ks c'" using pa by (simp add: path_added_def)
  have "area_repr a' c'"
  proof -
    obtain i where "under a' 0 (n\<lparr>tn_child := i\<rparr>) c'" "hd_firstNode a' = 0"
      using pa n(1) by (auto simp: path_added_def kept_def)
    with n show ?thesis
      unfolding area_repr_under by (intro conjI exI [of _ "n\<lparr>tn_child := i\<rparr>"]) simp_all
  qed
  moreover have "area_ok a'" using kp by (simp add: keeps_def)
  moreover have "names_ok a' c'"
    unfolding names_ok_def
  proof (intro conjI allI impI)
    fix m assume "hd_data a' 0 = Some (TrieCell m)"
    then show "tn_dataIndex m = 0"
      using keeps_trie_back [OF kp, of 0 m] inv(1,3)
      by (auto simp: names_ok_def area_repr_def same_payload_def)
  next
    fix q off m assume m: "node_at c' q = Some off" "hd_data a' off = Some (TrieCell m)" "tn_dataIndex m \<noteq> 0"
    then obtain m0 where m0: "hd_data a off = Some (TrieCell m0)" "same_payload m0 m"
      using keeps_trie_back [OF kp] by blast
    then have "off < hd_currOffset a" using inv(2) store_ok_below by (auto simp: area_ok_def)
    with m(1) gr have "node_at c q = Some off" unfolding grows_def by fastforce
    moreover have "tn_dataIndex m0 = tn_dataIndex m" using m0(2) by (simp add: same_payload_def)
    ultimately obtain nm e where
      "param_at a (tn_dataIndex m) = Some e" "key_split nm = (q, True)" "entry_for nm e"
      "last nm \<noteq> CHR ''.''"
      using names_entry [OF assms(3) _ m0(1)] m(3) by metis
    with keeps_param_at [OF kp] show "\<exists>nm e. hd_data a' (tn_dataIndex m) = Some (ParamCell e) \<and>
        key_split nm = (q, True) \<and> last nm \<noteq> CHR ''.'' \<and> entry_for nm e"
      unfolding param_at_iff by blast
  qed
  ultimately have "area_inv a' c'" by (simp add: area_inv_def)
  moreover have "AddTrieNode ws key = Some (ws\<lparr>ws_area := Some a'\<rparr>, p)"
    using False assms(1,2) n(1) lp by (simp add: AddTrieNode_def)
  ultimately show ?thesis
    using kp gr pa that [of a' p c'] by (auto simp: path_added_def)
qed

lemma AddTrieNode_entry_at:
  assumes "area_inv a c" "area_inv a' c'" "keeps a a'" "grows (hd_currOffset a) c ks c'"
  shows "entry_at a' c' nm = entry_at a c nm"
proof -
  have fwd: "entry_at a c nm = Some (d, e) \<Longrightarrow> entry_at a' c' nm = Some (d, e)" for d e
    using assms(4) keeps_trie_at [OF assms(3)] keeps_param_at [OF assms(3)]
    unfolding entry_at_iff grows_def same_payload_def by metis
  have bwd: "entry_at a c nm = Some (d, e)" if ent: "entry_at a' c' nm = Some (d, e)" for d e
  proof -
    obtain off m where m: "snd (key_split nm)" "d \<noteq> 0" "pn_keyLength e = length nm" "param_at a' d = Some e"
        "node_at c' (fst (key_split nm)) = Some off" "hd_data a' off = Some (TrieCell m)" "tn_dataIndex m = d"
      using ent unfolding entry_at_iff trie_at_iff by blast
    then obtain m0 where m0: "hd_data a off = Some (TrieCell m0)" "same_payload m0 m"
      using keeps_trie_back [OF assms(3)] by metis
    then have "off < hd_currOffset a" using assms(1) store_ok_below by (auto simp: area_inv_def area_ok_def)
    with m(5) assms(4) have "node_at c (fst (key_split nm)) = Some off" unfolding grows_def by fastforce
    moreover obtain e0 where e0: "param_at a d = Some e0"
      using area_typed [OF assms(1) m0(1)] m0(2) m(2,7) by (auto simp: same_payload_def)
    moreover have "e0 = e" using keeps_param_at [OF assms(3) e0] m(4) by simp
    ultimately show ?thesis
      using m m0 by (auto simp: entry_at_iff trie_at_iff same_payload_def)
  qed
  show ?thesis
  proof (cases "entry_at a' c' nm")
    case None
    with fwd have "entry_at a c nm \<noteq> Some (d, e)" for d e by fastforce
    with None show ?thesis by (cases "entry_at a c nm") auto
  next
    case (Some r)
    with bwd [of "fst r" "snd r"] show ?thesis by simp
  qed
qed

end
