(* ===== verification/Param_Attach.thy ===== *)
theory Param_Attach
  imports Param_Map
begin

text \<open>Attaching entries and labels to nodes: \<^verbatim>\<open>AddParamNode\<close>, \<^verbatim>\<open>AddParamSecurityNode\<close> and the index that
  makes them reachable, and the operations \<^verbatim>\<open>AddParamEntry\<close> and \<^verbatim>\<open>AddSecurityLabel\<close> built from them.\<close>

subsection \<open>Changing what nodes carry\<close>

definition same_links :: "ParamTrieNode \<Rightarrow> ParamTrieNode \<Rightarrow> bool" where
  "same_links n n' =
     (tn_key n' = tn_key n \<and> tn_length n' = tn_length n \<and> tn_left n' = tn_left n \<and>
      tn_right n' = tn_right n \<and> tn_child n' = tn_child n)"

definition links_kept :: "ParamTrieHeader \<Rightarrow> ParamTrieHeader \<Rightarrow> bool" where
  "links_kept a a' =
     (hd_firstNode a' = hd_firstNode a \<and> hd_dataSize a' = hd_dataSize a \<and>
      hd_currOffset a \<le> hd_currOffset a' \<and>
      (\<forall>off n. hd_data a off = Some (TrieCell n) \<longrightarrow>
         (\<exists>n'. hd_data a' off = Some (TrieCell n') \<and> same_links n n')))"

lemma repr_links_kept:
  assumes "links_kept a a'"
  shows "repr (hd_data a) t ix \<Longrightarrow> repr (hd_data a') t ix"
proof (induction t arbitrary: ix)
  case (TN off k l c r)
  then obtain n where n: "ix = off" "0 < off" "hd_data a off = Some (TrieCell n)" "tn_key n = k"
      "tn_length n = length k" "repr (hd_data a) l (tn_left n)" "repr (hd_data a) c (tn_child n)"
      "repr (hd_data a) r (tn_right n)" by auto
  moreover obtain n' where "hd_data a' off = Some (TrieCell n')" "same_links n n'"
    using assms n(3) unfolding links_kept_def by blast
  ultimately show ?case
    using TN.IH by (auto simp: same_links_def)
qed simp

lemma area_repr_links_kept:
  assumes "links_kept a a'" "area_repr a c" "area_bounds a'"
  shows "area_repr a' c"
proof -
  obtain n where n: "hd_data a 0 = Some (TrieCell n)" "tn_key n = ''#''" "tn_length n = 1"
      "tn_left n = 0" "tn_right n = 0" "repr (hd_data a) c (tn_child n)"
    using assms(2) unfolding area_repr_def by blast
  obtain n' where n': "hd_data a' 0 = Some (TrieCell n')" "same_links n n'"
    using assms(1) n(1) unfolding links_kept_def by blast
  have "repr (hd_data a') c (tn_child n')"
    using repr_links_kept [OF assms(1) n(6)] n'(2) by (simp add: same_links_def)
  moreover have "\<forall>off \<in> set (offs c). off < hd_currOffset a'"
    using assms(1,2) by (fastforce simp: area_repr_def links_kept_def)
  ultimately show ?thesis
    using assms n n' unfolding area_repr_def area_bounds_def links_kept_def same_links_def by auto
qed

subsection \<open>Parameter nodes\<close>

definition new_entry :: "nat \<Rightarrow> string \<Rightarrow> string \<Rightarrow> 32 word \<Rightarrow> ParamNode" where
  "new_entry type key value mode =
     \<lparr>pn_commitId = (if mode AND LOAD_PARAM_PERSIST \<noteq> 0 then PARAM_FLAGS_PERSIST else 0),
      pn_type = type, pn_keyLength = u8 (length key), pn_valueLength = u16 (length value),
      pn_data = key @ ''='' @ value\<rparr>"

definition value_fits :: "nat \<Rightarrow> string \<Rightarrow> bool" where
  "value_fits type value =
     (length value < PARAM_CONST_VALUE_LEN_MAX \<and> length value \<le> value_slot type (length value))"

lemma GetParamMaxLen_bounds: "8 \<le> GetParamMaxLen type" "GetParamMaxLen type \<le> 96"
  by (auto simp: GetParamMaxLen_def nth_Cons split: nat.splits)

lemma value_slot_bounds: "8 \<le> value_slot type len" "value_slot type len \<le> 4096"
  using GetParamMaxLen_bounds [of type] by (auto simp: value_slot_def)

lemma ParamNode_realLen_slot:
  assumes "length key < 256"
  shows "PARAM_IS_ALIGNED (ParamNode_realLen type (length key) len)"
    and "10 + length key + value_slot type len \<le> ParamNode_realLen type (length key) len"
    and "ParamNode_realLen type (length key) len < 14 + length key + value_slot type len"
proof -
  have "ParamNode_realLen type (length key) len = PARAM_ALIGN (10 + length key + value_slot type len)"
    using assms GetParamMaxLen_bounds [of type] by (auto simp: ParamNode_realLen_def value_slot_def add.assoc)
  moreover have "10 + length key + value_slot type len + 3 < 4294967296"
    using assms value_slot_bounds [of type len] by simp
  ultimately show "PARAM_IS_ALIGNED (ParamNode_realLen type (length key) len)"
    and "10 + length key + value_slot type len \<le> ParamNode_realLen type (length key) len"
    and "ParamNode_realLen type (length key) len < 14 + length key + value_slot type len"
    using PARAM_ALIGN_ge [of "10 + length key + value_slot type len"]
      PARAM_ALIGN_less [of "10 + length key + value_slot type len"] by auto
qed

lemma AddParamNode_cases:
  assumes "CheckWorkSpace ws = 0" "ws_area ws = Some a" "area_ok a"
    and "length key < 256" "value_fits type value"
  obtains (full) "AddParamNode ws type key value mode = (ws, 0)"
      "hd_dataSize a \<le> hd_currOffset a + ParamNode_realLen type (length key) (length value)"
  | (new) a' where "AddParamNode ws type key value mode = (ws\<lparr>ws_area := Some a'\<rparr>, hd_currOffset a)"
      "hd_data a' = (hd_data a)(hd_currOffset a \<mapsto> ParamCell (new_entry type key value mode))"
      "area_ok a'" "links_kept a a'" "hd_commitId a' = hd_commitId a"
      "hd_currOffset a' = hd_currOffset a + ParamNode_realLen type (length key) (length value)"
proof -
  let ?len = "ParamNode_realLen type (length key) (length value)" and ?cur = "hd_currOffset a"
  note rl = ParamNode_realLen_slot [OF assms(4), of type "length value"]
  have bd: "area_bounds a" "store_ok a" using assms(3) by (auto simp: area_ok_def)
  have len: "length value < 4096" "length value \<le> value_slot type (length value)"
    using assms(5) by (auto simp: value_fits_def)
  have txt_ok: "\<not> length (key @ ''='' @ value) > ?len - 1"
    using rl(2) len(2) by simp
  have wrap: "u32 (?cur + ?len) = ?cur + ?len"
    using bd(1) rl(3) assms(4) value_slot_bounds(2) [of type "length value"] by (simp add: area_bounds_def)
  show thesis
  proof (cases "?cur + ?len < hd_dataSize a")
    case True
    define a' where "a' = a\<lparr>hd_data := (hd_data a)(?cur \<mapsto> ParamCell (new_entry type key value mode)),
        hd_currOffset := ?cur + ?len, hd_paramNodeCount := u32 (hd_paramNodeCount a + 1)\<rparr>"
    have "AddParamNode ws type key value mode = (ws\<lparr>ws_area := Some a'\<rparr>, ?cur)"
      using True assms(1,2) wrap txt_ok len(1)
      by (simp add: AddParamNode_def Let_def a'_def new_entry_def del: length_append)
    moreover have "store_ok a'"
      using rl len assms(4)
      by (intro store_ok_alloc [OF bd(2), of "ParamCell (new_entry type key value mode)" ?len])
         (auto simp: a'_def new_entry_def)
    moreover have "area_bounds a'"
      using bd(1) True by (simp add: area_bounds_def a'_def)
    moreover have "hd_data a ?cur = None"
      using store_ok_below [OF bd(2)] by (cases "hd_data a ?cur") auto
    then have "links_kept a a'"
      by (auto simp: links_kept_def a'_def same_links_def)
    ultimately show thesis
      by (intro new [of a']) (auto simp: area_ok_def a'_def)
  next
    case False
    with assms(1,2) wrap len(1) show thesis
      by (intro full) (auto simp: AddParamNode_def Let_def)
  qed
qed

subsection \<open>Attaching an entry to a node\<close>

lemma SaveIndex_data_eq:
  "hd_data a off = Some (TrieCell n) \<Longrightarrow>
     SaveIndex_data a off d = Some (put_cell a off (TrieCell (n\<lparr>tn_dataIndex := d\<rparr>)))"
  by (simp add: SaveIndex_data_def upd_trie_def trie_at_def)

lemma SaveIndex_label_eq:
  "hd_data a off = Some (TrieCell n) \<Longrightarrow>
     SaveIndex_label a off d = Some (put_cell a off (TrieCell (n\<lparr>tn_labelIndex := d\<rparr>)))"
  by (simp add: SaveIndex_label_def upd_trie_def trie_at_def)

text \<open>Different paths lead to different nodes.\<close>

definition branch :: "tst \<Rightarrow> string \<Rightarrow> nat set" where
  "branch t k = (case fsub t k of Tip \<Rightarrow> {} | TN off nk l c r \<Rightarrow> insert off (set (offs c)))"

lemma branch_offs: "branch t k \<subseteq> set (offs t)"
  by (induction t) (auto simp: branch_def)

lemma branch_disjoint: "distinct (offs t) \<Longrightarrow> k1 \<noteq> k2 \<Longrightarrow> branch t k1 \<inter> branch t k2 = {}"
proof (induction t)
  case (TN off nk l c r)
  have b: "branch (TN off nk l c r) k =
     (if nk = k then insert off (set (offs c)) else if kcmp nk k < 0 then branch l k else branch r k)" for k
    by (simp add: branch_def)
  have "branch l k \<subseteq> set (offs l)" "branch r k \<subseteq> set (offs r)" for k by (rule branch_offs)+
  with TN show ?case unfolding b by (auto simp: disjoint_iff) blast+
qed (simp add: branch_def)

lemma node_at_branch: "node_at t (k # p) = Some off \<Longrightarrow> off \<in> branch t k"
  by (cases "p = []"; cases "fsub t k") (auto simp: branch_def node_at_Cons dest: node_at_in_offs)

lemma node_at_inj:
  assumes "distinct (offs c)" "node_at c p = Some off" "node_at c q = Some off"
  shows "p = q"
  using assms
proof (induction p arbitrary: c q)
  case Nil
  then show ?case by simp
next
  case (Cons k p)
  obtain k' q' where q: "q = k' # q'" using Cons.prems(3) by (cases q) auto
  have k: "k' = k"
    using branch_disjoint [OF Cons.prems(1), of k k'] Cons.prems(2,3) q by (auto dest!: node_at_branch)
  have no: "off \<notin> set (offs (child_of (fsub c k)))" if "root_off (fsub c k) = Some off"
    using root_notin_child_fsub [OF Cons.prems(1) that] .
  consider "p = []" "q' = []" | "p = []" "q' \<noteq> []" | "p \<noteq> []" "q' = []" | "p \<noteq> []" "q' \<noteq> []" by blast
  then show ?case
  proof cases
    case 4
    then show ?thesis
      using Cons.IH [OF distinct_offs_child_fsub [OF Cons.prems(1), of k]] Cons.prems(2,3) q k
      by (simp add: node_at_Cons)
  qed (use Cons.prems(2,3) q k no in \<open>auto simp: node_at_Cons dest: node_at_in_offs\<close>)
qed

text \<open>The area after the index of a node was set to a new entry.\<close>

lemma attach_entry:
  assumes inv: "area_inv a c" and nm: "key_split nm = (ks, True)" "node_at c ks = Some off"
    and n: "hd_data a off = Some (TrieCell n)" "tn_dataIndex n = 0"
    and a1: "area_ok a1" "links_kept a a1" "hd_data a1 = (hd_data a)(d \<mapsto> ParamCell e)"
    and d: "hd_data a d = None" "d \<noteq> 0" and e: "entry_for nm e" "last nm \<noteq> CHR ''.''"
  defines "a2 \<equiv> put_cell a1 off (TrieCell (n\<lparr>tn_dataIndex := d\<rparr>))"
  shows "area_inv a2 c" and "entry_at a2 c = (entry_at a c)(nm \<mapsto> (d, e))"
proof -
  have rep: "area_repr a c" and nok: "names_ok a c" and dist: "distinct (offs c)"
    using inv by (auto simp: area_inv_def area_repr_def)
  have offd: "off \<noteq> d" using n(1) d(1) by auto
  have n1: "hd_data a1 off = Some (TrieCell n)" using n(1) a1(3) offd by simp
  have data2: "hd_data a2 x = (if x = off then Some (TrieCell (n\<lparr>tn_dataIndex := d\<rparr>))
      else if x = d then Some (ParamCell e) else hd_data a x)" for x
    using a1(3) by (simp add: a2_def put_cell_def)
  have typed: "cell_typed (hd_data a1) (TrieCell n)"
    using store_ok_typed [OF _ n1] a1(1) by (simp add: area_ok_def)
  have ok2: "area_ok a2"
    unfolding area_ok_def
  proof
    show "area_bounds a2" using a1(1) by (simp add: a2_def put_cell_def area_ok_def area_bounds_def)
    show "store_ok a2"
      unfolding a2_def using a1(1,3) typed n1
      by (intro store_ok_put [OF _ n1]) (auto simp: area_ok_def same_kind_def)
  qed
  have lk2: "links_kept a a2"
    using a1(2) n d(1) unfolding links_kept_def data2
    by (auto simp: same_links_def a2_def put_cell_def)
  have rep2: "area_repr a2 c"
    using area_repr_links_kept [OF lk2 rep] ok2 by (simp add: area_ok_def)
  have off0: "off \<noteq> 0" using node_at_trie [OF rep nm(2)] by auto
  have other: "hd_data a2 x = Some (TrieCell m) \<longleftrightarrow> hd_data a x = Some (TrieCell m)"
      "hd_data a2 x = Some (ParamCell f) \<Longrightarrow> x \<noteq> d \<Longrightarrow> hd_data a x = Some (ParamCell f)"
      "hd_data a x = Some (ParamCell f) \<Longrightarrow> hd_data a2 x = Some (ParamCell f)" if "x \<noteq> off" for x m f
    using that d(1) by (auto simp: data2)
  have at_off: "entry_at a2 c nm' = (if pn_keyLength e = length nm' then Some (d, e) else None)"
      "entry_at a c nm' = None" if "snd (key_split nm')" "node_at c (fst (key_split nm')) = Some off" for nm'
    using that n d offd by (auto simp: entry_at_def trie_at_def param_at_def data2 split: bind_splits)
  have elsewhere: "entry_at a2 c nm' = entry_at a c nm'"
    if x: "node_at c (fst (key_split nm')) = Some x" "x \<noteq> off" for nm' x
  proof -
    obtain m where m: "hd_data a x = Some (TrieCell m)" using rep x(1) by (rule node_at_trie)
    have "param_at a2 (tn_dataIndex m) = param_at a (tn_dataIndex m)" if di: "tn_dataIndex m \<noteq> 0"
      using area_typed [OF inv m di] n(1) d(1) by (auto simp: param_at_def data2)
    moreover have "x \<noteq> d" using m d(1) by auto
    ultimately show ?thesis
      using x m by (cases "tn_dataIndex m = 0") (auto simp: entry_at_def trie_at_def data2 split: bind_splits)
  qed
  have eq: "entry_at a2 c nm' = ((entry_at a c)(nm \<mapsto> (d, e))) nm'" for nm'
  proof (cases "node_at c (fst (key_split nm')) = Some off \<and> snd (key_split nm')")
    case True
    then have "key_split nm' = (ks, True)"
      using node_at_inj [OF dist _ nm(2)] by (cases "key_split nm'") auto
    then have "pn_keyLength e = length nm' \<longleftrightarrow> nm' = nm"
      using key_split_inj [OF nm(1), of nm'] e by (auto simp: entry_for_def)
    with True at_off show ?thesis by auto
  next
    case False
    then have "nm' \<noteq> nm" using nm by auto
    moreover have "entry_at a2 c nm' = entry_at a c nm'"
    proof (cases "snd (key_split nm') \<and> node_at c (fst (key_split nm')) \<noteq> None")
      case True
      with False elsewhere show ?thesis by auto
    qed (auto simp: entry_at_def)
    ultimately show ?thesis by simp
  qed
  then show "entry_at a2 c = (entry_at a c)(nm \<mapsto> (d, e))" by blast
  have "names_ok a2 c"
    unfolding names_ok_def
  proof (intro conjI allI impI)
    fix m assume "hd_data a2 0 = Some (TrieCell m)"
    with off0 d(2) nok show "tn_dataIndex m = 0" by (simp add: data2 names_ok_def)
  next
    fix q x m assume m: "node_at c q = Some x" "hd_data a2 x = Some (TrieCell m)" "tn_dataIndex m \<noteq> 0"
    show "\<exists>nm e. hd_data a2 (tn_dataIndex m) = Some (ParamCell e) \<and>
        key_split nm = (q, True) \<and> last nm \<noteq> CHR ''.'' \<and> entry_for nm e"
    proof (cases "x = off")
      case True
      with m node_at_inj [OF dist _ nm(2)] have "q = ks" "tn_dataIndex m = d" by (auto simp: data2)
      with nm(1) e offd show ?thesis by (auto simp: data2)
    next
      case False
      then have mx: "hd_data a x = Some (TrieCell m)" using other(1) m(2) by blast
      obtain nm0 e0 where "hd_data a (tn_dataIndex m) = Some (ParamCell e0)" "key_split nm0 = (q, True)" "entry_for nm0 e0"
          "last nm0 \<noteq> CHR ''.''"
        using nok m(1,3) mx unfolding names_ok_def by blast
      with n(1) d(1) show ?thesis by (intro exI [of _ nm0] exI [of _ e0]) (auto simp: data2)
    qed
  qed
  with rep2 ok2 show "area_inv a2 c" by (simp add: area_inv_def)
qed

subsection \<open>Changing the value of an entry\<close>

lemma entry_at_entry_for:
  assumes "area_inv a c" "entry_at a c nm = Some (d, e)"
  shows "entry_for nm e" and "hd_data a d = Some (ParamCell e)" and "d \<noteq> 0"
    and "last nm \<noteq> CHR ''.''"
proof -
  obtain off n where o: "key_split nm = (fst (key_split nm), True)" "node_at c (fst (key_split nm)) = Some off"
      "hd_data a off = Some (TrieCell n)" "tn_dataIndex n = d" "d \<noteq> 0" "pn_keyLength e = length nm" "param_at a d = Some e"
    using assms(2) unfolding entry_at_iff trie_at_iff by (cases "key_split nm") auto
  obtain nm0 e0 where e0: "param_at a d = Some e0" "key_split nm0 = (fst (key_split nm), True)" "entry_for nm0 e0"
      "last nm0 \<noteq> CHR ''.''"
    using names_entry [OF assms(1) o(2,3)] o(4,5) by blast
  then have "e0 = e" using o(7) by simp
  with e0 o(6) have nm0: "nm0 = nm"
    using key_split_inj [OF e0(2) o(1)] by (auto simp: entry_for_def)
  with e0 nm0 \<open>e0 = e\<close> show "entry_for nm e" by simp
  show "hd_data a d = Some (ParamCell e)" "d \<noteq> 0" using o by (auto simp: param_at_iff)
  show "last nm \<noteq> CHR ''.''" using e0(4) nm0 by simp
qed

lemma entry_for_take: "entry_for nm e \<Longrightarrow> nm = take (pn_keyLength e) (pn_data e)"
  by (auto simp: entry_for_def prefix_def)

lemma entry_for_unique: "entry_for nm e \<Longrightarrow> entry_for nm' e \<Longrightarrow> nm = nm'"
  using entry_for_take by metis

lemma update_entry:
  assumes inv: "area_inv a c" and ent: "entry_at a c nm = Some (d, e)"
    and e': "entry_for nm e'" "cell_room (ParamCell e') \<le> cell_room (ParamCell e)"
      "cell_typed (hd_data a) (ParamCell e')"
  defines "a2 \<equiv> put_cell a d (ParamCell e')"
  shows "area_inv a2 c" and "entry_at a2 c = (entry_at a c)(nm \<mapsto> (d, e'))"
proof -
  note de = entry_at_entry_for [OF inv ent]
  have data2: "hd_data a2 x = (if x = d then Some (ParamCell e') else hd_data a x)" for x
    by (simp add: a2_def put_cell_def)
  have rep: "area_repr a c" and ok: "area_ok a" and nok: "names_ok a c"
    using inv by (auto simp: area_inv_def)
  have "store_ok a2"
    unfolding a2_def using ok de(2) e' by (intro store_ok_put) (auto simp: area_ok_def same_kind_def)
  then have ok2: "area_ok a2"
    using ok by (simp add: area_ok_def a2_def put_cell_def area_bounds_def)
  have "links_kept a a2"
    using de(2) by (auto simp: links_kept_def data2 same_links_def a2_def put_cell_def)
  then have rep2: "area_repr a2 c"
    using area_repr_links_kept [OF _ rep] ok2 by (simp add: area_ok_def)
  have tr: "hd_data a2 x = Some (TrieCell m) \<longleftrightarrow> hd_data a x = Some (TrieCell m)" for x m
    using de(2) by (auto simp: data2)
  have fwd: "entry_at a2 c nm' = Some (d', if d' = d then e' else f)" if "entry_at a c nm' = Some (d', f)" for nm' d' f
  proof -
    have "entry_for nm' f" "hd_data a d' = Some (ParamCell f)" using entry_at_entry_for [OF inv that] by auto
    then have "nm' = nm" if "d' = d" using that de(1,2) entry_for_unique by auto
    with that e'(1) show ?thesis
      unfolding entry_at_iff trie_at_iff tr param_at_iff by (auto simp: data2 entry_for_def)
  qed
  have kl: "pn_keyLength e' = pn_keyLength e" using e'(1) de(1) by (simp add: entry_for_def)
  have bwd: "\<exists>f. entry_at a c nm' = Some (d', f)" if "entry_at a2 c nm' = Some (d', f')" for nm' d' f'
    using that de(2) kl unfolding entry_at_iff trie_at_iff tr param_at_iff by (auto simp: data2 split: if_splits)
  show eq: "entry_at a2 c = (entry_at a c)(nm \<mapsto> (d, e'))"
  proof
    fix nm'
    show "entry_at a2 c nm' = ((entry_at a c)(nm \<mapsto> (d, e'))) nm'"
    proof (cases "entry_at a c nm'")
      case None
      with bwd have "entry_at a2 c nm' = None" by (cases "entry_at a2 c nm'") fastforce+
      with None ent show ?thesis by auto
    next
      case (Some r)
      obtain d' f where r: "r = (d', f)" by fastforce
      have "nm' = nm" if "d' = d"
        using entry_at_entry_for [OF inv, of nm' d' f] Some r that de entry_for_unique by auto
      with fwd [of nm' d' f] Some r ent show ?thesis by auto
    qed
  qed
  have "names_ok a2 c"
    unfolding names_ok_def tr
  proof (intro conjI allI impI)
    fix m assume "hd_data a 0 = Some (TrieCell m)"
    with nok show "tn_dataIndex m = 0" by (simp add: names_ok_def)
  next
    fix q x m assume m: "node_at c q = Some x" "hd_data a x = Some (TrieCell m)" "tn_dataIndex m \<noteq> 0"
    then obtain nm0 e0 where e0: "hd_data a (tn_dataIndex m) = Some (ParamCell e0)" "key_split nm0 = (q, True)" "entry_for nm0 e0"
          "last nm0 \<noteq> CHR ''.''"
      using nok unfolding names_ok_def by blast
    then have "nm0 = nm" if "tn_dataIndex m = d" using that de(1,2) entry_for_unique by auto
    with e0 e'(1) show "\<exists>nm e. hd_data a2 (tn_dataIndex m) = Some (ParamCell e) \<and>
        key_split nm = (q, True) \<and> last nm \<noteq> CHR ''.'' \<and> entry_for nm e"
      by (cases "tn_dataIndex m = d") (auto simp: data2)
  qed
  with rep2 ok2 show "area_inv a2 c" by (simp add: area_inv_def)
qed

subsection \<open>Security labels\<close>

definition new_label :: "ParamAuditData \<Rightarrow> ParamSecurityNode" where
  "new_label ad = \<lparr>sn_uid = ad_uid ad, sn_gid = ad_gid ad, sn_selinuxIndex = 0, sn_mode = ad_mode ad,
                   sn_type = ad_paramType ad mod 16, sn_members = ad_members ad\<rparr>"

lemma AddParamSecurityNode_cases:
  assumes "CheckWorkSpace ws = 0" "ws_area ws = Some a" "area_ok a" "length (ad_members ad) < 65536"
  obtains (full) "AddParamSecurityNode ws ad = (ws, 0)"
  | (new) a' where "AddParamSecurityNode ws ad = (ws\<lparr>ws_area := Some a'\<rparr>, hd_currOffset a)"
      "hd_data a' = (hd_data a)(hd_currOffset a \<mapsto> SecCell (new_label ad))"
      "area_ok a'" "links_kept a a'"
proof -
  let ?raw = "20 + 4 * length (ad_members ad)" and ?cur = "hd_currOffset a"
  let ?len = "PARAM_ALIGN ?raw"
  have bd: "area_bounds a" "store_ok a" using assms(3) by (auto simp: area_ok_def)
  have len: "?raw \<le> ?len" "?len < ?raw + 4"
    using PARAM_ALIGN_ge [of ?raw] PARAM_ALIGN_less [of ?raw] assms(4) by auto
  have wrap: "u32 ?raw = ?raw" "u32 (?cur + ?len) = ?cur + ?len"
    using bd(1) len(2) assms(4) by (simp_all add: area_bounds_def)
  show thesis
  proof (cases "?cur + ?len < hd_dataSize a")
    case True
    define a' where "a' = a\<lparr>hd_data := (hd_data a)(?cur \<mapsto> SecCell (new_label ad)),
        hd_currOffset := ?cur + ?len, hd_securityNodeCount := u32 (hd_securityNodeCount a + 1)\<rparr>"
    have "AddParamSecurityNode ws ad = (ws\<lparr>ws_area := Some a'\<rparr>, ?cur)"
      using True assms(1,2) wrap by (simp add: AddParamSecurityNode_def Let_def a'_def new_label_def)
    moreover have "store_ok a'"
      using len by (intro store_ok_alloc [OF bd(2), of "SecCell (new_label ad)" ?len])
        (auto simp: a'_def new_label_def)
    moreover have "area_bounds a'"
      using bd(1) True by (simp add: area_bounds_def a'_def)
    moreover have "hd_data a ?cur = None"
      using store_ok_below [OF bd(2)] by (cases "hd_data a ?cur") auto
    then have "links_kept a a'"
      by (auto simp: links_kept_def a'_def same_links_def)
    ultimately show thesis
      by (intro new [of a']) (auto simp: area_ok_def a'_def)
  next
    case False
    with assms(1,2) wrap show thesis
      by (intro full) (auto simp: AddParamSecurityNode_def Let_def)
  qed
qed

text \<open>Setting the label of a node keeps the parameters.\<close>

lemma attach_label:
  assumes inv: "area_inv a c"
    and n: "hd_data a off = Some (TrieCell n)"
    and a1: "area_ok a1" "links_kept a a1" "hd_data a1 = (hd_data a)(d \<mapsto> SecCell s)"
    and d: "hd_data a d = None" "d \<noteq> 0"
  defines "a2 \<equiv> put_cell a1 off (TrieCell (n\<lparr>tn_labelIndex := d\<rparr>))"
  shows "area_inv a2 c" and "entry_at a2 c = entry_at a c" and "lab a2 = (lab a)(off := d)"
    and "sec_at a2 = (sec_at a)(d := Some s)"
proof -
  have rep: "area_repr a c" and nok: "names_ok a c"
    using inv by (auto simp: area_inv_def)
  have offd: "off \<noteq> d" using n d(1) by auto
  have n1: "hd_data a1 off = Some (TrieCell n)" using n a1(3) offd by simp
  have data2: "hd_data a2 x = (if x = off then Some (TrieCell (n\<lparr>tn_labelIndex := d\<rparr>))
      else if x = d then Some (SecCell s) else hd_data a x)" for x
    using a1(3) by (simp add: a2_def put_cell_def)
  have typed: "cell_typed (hd_data a1) (TrieCell n)"
    using store_ok_typed [OF _ n1] a1(1) by (simp add: area_ok_def)
  have "store_ok a2"
    unfolding a2_def using a1(1,3) typed n1
    by (intro store_ok_put [OF _ n1]) (auto simp: area_ok_def same_kind_def)
  then have ok2: "area_ok a2"
    using a1(1) by (simp add: area_ok_def a2_def put_cell_def area_bounds_def)
  have "links_kept a a2"
    using a1(2) n d(1) unfolding links_kept_def data2
    by (auto simp: same_links_def a2_def put_cell_def)
  then have rep2: "area_repr a2 c"
    using area_repr_links_kept [OF _ rep] ok2 by (simp add: area_ok_def)
  have tr: "hd_data a2 x = Some (TrieCell m') \<Longrightarrow> \<exists>m. hd_data a x = Some (TrieCell m) \<and> tn_dataIndex m = tn_dataIndex m'" for x m'
    using n by (auto simp: data2 split: if_splits)
  have pa: "hd_data a2 x = Some (ParamCell e) \<longleftrightarrow> hd_data a x = Some (ParamCell e)" for x e
    using n d(1) by (auto simp: data2)
  have tr2: "hd_data a x = Some (TrieCell m) \<Longrightarrow> \<exists>m'. hd_data a2 x = Some (TrieCell m') \<and> tn_dataIndex m = tn_dataIndex m'" for x m
    using n d(1) by (auto simp: data2)
  have iff: "entry_at a2 c nm = Some (i, e) \<longleftrightarrow> entry_at a c nm = Some (i, e)" for nm i e
    unfolding entry_at_iff trie_at_iff param_at_iff pa using tr tr2 by metis
  show "entry_at a2 c = entry_at a c"
  proof
    show "entry_at a2 c nm = entry_at a c nm" for nm
      using iff [of nm] by (cases "entry_at a2 c nm"; cases "entry_at a c nm") auto
  qed
  have "names_ok a2 c"
    unfolding names_ok_def pa
  proof (intro conjI allI impI)
    fix m assume "hd_data a2 0 = Some (TrieCell m)"
    with tr obtain m0 where "hd_data a 0 = Some (TrieCell m0)" "tn_dataIndex m0 = tn_dataIndex m" by blast
    with nok show "tn_dataIndex m = 0" by (simp add: names_ok_def)
  next
    fix q x m assume m: "node_at c q = Some x" "hd_data a2 x = Some (TrieCell m)" "tn_dataIndex m \<noteq> 0"
    with tr obtain m0 where m0: "hd_data a x = Some (TrieCell m0)" "tn_dataIndex m0 = tn_dataIndex m" by blast
    with nok m(1,3) show "\<exists>nm e. hd_data a (tn_dataIndex m) = Some (ParamCell e) \<and>
        key_split nm = (q, True) \<and> last nm \<noteq> CHR ''.'' \<and> entry_for nm e"
      unfolding names_ok_def by (metis (no_types))
  qed
  with rep2 ok2 show "area_inv a2 c" by (simp add: area_inv_def)
  show "lab a2 = (lab a)(off := d)"
    using n d(1) by (auto simp: lab_def trie_at_def data2 fun_eq_iff)
  show "sec_at a2 = (sec_at a)(d := Some s)"
    using n offd by (auto simp: sec_at_def data2 fun_eq_iff)
qed

end
