(* ===== verification/Param_Ops.thy ===== *)
theory Param_Ops
  imports Param_Attach
begin

text \<open>
  The operations of a workspace against its abstract value: a new workspace is empty, adding an
  entry extends the map by one name or reports a full area, adding a label leaves parameters and
  existing labels alone, and the traversal visits every node once.
\<close>

subsection \<open>A new workspace\<close>

lemma key_split_hash: "key_split ''#'' = ([''#''], True)"
  by (simp add: key_split_last)

lemma InitWorkSpace_fresh:
  assumes "\<not> PARAM_TEST_FLAG (ws_flags ws) 1" "length (ws_fileName ws) < 235"
    and "76 < spaceSize" "spaceSize < 2147483648" "hd_data mem = Map.empty"
  obtains ws' a where "InitWorkSpace ws False spaceSize (Some mem) = (0, ws')"
    "CheckWorkSpace ws' = 0" "ws_area ws' = Some a" "area_inv a Tip" "entry_at a Tip = Map.empty"
    "hd_dataSize a = spaceSize - 48" "hd_currOffset a = 28" "lab a = (\<lambda>_. 0)"
proof -
  define a where "a = mem\<lparr>hd_commitId := 0, hd_commitPersistId := 0, hd_trieNodeCount := 1,
      hd_paramNodeCount := 0, hd_securityNodeCount := 0, hd_dataSize := spaceSize - 48,
      hd_spaceSizeOffset := 0, hd_currOffset := 28, hd_firstNode := 0,
      hd_data := [0 \<mapsto> TrieCell (fresh_trie ''#'')]\<rparr>"
  define ws' where "ws' = ws\<lparr>ws_area := Some a, ws_flags := PARAM_SET_FLAG (ws_flags ws) 1\<rparr>"
  have "PARAM_ALIGN 26 = 28" by (simp add: PARAM_ALIGN_def)
  then have "InitWorkSpace ws False spaceSize (Some mem) = (0, ws')"
    using assms by (simp add: InitWorkSpace_def InitWorkSpace_inner_def GetRealFileName_def
        AllocateParamTrieNode_def ws'_def a_def fresh_trie_def Let_def)
  moreover have "CheckWorkSpace ws' = 0"
    by (simp add: CheckWorkSpace_def ws'_def PARAM_TEST_FLAG_def PARAM_SET_FLAG_def bit_eq_iff bit_simps)
  moreover have "area_inv a Tip"
    using assms(3,4)
    by (auto simp: area_inv_def area_repr_def area_ok_def area_bounds_def store_ok_def names_ok_def a_def
        fresh_trie_def PARAM_IS_ALIGNED_def)
  moreover have "entry_at a Tip = Map.empty"
    by (auto simp: entry_at_def fun_eq_iff)
  moreover have "lab a = (\<lambda>_. 0)"
    by (auto simp: lab_def trie_at_def a_def fresh_trie_def fun_eq_iff)
  ultimately show thesis
    by (intro that [of ws' a]) (auto simp: ws'_def a_def)
qed

subsection \<open>Adding an entry\<close>

lemma entry_for_new_entry:
  "length nm < 256 \<Longrightarrow> length value < 65536 \<Longrightarrow> entry_for nm (new_entry type nm value mode)"
  by (simp add: entry_for_def new_entry_def)

lemma entry_value_new_entry: "length nm < 256 \<Longrightarrow> entry_value (new_entry type nm value mode) = value"
  by (simp add: entry_value_def new_entry_def)

lemma entry_at_None_dataIndex:
  assumes "area_inv a c" "key_split nm = (ks, True)" "node_at c ks = Some off"
    and "hd_data a off = Some (TrieCell n)" "entry_at a c nm = None" "last nm \<noteq> CHR ''.''"
  shows "tn_dataIndex n = 0"
proof (rule ccontr)
  assume di: "tn_dataIndex n \<noteq> 0"
  obtain nm0 e where e: "param_at a (tn_dataIndex n) = Some e" "key_split nm0 = (ks, True)" "entry_for nm0 e"
      "last nm0 \<noteq> CHR ''.''"
    using names_entry [OF assms(1,3,4) di] by blast
  then have ent: "entry_at a c nm0 = Some (tn_dataIndex n, e)"
    using assms(3,4) di by (auto simp: entry_at_iff trie_at_iff entry_for_def)
  have "nm0 = nm"
    using key_split_join [OF e(2)] key_split_join [OF assms(2)] assms(6) e(4) by auto
  with ent assms(5) show False by simp
qed

text \<open>A name that can be stored: it has a path, is not closed by a dot and its length fits the
  length field of an entry.\<close>

definition storable :: "string \<Rightarrow> bool" where
  "storable nm = (snd (key_split nm) \<and> last nm \<noteq> CHR ''.'' \<and> length nm < 256)"

lemma AttachParamNode_cases:
  assumes ws: "CheckWorkSpace ws = 0" "ws_area ws = Some a" and inv: "area_inv a c"
    and nm: "storable nm" "node_at c (fst (key_split nm)) = Some off" "entry_at a c nm = None"
    and v: "value_fits type value"
  obtains (full) "AttachParamNode ws off type nm value mode = Some (ws, 0)"
      "hd_dataSize a \<le> hd_currOffset a + ParamNode_realLen type (length nm) (length value)"
  | (new) a' where "AttachParamNode ws off type nm value mode =
        Some (ws\<lparr>ws_area := Some a'\<rparr>, hd_currOffset a)" "hd_currOffset a \<noteq> 0"
      "area_inv a' c" "hd_commitId a' = hd_commitId a" "hd_dataSize a' = hd_dataSize a"
      "entry_at a' c = (entry_at a c)(nm \<mapsto> (hd_currOffset a, new_entry type nm value mode))"
      "trie_at a' off \<noteq> None" "hd_currOffset a' = hd_currOffset a + ParamNode_realLen type (length nm) (length value)"
proof -
  let ?cur = "hd_currOffset a" and ?e = "new_entry type nm value mode"
  have ok: "area_ok a" and rep: "area_repr a c" using inv by (auto simp: area_inv_def)
  have ks: "key_split nm = (fst (key_split nm), True)" and last: "last nm \<noteq> CHR ''.''" and len: "length nm < 256"
    using nm(1) by (auto simp: storable_def prod_eq_iff)
  have cur: "?cur \<noteq> 0" using ok by (simp add: area_ok_def area_bounds_def)
  obtain n where n: "hd_data a off = Some (TrieCell n)" using rep nm(2) by (rule node_at_trie)
  have di: "tn_dataIndex n = 0" using entry_at_None_dataIndex [OF inv ks nm(2) n nm(3) last] .
  have fresh: "hd_data a ?cur = None"
    using ok store_ok_below [of a ?cur] by (cases "hd_data a ?cur") (auto simp: area_ok_def)
  from ws ok len v show thesis
  proof (cases rule: AddParamNode_cases [where mode = mode])
    case full
    with that(1) show thesis by (simp add: AttachParamNode_def)
  next
    case (new a1)
    let ?a2 = "put_cell a1 off (TrieCell (n\<lparr>tn_dataIndex := ?cur\<rparr>))"
    have n1: "hd_data a1 off = Some (TrieCell n)" using n new(2) fresh by auto
    have "AttachParamNode ws off type nm value mode = Some (ws\<lparr>ws_area := Some ?a2\<rparr>, ?cur)"
      using new(1) cur SaveIndex_data_eq [OF n1] by (simp add: AttachParamNode_def)
    moreover have "entry_for nm ?e"
      using len v by (intro entry_for_new_entry) (auto simp: value_fits_def)
    note at = attach_entry [OF inv ks nm(2) n di new(3,4,2) fresh cur this last]
    ultimately show thesis
      using that(2) [of ?a2] at cur new by (simp add: put_cell_def trie_at_def links_kept_def)
  qed
qed

text \<open>Inserting a path and attaching an entry to its last node.\<close>

lemma insert_entry:
  assumes ws: "CheckWorkSpace ws = 0" "ws_area ws = Some a" and inv: "area_inv a c"
    and nm: "storable nm" "entry_at a c nm = None" and v: "value_fits type value"
  obtains (no_node) a' c' where "AddTrieNode ws nm = Some (ws\<lparr>ws_area := Some a'\<rparr>, NULL)"
      "area_inv a' c'" "entry_at a' c' = entry_at a c" "keeps a a'"
      "hd_dataSize a \<le> hd_currOffset a + sum_list (map node_need (fst (key_split nm)))"
  | (no_entry) a' c' off n where "AddTrieNode ws nm = Some (ws\<lparr>ws_area := Some a'\<rparr>, Ref off)"
      "area_inv a' c'" "entry_at a' c' = entry_at a c" "trie_at a' off = Some n" "tn_dataIndex n = 0" "keeps a a'"
      "AttachParamNode (ws\<lparr>ws_area := Some a'\<rparr>) off type nm value mode = Some (ws\<lparr>ws_area := Some a'\<rparr>, 0)"
      "hd_dataSize a \<le> hd_currOffset a + sum_list (map node_need (fst (key_split nm))) +
         ParamNode_realLen type (length nm) (length value)"
  | (added) a1 c' off n a' d where "AddTrieNode ws nm = Some (ws\<lparr>ws_area := Some a1\<rparr>, Ref off)"
      "trie_at a1 off = Some n" "tn_dataIndex n = 0" "d \<noteq> 0" "hd_commitId a' = hd_commitId a"
      "AttachParamNode (ws\<lparr>ws_area := Some a1\<rparr>) off type nm value mode = Some (ws\<lparr>ws_area := Some a'\<rparr>, d)"
      "area_inv a' c'" "entry_at a' c' = (entry_at a c)(nm \<mapsto> (d, new_entry type nm value mode))"
proof -
  have ks: "key_split nm = (fst (key_split nm), True)" and last: "last nm \<noteq> CHR ''.''" and len: "length nm < 65536"
    using nm(1) by (auto simp: storable_def prod_eq_iff)
  from ws inv len obtain a1 p c1 where
    A: "AddTrieNode ws nm = Some (ws\<lparr>ws_area := Some a1\<rparr>, p)" "area_inv a1 c1" "keeps a a1"
      "grows (hd_currOffset a) c (fst (key_split nm)) c1"
    and P: "p \<noteq> NULL \<longrightarrow> snd (key_split nm) \<and> (\<exists>off. p = Ref off \<and> node_at c1 (fst (key_split nm)) = Some off)"
    and room: "snd (key_split nm) \<longrightarrow> hd_currOffset a + sum_list (map node_need (fst (key_split nm))) < hd_dataSize a \<longrightarrow> p \<noteq> NULL"
    and used: "hd_currOffset a1 \<le> hd_currOffset a + sum_list (map node_need (fst (key_split nm)))"
    by (rule AddTrieNode_inv)
  have eq: "entry_at a1 c1 = entry_at a c"
    using AddTrieNode_entry_at [OF inv A(2-4)] by blast
  have misc: "hd_dataSize a1 = hd_dataSize a" "hd_commitId a1 = hd_commitId a" using A(3) by (auto simp: keeps_def)
  show thesis
  proof (cases p)
    case NULL
    have "hd_dataSize a \<le> hd_currOffset a + sum_list (map node_need (fst (key_split nm)))"
      using room NULL ks by (metis not_le snd_conv)
    with A eq NULL show thesis by (intro no_node) auto
  next
    case (Ref off)
    then have off: "node_at c1 (fst (key_split nm)) = Some off" using P by auto
    obtain n where n: "hd_data a1 off = Some (TrieCell n)" "trie_at a1 off = Some n"
      using A(2) off node_at_trie unfolding area_inv_def by blast
    have none: "entry_at a1 c1 nm = None" using eq nm(2) by simp
    have di: "tn_dataIndex n = 0"
      using entry_at_None_dataIndex [OF A(2) ks off n(1) none last] .
    let ?ws1 = "ws\<lparr>ws_area := Some a1\<rparr>"
    have ws1: "CheckWorkSpace ?ws1 = 0" "ws_area ?ws1 = Some a1"
      using CheckWorkSpace_area [OF ws] by simp_all
    from ws1 A(2) nm(1) off none v show thesis
    proof (cases rule: AttachParamNode_cases [where mode = mode])
      case full
      with A eq Ref n di misc used show thesis by (intro no_entry) auto
    next
      case (new a')
      with A eq Ref n di misc show thesis by (intro added) auto
    qed
  qed
qed

lemma AddParamEntry_cases:
  assumes ws: "CheckWorkSpace ws = 0" "ws_area ws = Some a" and inv: "area_inv a c"
    and nm: "storable nm" and v: "value_fits type value"
  obtains (there) d e where "entry_at a c nm = Some (d, e)" "AddParamEntry ws type nm value = Some (ws, 0)"
  | (full) a' c' where "AddParamEntry ws type nm value = Some (ws\<lparr>ws_area := Some a'\<rparr>, PARAM_CODE_REACHED_MAX)"
      "area_inv a' c'" "entry_at a' c' = entry_at a c"
      "hd_dataSize a \<le> hd_currOffset a + sum_list (map node_need (fst (key_split nm))) +
         ParamNode_realLen type (length nm) (length value)"
  | (new) a' c' d where "AddParamEntry ws type nm value = Some (ws\<lparr>ws_area := Some a'\<rparr>, 0)" "area_inv a' c'"
      "entry_at a c nm = None" "entry_at a' c' = (entry_at a c)(nm \<mapsto> (d, new_entry type nm value 0))"
proof (cases "entry_at a c nm")
  case (Some r)
  obtain d e where r: "r = (d, e)" by fastforce
  then have "AddParamEntry ws type nm value = Some (ws, 0)"
    using FindTrieNode_data_entry [OF ws(2) inv, of nm] Some entry_at_entry_for(3) [OF inv] Some
    by (auto simp: AddParamEntry_def data_index_def)
  with that(1) Some r show thesis by blast
next
  case None
  note fd = FindTrieNode_data_entry [OF ws(2) inv, of nm, unfolded None]
  from ws inv nm None v show thesis
  proof (cases rule: insert_entry [where mode = 0])
    case (no_node a' c')
    with fd show thesis by (intro that(2) [of a' c']) (auto simp: AddParamEntry_def data_index_def)
  next
    case (no_entry a' c' off n)
    with fd show thesis by (intro that(2) [of a' c']) (auto simp: AddParamEntry_def data_index_def)
  next
    case (added a1 c' off n a' d)
    with fd None show thesis by (intro that(3) [of a' c' d]) (auto simp: AddParamEntry_def data_index_def)
  qed
qed

subsection \<open>Adding a label\<close>

lemma FindTrieNode_Ref_trie:
  assumes "ws_area ws = Some a" "area_inv a c" "FindTrieNode ws key = Some (Ref off, l)"
  shows "\<exists>n. hd_data a off = Some (TrieCell n)"
proof -
  have "key \<noteq> []" using assms(3) by (auto simp: FindTrieNode_def)
  then obtain l' where inner: "FindTrieNode_inner ws key = Some (Ref off, l')"
    using assms(1,3) by (auto simp: FindTrieNode_def split: bind_splits ptr.splits if_splits)
  have rep: "area_repr a c" using assms(2) by (simp add: area_inv_def)
  from assms(1) rep show ?thesis
  proof (cases rule: FindTrieNode_inner_cases [where key = key])
    case (node l off' q)
    obtain n where "hd_data a off' = Some (TrieCell n)" using rep node(3) by (rule node_at_trie)
    with node inner show ?thesis by auto
  qed (use inner rep in \<open>auto simp: area_repr_def\<close>)
qed

text \<open>The node that a label is attached to.\<close>

lemma AddSecurityLabel_node_cases:
  assumes ws: "CheckWorkSpace ws = 0" "ws_area ws = Some a" and inv: "area_inv a c" and nm: "length nm < 65536"
  obtains a' c' p where "AddSecurityLabel_node ws nm = Some (ws\<lparr>ws_area := Some a'\<rparr>, p)"
    "area_inv a' c'" "keeps a a'" "entry_at a' c' = entry_at a c"
    "\<forall>off. p = Ref off \<longrightarrow> (\<exists>n. hd_data a' off = Some (TrieCell n))"
proof -
  have rep: "area_repr a c" and ok: "area_ok a" using inv by (auto simp: area_inv_def)
  obtain root where root: "trie_at a (hd_firstNode a) = Some root"
    using area_repr_root(3) [OF rep] by blast
  obtain p l where f: "FindTrieNode ws nm = Some (p, l)"
    using FindTrieNode_total [OF ws(2) inv] by blast
  have same: "ws\<lparr>ws_area := Some a\<rparr> = ws" using ws(2) by simp
  consider (root) "CompareParamTrieNode root nm = 0" | (found) off where "CompareParamTrieNode root nm \<noteq> 0" "p = Ref off"
    | (new) "CompareParamTrieNode root nm \<noteq> 0" "p = NULL" by (cases p) auto
  then show thesis
  proof cases
    case root
    with that [of a "Ref (hd_firstNode a)" c] ws root \<open>trie_at a (hd_firstNode a) = Some root\<close> inv ok same show thesis
      by (auto simp: AddSecurityLabel_node_def trie_at_iff intro: keeps_refl)
  next
    case found
    with that [of a p c] ws root f inv ok same FindTrieNode_Ref_trie [OF ws(2) inv, of nm] show thesis
      by (auto simp: AddSecurityLabel_node_def intro: keeps_refl)
  next
    case new
    from ws inv nm obtain a1 q c1 where
      A: "AddTrieNode ws nm = Some (ws\<lparr>ws_area := Some a1\<rparr>, q)" "area_inv a1 c1" "keeps a a1"
        "grows (hd_currOffset a) c (fst (key_split nm)) c1"
        "q \<noteq> NULL \<longrightarrow> snd (key_split nm) \<and> (\<exists>off. q = Ref off \<and> node_at c1 (fst (key_split nm)) = Some off)"
      by (rule AddTrieNode_inv)
    have "entry_at a1 c1 = entry_at a c" using AddTrieNode_entry_at [OF inv A(2-4)] by blast
    moreover have "\<exists>n. hd_data a1 off = Some (TrieCell n)" if "q = Ref off" for off
      using A(2,5) that node_at_trie unfolding area_inv_def by blast
    moreover have "AddSecurityLabel_node ws nm = Some (ws\<lparr>ws_area := Some a1\<rparr>, q)"
      using new ws root f A(1) by (simp add: AddSecurityLabel_node_def)
    ultimately show thesis using that A(2,3) by blast
  qed
qed

lemma keeps_lab:
  assumes "keeps a a'"
  shows "lab a' = lab a"
proof
  fix off
  show "lab a' off = lab a off"
  proof (cases "hd_data a off")
    case None
    with assms show ?thesis
      unfolding lab_def trie_at_def keeps_def by (auto split: option.splits cell.splits)
  next
    case (Some d)
    with assms show ?thesis
      unfolding lab_def trie_at_def keeps_def by (cases d) (force simp: same_payload_def)+
  qed
qed

text \<open>The outcome of adding a label: parameters and existing labels stay as they are.\<close>

lemma AddSecurityLabel_inv:
  assumes ws: "CheckWorkSpace ws = 0" "ws_area ws = Some a" and inv: "area_inv a c"
    and ad: "length (ad_name ad) < 65536" "length (ad_members ad) < 65536"
  obtains a' c' ret where "AddSecurityLabel ws ad = Some (ws\<lparr>ws_area := Some a'\<rparr>, ret)"
    "area_inv a' c'" "entry_at a' c' = entry_at a c"
    "\<forall>off. lab a off \<noteq> 0 \<longrightarrow> lab a' off = lab a off \<and> sec_at a' (lab a off) = sec_at a (lab a off)"
proof -
  from ws inv ad(1) obtain a1 c1 p where
    A: "AddSecurityLabel_node ws (ad_name ad) = Some (ws\<lparr>ws_area := Some a1\<rparr>, p)" "area_inv a1 c1" "keeps a a1"
      "entry_at a1 c1 = entry_at a c" "\<forall>off. p = Ref off \<longrightarrow> (\<exists>n. hd_data a1 off = Some (TrieCell n))"
    by (rule AddSecurityLabel_node_cases)
  let ?ws1 = "ws\<lparr>ws_area := Some a1\<rparr>"
  have sec: "lab a off \<noteq> 0 \<longrightarrow> lab a1 off = lab a off \<and> sec_at a1 (lab a off) = sec_at a (lab a off) \<and>
      hd_data a1 (lab a off) \<noteq> None" for off
  proof
    assume l: "lab a off \<noteq> 0"
    then obtain n where n: "hd_data a off = Some (TrieCell n)" "tn_labelIndex n = lab a off"
      by (auto simp: lab_def trie_at_def split: option.splits cell.splits)
    have "store_ok a" using inv by (simp add: area_inv_def area_ok_def)
    with store_ok_typed [OF this n(1)] n(2) l obtain s where "sec_at a (lab a off) = Some s"
      by (auto simp: sec_at_iff)
    moreover from keeps_sec_at [OF A(3) this] have "sec_at a1 (lab a off) = Some s" .
    moreover from this have "hd_data a1 (lab a off) = Some (SecCell s)" unfolding sec_at_iff .
    ultimately show "lab a1 off = lab a off \<and> sec_at a1 (lab a off) = sec_at a (lab a off) \<and> hd_data a1 (lab a off) \<noteq> None"
      using keeps_lab [OF A(3)] by simp
  qed
  show thesis
  proof (cases p)
    case NULL
    with A sec that [of a1 PARAM_CODE_REACHED_MAX c1] show thesis by (simp add: AddSecurityLabel_def)
  next
    case (Ref off)
    then obtain n where n: "hd_data a1 off = Some (TrieCell n)" using A(5) by blast
    show thesis
    proof (cases "tn_labelIndex n = 0")
      case False
      with A Ref n sec that [of a1 _ c1] show thesis by (auto simp: AddSecurityLabel_def trie_at_def)
    next
      case True
      have ok1: "area_ok a1" using A(2) by (simp add: area_inv_def)
      have ws1: "CheckWorkSpace ?ws1 = 0" "ws_area ?ws1 = Some a1" using CheckWorkSpace_area [OF ws] by simp_all
      have cur: "hd_currOffset a1 \<noteq> 0" using ok1 by (simp add: area_ok_def area_bounds_def)
      have fresh: "hd_data a1 (hd_currOffset a1) = None"
        using ok1 store_ok_below [of a1 "hd_currOffset a1"] by (cases "hd_data a1 (hd_currOffset a1)") (auto simp: area_ok_def)
      from ws1 ok1 ad(2) show thesis
      proof (cases rule: AddParamSecurityNode_cases)
        case full
        with A Ref n True sec that [of a1 PARAM_CODE_REACHED_MAX c1] show thesis
          by (simp add: AddSecurityLabel_def trie_at_def)
      next
        case (new a2)
        have n2: "hd_data a2 off = Some (TrieCell n)" using new(2) n fresh by auto
        note at = attach_label [OF A(2) n new(3,4,2) fresh cur]
        have "lab a1 off = 0" using n True by (simp add: lab_def trie_at_def)
        then have "\<forall>x. lab a x \<noteq> 0 \<longrightarrow> x \<noteq> off" using sec by metis
        moreover have "\<forall>x. lab a x \<noteq> 0 \<longrightarrow> lab a x \<noteq> hd_currOffset a1" using sec fresh by metis
        moreover have "AddSecurityLabel ws ad = Some (ws\<lparr>ws_area := Some (put_cell a2 off
            (TrieCell (n\<lparr>tn_labelIndex := hd_currOffset a1\<rparr>)))\<rparr>, 0)"
          using A(1) Ref n True new(1) cur SaveIndex_label_eq [OF n2] by (simp add: AddSecurityLabel_def trie_at_def)
        ultimately show thesis
          using that at A(4) sec by simp
      qed
    qed
  qed
qed

subsection \<open>Traversal\<close>

lemma TraversalSubTrieNode_repr:
  "repr (hd_data a) t ix \<Longrightarrow> \<forall>off \<in> set (offs t). off \<le> hd_dataSize a \<Longrightarrow>
     TraversalSubTrieNode a f (GetTrieNode a ix) s = Some (fold f (offs t) s)"
proof (induction t arbitrary: ix s)
  case Tip
  then show ?case by (subst TraversalSubTrieNode.simps) simp
next
  case (TN off k l c r)
  from TN.prems(1) obtain n where n: "ix = off" "0 < off" "trie_at a off = Some n"
      "repr (hd_data a) l (tn_left n)" "repr (hd_data a) c (tn_child n)" "repr (hd_data a) r (tn_right n)"
    by (rule repr_TN_D)
  have "GetTrieNode a ix = Ref off" using n TN.prems(2) by (simp add: GetTrieNode_def)
  with n TN.IH(1) [OF n(4)] TN.IH(2) [OF n(5)] TN.IH(3) [OF n(6)] TN.prems(2) show ?case
    by (subst TraversalSubTrieNode.simps) simp
qed

lemma TraversalTrieNode_all:
  assumes "CheckWorkSpace ws = 0" "ws_area ws = Some a" "area_repr a c"
  shows "TraversalTrieNode ws NULL f s = Some (0, fold f (0 # offs c) s)"
proof -
  obtain n where n: "trie_at a 0 = Some n" "tn_left n = 0" "tn_right n = 0" "repr (hd_data a) c (tn_child n)"
    "hd_firstNode a = 0"
    using assms(3) by (auto simp: area_repr_def trie_at_def)
  have bd: "\<forall>off \<in> set (offs c). off \<le> hd_dataSize a"
    using assms(3) by (auto simp: area_repr_def)
  have null: "TraversalSubTrieNode a f NULL x = Some x" for x
    by (subst TraversalSubTrieNode.simps) simp
  show ?thesis
    using assms(1,2) n TraversalSubTrieNode_repr [OF n(4) bd, of f] null by (simp add: TraversalTrieNode_def)
qed

text \<open>The parameters of a workspace, as its clients read them.\<close>

definition ws_params :: "WorkSpace \<Rightarrow> string \<Rightarrow> string option" where
  "ws_params ws nm =
     (case ws_area ws of None \<Rightarrow> None
      | Some a \<Rightarrow> (case FindTrieNode_data ws nm of
          Some d \<Rightarrow> if d = 0 then None else map_option entry_value (param_at a d)
        | None \<Rightarrow> None))"

lemma ws_params_entry:
  assumes "ws_area ws = Some a" "area_inv a c"
  shows "ws_params ws nm = map_option (entry_value \<circ> snd) (entry_at a c nm)"
proof (cases "entry_at a c nm")
  case None
  with FindTrieNode_data_entry [OF assms, of nm] assms(1) show ?thesis
    by (simp add: ws_params_def data_index_def)
next
  case (Some r)
  obtain d e where r: "r = (d, e)" by fastforce
  with FindTrieNode_data_entry [OF assms, of nm] entry_at_entry_for [OF assms(2), of nm d e] Some assms(1) show ?thesis
    by (simp add: ws_params_def data_index_def param_at_def)
qed

lemma ws_inv_upd: "ws_inv ws \<Longrightarrow> area_inv a' c' \<Longrightarrow> ws_inv (ws\<lparr>ws_area := Some a'\<rparr>)"
  by (auto simp: ws_inv_def intro: CheckWorkSpace_area)

lemma AddParamEntry_ws_inv:
  assumes "ws_inv ws" "storable nm" "value_fits type value" "AddParamEntry ws type nm value = Some (ws', ret)"
  shows "ws_inv ws'"
proof -
  obtain a c where a: "CheckWorkSpace ws = 0" "ws_area ws = Some a" "area_inv a c"
    using assms(1) by (auto simp: ws_inv_def)
  from a assms(2,3) show ?thesis
    by (cases rule: AddParamEntry_cases) (use assms(1,4) in \<open>auto intro: ws_inv_upd\<close>)
qed

lemma AddSecurityLabel_ws_inv:
  assumes "ws_inv ws" "length (ad_name ad) < 65536" "length (ad_members ad) < 65536"
    "AddSecurityLabel ws ad = Some (ws', ret)"
  shows "ws_inv ws'"
proof -
  obtain a c where a: "CheckWorkSpace ws = 0" "ws_area ws = Some a" "area_inv a c"
    using assms(1) by (auto simp: ws_inv_def)
  from a assms(2,3) show ?thesis
    by (rule AddSecurityLabel_inv) (use assms(1,4) in \<open>auto intro: ws_inv_upd\<close>)
qed

lemma AddSecurityLabel_ws:
  assumes "ws_inv ws" "length (ad_name ad) < 65536" "length (ad_members ad) < 65536"
  shows "\<exists>ws' ret. AddSecurityLabel ws ad = Some (ws', ret) \<and> ws_inv ws' \<and> ws_params ws' = ws_params ws"
proof -
  obtain a c where a: "CheckWorkSpace ws = 0" "ws_area ws = Some a" "area_inv a c"
    using assms(1) by (auto simp: ws_inv_def)
  from a assms(2,3) obtain a' c' ret where A: "AddSecurityLabel ws ad = Some (ws\<lparr>ws_area := Some a'\<rparr>, ret)"
    "area_inv a' c'" "entry_at a' c' = entry_at a c"
    by (rule AddSecurityLabel_inv)
  have "ws_params (ws\<lparr>ws_area := Some a'\<rparr>) = ws_params ws"
    using ws_params_entry [of "ws\<lparr>ws_area := Some a'\<rparr>" a' c'] ws_params_entry [OF a(2,3)] A(2,3)
    by (simp add: fun_eq_iff)
  with A ws_inv_upd [OF assms(1) A(2)] show ?thesis by auto
qed

end
