(* ===== verification/Param_Demo.thy ===== *)
theory Param_Demo
  imports Param_Ops
begin

text \<open>
  Example workspaces on which the properties of the parameter components are evaluated: an area of 1000
  bytes after initialisation, one with a parameter, and some with labels.
\<close>

lemmas trie_eval = PARAM_ALIGN_def PARAM_TEST_FLAG_def PARAM_SET_FLAG_def u8_def u16_def u32_def Let_def
  InitWorkSpace_def InitWorkSpace_inner_def GetRealFileName_def AllocateParamTrieNode_def CheckWorkSpace_def
  trie_at_def param_at_def sec_at_def put_cell_def upd_trie_def GetTrieNode_def CompareParamTrieNode_def
  GetNextKey_def AddTrieNode_step_def AddTrieNode_def AddToSubTrie.simps AddTrieNode_loop.simps
  SaveIndex_left_def SaveIndex_right_def SaveIndex_child_def SaveIndex_label_def SaveIndex_data_def
  FindSubTrie.simps FindTrieNode_loop.simps FindTrieNode_inner_def FindTrieNode_def FindTrieNode_data_def
  AddSecurityLabel_def AddSecurityLabel_node_def AddParamSecurityNode_def
  GetParamMaxLen_def ParamNode_realLen_def AddParamNode_def AttachParamNode_def AddParamEntry_def

definition demo_mem :: ParamTrieHeader where
  "demo_mem = \<lparr>hd_commitId = 0, hd_commitPersistId = 0, hd_trieNodeCount = 0, hd_paramNodeCount = 0,
     hd_securityNodeCount = 0, hd_currOffset = 0, hd_spaceSizeOffset = 0, hd_firstNode = 0,
     hd_dataSize = 0, hd_data = Map.empty\<rparr>"

text \<open>A workspace of 1000 bytes as \<^verbatim>\<open>InitWorkSpace\<close> leaves it.\<close>

definition demo_ws :: WorkSpace where
  "demo_ws = snd (InitWorkSpace
     \<lparr>ws_flags = 0, ws_area = None, ws_spaceSize = 1000, ws_spaceIndex = 0, ws_fileName = ''demo''\<rparr>
     False 1000 (Some demo_mem))"

definition demo_label :: "string \<Rightarrow> nat \<Rightarrow> ParamAuditData" where
  "demo_label nm u = \<lparr>ad_uid = u, ad_gid = u, ad_mode = 416, ad_paramType = 0, ad_name = nm, ad_members = []\<rparr>"

lemma demo_ws_ok:
  obtains a where "CheckWorkSpace demo_ws = 0" "ws_area demo_ws = Some a" "area_inv a Tip"
    "entry_at a Tip = Map.empty" "hd_dataSize a = 952" "hd_currOffset a = 28"
proof -
  have fl: "\<not> PARAM_TEST_FLAG (ws_flags \<lparr>ws_flags = 0, ws_area = None, ws_spaceSize = 1000, ws_spaceIndex = 0,
      ws_fileName = ''demo''\<rparr>) 1" by (simp add: PARAM_TEST_FLAG_def)
  have nm: "length (ws_fileName \<lparr>ws_flags = 0, ws_area = None, ws_spaceSize = 1000, ws_spaceIndex = 0,
      ws_fileName = ''demo''\<rparr>) < 235" by simp
  have dt: "hd_data demo_mem = Map.empty" by (simp add: demo_mem_def)
  show thesis
    by (rule InitWorkSpace_fresh [OF fl nm _ _ dt, of 1000]) (auto simp: demo_ws_def intro: that)
qed

lemma demo_ws_inv: "ws_inv demo_ws"
  by (rule demo_ws_ok) (auto simp: ws_inv_def)

text \<open>The example workspace with one parameter.\<close>

definition demo_ws1 :: WorkSpace where
  "demo_ws1 = fst (the (AddParamEntry demo_ws 0 ''a.b'' ''v''))"

text \<open>The example workspace with labels on \<open>a\<close> and \<open>b\<close>; one with a label on \<open>a\<close> and the parameter \<open>a.b\<close>.\<close>

definition demo_ab :: WorkSpace where
  "demo_ab = fst (the (AddSecurityLabel (fst (the (AddSecurityLabel demo_ws (demo_label ''a'' 1)))) (demo_label ''b'' 2)))"

definition demo_inherit :: WorkSpace where
  "demo_inherit = fst (the (AddSecurityLabel demo_ws1 (demo_label ''a'' 1)))"

lemmas demo_eval = demo_ws1_def demo_ws_def demo_mem_def demo_label_def trie_eval

lemma storable_ab: "storable ''a.b''"
  using key_split_dot [of "''a''" "''b''"] by (simp add: storable_def key_split_last)

lemma fits_v: "value_fits 0 ''v''"
  by (simp add: value_fits_def value_slot_def GetParamMaxLen_def)

lemma demo_ws1_eq: "AddParamEntry demo_ws 0 ''a.b'' ''v'' = Some (demo_ws1, 0)"
proof -
  have "map_option snd (AddParamEntry demo_ws 0 ''a.b'' ''v'') = Some 0"
    by (simp add: demo_ws_def demo_mem_def trie_eval)
  then show ?thesis by (auto simp: demo_ws1_def)
qed

lemma demo_ws1_inv: "ws_inv demo_ws1"
  using AddParamEntry_ws_inv [OF demo_ws_inv storable_ab fits_v demo_ws1_eq] .

text \<open>The tree of an area is determined by its contents.\<close>

lemma repr_unique: "repr m c ix \<Longrightarrow> repr m c' ix \<Longrightarrow> c = c'"
proof (induction c arbitrary: c' ix)
  case Tip
  then show ?case by (cases c') auto
next
  case (TN off k l c r)
  then show ?case by (cases c') auto
qed

lemma demo_inherit_inv:
  obtains a where "ws_area demo_inherit = Some a"
    "area_inv a (TN 28 ''a'' Tip (TN 56 ''b'' Tip Tip Tip) Tip)" "lab a 28 \<noteq> 0" "lab a 56 = 0"
proof -
  have "map_option snd (AddSecurityLabel demo_ws1 (demo_label ''a'' 1)) = Some 0"
    by (simp add: demo_eval)
  then obtain ws' where "AddSecurityLabel demo_ws1 (demo_label ''a'' 1) = Some (ws', 0)" by auto
  then have "ws_inv demo_inherit"
    using AddSecurityLabel_ws_inv [OF demo_ws1_inv, of "demo_label ''a'' 1" ws' 0]
    by (simp add: demo_inherit_def demo_label_def)
  then obtain a c where a: "ws_area demo_inherit = Some a" "area_inv a c" by (auto simp: ws_inv_def)
  have mem: "ws_area demo_inherit = Some b \<Longrightarrow> lab b 28 \<noteq> 0 \<and> lab b 56 = 0 \<and>
     (\<exists>n. hd_data b 0 = Some (TrieCell n) \<and>
       repr (hd_data b) (TN 28 ''a'' Tip (TN 56 ''b'' Tip Tip Tip) Tip) (tn_child n))" for b
    by (auto simp: demo_inherit_def demo_eval lab_def)
  obtain n where n: "hd_data a 0 = Some (TrieCell n)" "lab a 28 \<noteq> 0" "lab a 56 = 0"
     "repr (hd_data a) (TN 28 ''a'' Tip (TN 56 ''b'' Tip Tip Tip) Tip) (tn_child n)"
    using mem [OF a(1)] by blast
  have "repr (hd_data a) c (tn_child n)"
    using a(2) n(1) by (auto simp: area_inv_def area_repr_def)
  with n(4) have "c = TN 28 ''a'' Tip (TN 56 ''b'' Tip Tip Tip) Tip" by (intro repr_unique)
  with that a n show thesis by blast
qed

end
