(* ===== verification/Param_Trie_Props.thy ===== *)
theory Param_Trie_Props
  imports Param_Demo
begin

text \<open>
  What the parameter trie guarantees to its clients, stated on the workspace operations.
\<close>

text \<open>The label of the longest labelled prefix.\<close>

lemma plabel_none:
  "\<forall>q y. q \<noteq> [] \<longrightarrow> prefix q ks \<longrightarrow> node_at c q = Some y \<longrightarrow> L y = 0 \<Longrightarrow> plabel L c ks l = l"
proof (induction ks arbitrary: c l)
  case (Cons k ks)
  show ?case
  proof (cases "fsub c k")
    case (TN off nk lt cc rt)
    have "L off = 0" using Cons.prems [rule_format, of "[k]" off] TN by simp
    moreover have "plabel L cc ks l = l"
    proof (rule Cons.IH, intro allI impI)
      fix q y assume "q \<noteq> []" "prefix q ks" "node_at cc q = Some y"
      with Cons.prems [rule_format, of "k # q" y] TN show "L y = 0" by (simp add: node_at_Cons)
    qed
    ultimately show ?thesis using TN by simp
  qed simp
qed simp

lemma plabel_longest:
  assumes "prefix p ks" "node_at c p = Some x" "L x \<noteq> 0"
    and "\<forall>q y. prefix q ks \<longrightarrow> length p < length q \<longrightarrow> node_at c q = Some y \<longrightarrow> L y = 0"
  shows "plabel L c ks l = L x"
  using assms
proof (induction ks arbitrary: c p l)
  case (Cons k ks)
  obtain p' where p: "p = k # p'" "prefix p' ks"
    using Cons.prems(1,2) by (cases p) auto
  obtain off nk lt cc rt where f: "fsub c k = TN off nk lt cc rt"
    using Cons.prems(2) p by (cases "fsub c k"; cases "p' = []") (auto simp: node_at_Cons)
  show ?case
  proof (cases "p' = []")
    case True
    have "plabel L cc ks (L x) = L x"
    proof (rule plabel_none, intro allI impI)
      fix q y assume "q \<noteq> []" "prefix q ks" "node_at cc q = Some y"
      with Cons.prems(4) [rule_format, of "k # q" y] p True f show "L y = 0" by (simp add: node_at_Cons)
    qed
    with True p f Cons.prems(2,3) show ?thesis by auto
  next
    case False
    have "plabel L cc ks l' = L x" for l'
    proof (rule Cons.IH [OF p(2) _ Cons.prems(3)])
      show "node_at cc p' = Some x" using Cons.prems(2) p False f by (simp add: node_at_Cons)
      show "\<forall>q y. prefix q ks \<longrightarrow> length p' < length q \<longrightarrow> node_at cc q = Some y \<longrightarrow> L y = 0"
      proof (intro allI impI)
        fix q y assume "prefix q ks" "length p' < length q" "node_at cc q = Some y"
        with Cons.prems(4) [rule_format, of "k # q" y] p f show "L y = 0" by (cases "q = []") (auto simp: node_at_Cons)
      qed
    qed
    with f show ?thesis by simp
  qed
qed simp

text \<open>C1: a path inserted by \<open>AddTrieNode\<close> is found again by the lookup, at the node the insertion returned;
  the workspace invariant is kept and every node that was there is still found at the same place.\<close>

theorem AddTrieNode_find:
  assumes "ws_inv ws" "length key < 65536" "AddTrieNode ws key = Some (ws', Ref off)"
  shows "ws_inv ws' \<and> (\<exists>l. FindTrieNode_inner ws' key = Some (Ref off, l)) \<and>
    (\<forall>nm d. FindTrieNode_data ws nm = Some d \<longrightarrow> FindTrieNode_data ws' nm = Some d)"
proof -
  obtain a c where a: "CheckWorkSpace ws = 0" "ws_area ws = Some a" "area_inv a c"
    using assms(1) by (auto simp: ws_inv_def)
  from a assms(2) obtain a' p c' where
    A: "AddTrieNode ws key = Some (ws\<lparr>ws_area := Some a'\<rparr>, p)" "area_inv a' c'" "keeps a a'"
      "grows (hd_currOffset a) c (fst (key_split key)) c'"
      "p \<noteq> NULL \<longrightarrow> snd (key_split key) \<and> (\<exists>off. p = Ref off \<and> node_at c' (fst (key_split key)) = Some off)"
    by (rule AddTrieNode_inv)
  have ws': "ws' = ws\<lparr>ws_area := Some a'\<rparr>" "p = Ref off" using A(1) assms(3) by auto
  have inv': "ws_inv ws'"
    using A(2) CheckWorkSpace_area [OF a(1,2)] ws' by (auto simp: ws_inv_def)
  have "key_split key = (fst (key_split key), True)" "node_at c' (fst (key_split key)) = Some off"
    using A(5) ws' by (auto simp: prod_eq_iff)
  then have "\<exists>l. FindTrieNode_inner ws' key = Some (Ref off, l)"
    using FindTrieNode_inner_path [of ws' a' c'] A(2) ws' by (auto simp: area_inv_def)
  moreover have "FindTrieNode_data ws' nm = FindTrieNode_data ws nm" for nm
    using FindTrieNode_data_entry [OF a(2,3)] FindTrieNode_data_entry [of ws' a' c' nm] A(2) ws'
      AddTrieNode_entry_at [OF a(3) A(2-4)] by simp
  ultimately show ?thesis using inv' by simp
qed

theorem AddTrieNode_find_witness:
  "\<exists>ws' off. AddTrieNode demo_ws ''a.b'' = Some (ws', Ref off) \<and> ws_inv ws' \<and>
     (\<exists>l. FindTrieNode_inner ws' ''a.b'' = Some (Ref off, l))"
proof -
  have "map_option snd (AddTrieNode demo_ws ''a.b'') = Some (Ref 56)"
    by (simp add: demo_ws_def demo_mem_def trie_eval)
  then obtain ws' where e: "AddTrieNode demo_ws ''a.b'' = Some (ws', Ref 56)"
    by auto
  show ?thesis
    using AddTrieNode_find [OF demo_ws_inv _ e] e by auto
qed

text \<open>C3: the lookup and the insertion return on every workspace that satisfies the invariant, whatever the
  key: no loop over the trie runs forever and no read leaves the allocated objects. The result of a
  failed insertion keeps the invariant, too.\<close>

theorem trie_operations_return:
  assumes "ws_inv ws"
  shows "(\<exists>p l. FindTrieNode ws key = Some (p, l)) \<and>
    (length key < 65536 \<longrightarrow> (\<exists>ws' p. AddTrieNode ws key = Some (ws', p) \<and> ws_inv ws'))"
proof -
  obtain a c where a: "CheckWorkSpace ws = 0" "ws_area ws = Some a" "area_inv a c"
    using assms by (auto simp: ws_inv_def)
  have "\<exists>ws' p. AddTrieNode ws key = Some (ws', p) \<and> ws_inv ws'" if len: "length key < 65536"
  proof -
    from a len obtain a' p c' where
      "AddTrieNode ws key = Some (ws\<lparr>ws_area := Some a'\<rparr>, p)" "area_inv a' c'"
      by (rule AddTrieNode_inv)
    with CheckWorkSpace_area [OF a(1,2)] show ?thesis by (auto simp: ws_inv_def)
  qed
  with FindTrieNode_total [OF a(2,3)] show ?thesis by blast
qed

theorem trie_operations_return_witness:
  "ws_inv demo_ws \<and> (\<exists>p l. FindTrieNode demo_ws ''x.y'' = Some (p, l)) \<and>
    (\<exists>ws' p. AddTrieNode demo_ws ''x.y'' = Some (ws', p) \<and> ws_inv ws')"
  using trie_operations_return [OF demo_ws_inv, of "''x.y''"] demo_ws_inv by simp

text \<open>C4: a well-formed key is inserted as long as the area has room for one node per component.\<close>

theorem AddTrieNode_succeeds:
  assumes "ws_inv ws" "ws_area ws = Some a" "length key < 65536" "snd (key_split key)"
    and "hd_currOffset a + sum_list (map node_need (fst (key_split key))) < hd_dataSize a"
  shows "\<exists>ws' off. AddTrieNode ws key = Some (ws', Ref off)"
proof -
  obtain c where a: "CheckWorkSpace ws = 0" "ws_area ws = Some a" "area_inv a c"
    using assms(1,2) by (auto simp: ws_inv_def)
  from a assms(3) obtain a' p c' where "AddTrieNode ws key = Some (ws\<lparr>ws_area := Some a'\<rparr>, p)"
      "snd (key_split key) \<longrightarrow> hd_currOffset a + sum_list (map node_need (fst (key_split key))) < hd_dataSize a \<longrightarrow> p \<noteq> NULL"
    by (rule AddTrieNode_inv)
  with assms(4,5) show ?thesis by (cases p) auto
qed

theorem AddTrieNode_succeeds_witness:
  "snd (key_split ''ab'') \<and> (\<exists>ws' off. AddTrieNode demo_ws ''ab'' = Some (ws', Ref off))"
proof -
  have ks: "key_split ''ab'' = ([''ab''], True)" by (simp add: key_split_last)
  have need: "node_need ''ab'' = 28" by (simp add: node_need_def PARAM_ALIGN_def u32_def)
  show ?thesis
    by (rule demo_ws_ok) (use AddTrieNode_succeeds [OF demo_ws_inv, of _ "''ab''"] ks need in auto)
qed

text \<open>C5: a lookup never confuses parameters: when it returns a node that carries data, the entry behind it
  belongs to exactly the name that was asked for.\<close>

theorem FindTrieNode_exact:
  assumes "ws_inv ws" "ws_area ws = Some a" "FindTrieNode ws key = Some (Ref off, l)"
    and "trie_at a off = Some n" "tn_dataIndex n \<noteq> 0"
  shows "\<exists>e. param_at a (tn_dataIndex n) = Some e \<and> pn_keyLength e = length key \<and> prefix (key @ ''='') (pn_data e)"
proof -
  obtain c where inv: "area_inv a c" using assms(1,2) by (auto simp: ws_inv_def)
  have "FindTrieNode_data ws key = Some (tn_dataIndex n)"
    using assms(2-4) by (simp add: FindTrieNode_data_def)
  then have "data_index (entry_at a c key) = tn_dataIndex n"
    using FindTrieNode_data_entry [OF assms(2) inv, of key] by simp
  then obtain e where "entry_at a c key = Some (tn_dataIndex n, e)"
    using assms(5) by (auto simp: data_index_def split: option.splits)
  with entry_at_entry_for [OF inv this] show ?thesis
    by (auto simp: entry_for_def param_at_iff)
qed

theorem FindTrieNode_exact_witness:
  "\<exists>a off l n. ws_area demo_ws1 = Some a \<and> FindTrieNode demo_ws1 ''a.b'' = Some (Ref off, l) \<and>
     trie_at a off = Some n \<and> tn_dataIndex n \<noteq> 0 \<and>
     (\<exists>e. param_at a (tn_dataIndex n) = Some e \<and> pn_keyLength e = 3 \<and> prefix ''a.b='' (pn_data e))"
proof -
  have "(\<exists>a n. ws_area demo_ws1 = Some a \<and> FindTrieNode demo_ws1 ''a.b'' = Some (Ref 56, 0) \<and>
     trie_at a 56 = Some n \<and> tn_dataIndex n \<noteq> 0)"
    by (simp add: demo_eval)
  then obtain a n where n: "ws_area demo_ws1 = Some a" "FindTrieNode demo_ws1 ''a.b'' = Some (Ref 56, 0)"
    "trie_at a 56 = Some n" "tn_dataIndex n \<noteq> 0" by blast
  from FindTrieNode_exact [OF demo_ws1_inv n] n show ?thesis by fastforce
qed

text \<open>C2: adding an entry is an update of the map from names to values: it leaves every other parameter
  alone, an existing parameter keeps its value, and a full area is reported and changes nothing.\<close>

theorem AddParamEntry_map:
  assumes "ws_inv ws" "storable nm" "value_fits type value"
  shows "\<exists>ws' ret. AddParamEntry ws type nm value = Some (ws', ret) \<and> ws_inv ws' \<and>
    (ret = 0 \<and> ws_params ws nm = None \<and> ws_params ws' = (ws_params ws)(nm \<mapsto> value) \<or>
     ret = 0 \<and> ws_params ws nm \<noteq> None \<and> ws' = ws \<or>
     ret = PARAM_CODE_REACHED_MAX \<and> ws_params ws' = ws_params ws)"
proof -
  obtain a c where a: "CheckWorkSpace ws = 0" "ws_area ws = Some a" "area_inv a c"
    using assms(1) by (auto simp: ws_inv_def)
  have len: "length nm < 256" using assms(2) by (simp add: storable_def)
  have inv': "ws_inv (ws\<lparr>ws_area := Some a'\<rparr>)" if "area_inv a' c'" for a' c'
    using that CheckWorkSpace_area [OF a(1,2)] by (auto simp: ws_inv_def)
  have par: "ws_params ws nm' = map_option (entry_value \<circ> snd) (entry_at a c nm')" for nm'
    using ws_params_entry [OF a(2,3)] .
  have par': "ws_params (ws\<lparr>ws_area := Some a'\<rparr>) nm' = map_option (entry_value \<circ> snd) (entry_at a' c' nm')"
    if "area_inv a' c'" for a' c' nm'
    using ws_params_entry [of "ws\<lparr>ws_area := Some a'\<rparr>" a' c'] that by simp
  from a assms(2,3) show ?thesis
  proof (cases rule: AddParamEntry_cases)
    case (there d e)
    with assms(1) par show ?thesis by auto
  next
    case (full a' c')
    with inv' par par' show ?thesis by auto
  next
    case (new a' c' d)
    have "ws_params (ws\<lparr>ws_area := Some a'\<rparr>) = (ws_params ws)(nm \<mapsto> value)"
      using new(2,4) par par' entry_value_new_entry [OF len] by (auto simp: fun_eq_iff)
    with new inv' par show ?thesis by auto
  qed
qed

theorem AddParamEntry_map_witness:
  "ws_inv demo_ws \<and> storable ''a.b'' \<and> value_fits 0 ''v'' \<and>
   (\<exists>ws'. AddParamEntry demo_ws 0 ''a.b'' ''v'' = Some (ws', 0) \<and> ws_params ws' = (ws_params demo_ws)(''a.b'' \<mapsto> ''v''))"
proof -
  have "ws_params demo_ws ''a.b'' = None"
    by (rule demo_ws_ok) (simp add: ws_params_entry)
  with AddParamEntry_map [OF demo_ws_inv storable_ab fits_v] demo_ws1_eq demo_ws_inv storable_ab fits_v show ?thesis
    by auto
qed

text \<open>C6: permission labels are inherited: for a key whose node exists, the label that the lookup reports is
  the one of the longest prefix of the key that carries a label.\<close>

theorem FindTrieNode_longest_label:
  assumes "ws_area ws = Some a" "area_inv a c" "key_split key = (ks, True)" "node_at c ks = Some off"
    and "prefix p ks" "node_at c p = Some x" "lab a x \<noteq> 0"
    and "\<forall>q y. prefix q ks \<longrightarrow> length p < length q \<longrightarrow> node_at c q = Some y \<longrightarrow> lab a y = 0"
  shows "FindTrieNode_inner ws key = Some (Ref off, lab a x)"
  using FindTrieNode_inner_path [OF assms(1) _ assms(3,4)] assms(2) plabel_longest [OF assms(5-8)]
  by (simp add: area_inv_def)

theorem FindTrieNode_longest_label_witness:
  "\<exists>a. ws_area demo_inherit = Some a \<and> lab a 28 \<noteq> 0 \<and> lab a 56 = 0 \<and>
     FindTrieNode_inner demo_inherit ''a.b'' = Some (Ref 56, lab a 28)"
proof (rule demo_inherit_inv)
  fix a assume a: "ws_area demo_inherit = Some a"
    "area_inv a (TN 28 ''a'' Tip (TN 56 ''b'' Tip Tip Tip) Tip)" "lab a 28 \<noteq> 0" "lab a 56 = 0"
  let ?c = "TN 28 ''a'' Tip (TN 56 ''b'' Tip Tip Tip) Tip"
  have ks: "key_split ''a.b'' = ([''a'', ''b''], True)"
    using key_split_dot [of "''a''" "''b''"] by (simp add: key_split_last)
  have "lab a y = 0" if "prefix q [''a'', ''b'']" "length [''a''] < length q" "node_at ?c q = Some y" for q y
    using that a(4) by (auto simp: prefix_Cons node_at_Cons)
  then have "FindTrieNode_inner demo_inherit ''a.b'' = Some (Ref 56, lab a 28)"
    by (intro FindTrieNode_longest_label [OF a(1,2) ks, of 56 "[''a'']"]) (auto simp: node_at_Cons a)
  with a show ?thesis by blast
qed

text \<open>C7: a label is given once: adding further labels changes neither the parameters nor any label that a
  node already has.\<close>

theorem AddSecurityLabel_keeps:
  assumes "ws_inv ws" "ws_area ws = Some a" "length (ad_name ad) < 65536" "length (ad_members ad) < 65536"
  shows "\<exists>ws' a' ret. AddSecurityLabel ws ad = Some (ws', ret) \<and> ws_inv ws' \<and> ws_area ws' = Some a' \<and>
    ws_params ws' = ws_params ws \<and>
    (\<forall>off. lab a off \<noteq> 0 \<longrightarrow> lab a' off = lab a off \<and> sec_at a' (lab a off) = sec_at a (lab a off))"
proof -
  obtain c where a: "CheckWorkSpace ws = 0" "ws_area ws = Some a" "area_inv a c"
    using assms(1,2) by (auto simp: ws_inv_def)
  from a assms(3,4) obtain a' c' ret where A: "AddSecurityLabel ws ad = Some (ws\<lparr>ws_area := Some a'\<rparr>, ret)"
    "area_inv a' c'" "entry_at a' c' = entry_at a c"
    "\<forall>off. lab a off \<noteq> 0 \<longrightarrow> lab a' off = lab a off \<and> sec_at a' (lab a off) = sec_at a (lab a off)"
    by (rule AddSecurityLabel_inv)
  have "ws_params (ws\<lparr>ws_area := Some a'\<rparr>) = ws_params ws"
    using ws_params_entry [of "ws\<lparr>ws_area := Some a'\<rparr>" a' c'] ws_params_entry [OF a(2,3)] A(2,3)
    by (simp add: fun_eq_iff)
  with A ws_inv_upd [OF assms(1) A(2)] show ?thesis by auto
qed

theorem AddSecurityLabel_keeps_witness:
  "\<exists>a ws' ret. ws_area demo_ws1 = Some a \<and> AddSecurityLabel demo_ws1 (demo_label ''a'' 1) = Some (ws', ret) \<and>
     ws_inv ws' \<and> ws_params ws' = ws_params demo_ws1"
proof -
  obtain a where a: "ws_area demo_ws1 = Some a" using demo_ws1_inv by (auto simp: ws_inv_def)
  from AddSecurityLabel_keeps [OF demo_ws1_inv a, of "demo_label ''a'' 1"] a show ?thesis
    by (auto simp: demo_label_def)
qed

text \<open>C8: a traversal from the root calls the visitor on every trie node exactly once, in the order node,
  child level, smaller siblings, larger siblings, and it returns.\<close>

theorem TraversalTrieNode_visits:
  assumes "CheckWorkSpace ws = 0" "ws_area ws = Some a" "area_inv a c"
  shows "TraversalTrieNode ws NULL (\<lambda>off visited. visited @ [off]) [] = Some (0, 0 # offs c) \<and>
    distinct (0 # offs c)"
proof -
  have rep: "area_repr a c" using assms(3) by (simp add: area_inv_def)
  have "fold (\<lambda>off visited. visited @ [off]) xs ys = ys @ xs" for xs ys :: "nat list"
    by (induction xs arbitrary: ys) auto
  with TraversalTrieNode_all [OF assms(1,2) rep, of "\<lambda>off visited. visited @ [off]" "[]"]
  have "TraversalTrieNode ws NULL (\<lambda>off visited. visited @ [off]) [] = Some (0, 0 # offs c)" by simp
  moreover have "distinct (0 # offs c)" using rep unfolding area_repr_under under_def by auto
  ultimately show ?thesis by simp
qed

theorem TraversalTrieNode_visits_witness:
  "TraversalTrieNode demo_inherit NULL (\<lambda>off visited. visited @ [off]) [] = Some (0, [0, 28, 56])"
proof (rule demo_inherit_inv)
  fix a assume "ws_area demo_inherit = Some a"
    "area_inv a (TN 28 ''a'' Tip (TN 56 ''b'' Tip Tip Tip) Tip)"
  moreover have "CheckWorkSpace demo_inherit = 0" by (simp add: demo_inherit_def demo_eval)
  ultimately show ?thesis using TraversalTrieNode_visits [of demo_inherit a] by auto
qed


end
