(* ===== verification/CString.thy ===== *)
theory CString
  imports Prelude
begin

text \<open>
  The parts of the C library that the sources use on characters and numerals: \<^verbatim>\<open>ctype.h\<close> in the
  \<^verbatim>\<open>C\<close> locale, \<^verbatim>\<open>strcasecmp\<close>, \<^verbatim>\<open>strtok_r\<close>, \<^verbatim>\<open>strtoul\<close> and its relatives (\<^verbatim>\<open>long\<close> has 64 bits).
\<close>

definition ascii :: "char \<Rightarrow> nat" where
  "ascii c = of_char c"

definition isspace :: "char \<Rightarrow> bool" where
  "isspace c = (ascii c = 32 \<or> 9 \<le> ascii c \<and> ascii c \<le> 13)"

definition isdigit :: "char \<Rightarrow> bool" where
  "isdigit c = (48 \<le> ascii c \<and> ascii c \<le> 57)"

definition isalpha :: "char \<Rightarrow> bool" where
  "isalpha c = (65 \<le> ascii c \<and> ascii c \<le> 90 \<or> 97 \<le> ascii c \<and> ascii c \<le> 122)"

definition isalnum :: "char \<Rightarrow> bool" where
  "isalnum c = (isalpha c \<or> isdigit c)"

definition tolower :: "char \<Rightarrow> char" where
  "tolower c = (if 65 \<le> ascii c \<and> ascii c \<le> 90 then char_of (ascii c + 32) else c)"

text \<open>\<^verbatim>\<open>strcasecmp (a, b) == 0\<close>\<close>

definition strcasecmp_eq :: "string \<Rightarrow> string \<Rightarrow> bool" where
  "strcasecmp_eq a b = (map tolower a = map tolower b)"

subsection \<open>Numerals\<close>

definition digit_val :: "char \<Rightarrow> nat option" where
  "digit_val c =
     (let n = ascii c in
      if 48 \<le> n \<and> n \<le> 57 then Some (n - 48)
      else if 65 \<le> n \<and> n \<le> 90 then Some (n - 55)
      else if 97 \<le> n \<and> n \<le> 122 then Some (n - 87)
      else None)"

definition is_digit :: "nat \<Rightarrow> char \<Rightarrow> bool" where
  "is_digit base c = (case digit_val c of Some d \<Rightarrow> d < base | None \<Rightarrow> False)"

definition digits_value :: "nat \<Rightarrow> string \<Rightarrow> nat" where
  "digits_value base ds = foldl (\<lambda>v c. v * base + the (digit_val c)) 0 ds"

text \<open>The subject sequence of a conversion: sign, digits and the rest. In base 16 a prefix \<^verbatim>\<open>0x\<close> is skipped
  when a digit follows it.\<close>

definition scan_sign :: "string \<Rightarrow> bool \<times> string" where
  "scan_sign s =
     (case s of
        [] \<Rightarrow> (False, [])
      | c # t \<Rightarrow> if c = CHR ''-'' then (True, t) else if c = CHR ''+'' then (False, t) else (False, s))"

definition skip_0x :: "nat \<Rightarrow> string \<Rightarrow> string" where
  "skip_0x base s =
     (if base = 16 \<and> length s > 2 \<and> s ! 0 = CHR ''0'' \<and> (s ! 1 = CHR ''x'' \<or> s ! 1 = CHR ''X'') \<and> is_digit 16 (s ! 2)
      then drop 2 s else s)"

definition scan_number :: "nat \<Rightarrow> string \<Rightarrow> (bool \<times> nat \<times> string) option" where
  "scan_number base nptr =
     (let (neg, s) = scan_sign (dropWhile isspace nptr);
          t = skip_0x base s;
          ds = takeWhile (is_digit base) t
      in if ds = [] then None else Some (neg, digits_value base ds, dropWhile (is_digit base) t))"

abbreviation (input) ULLONG_MAX :: nat where "ULLONG_MAX \<equiv> 18446744073709551615"

text \<open>The value, the end pointer (the rest of the string) and whether \<^verbatim>\<open>errno\<close> is set to \<^verbatim>\<open>ERANGE\<close>.\<close>

definition strtoull :: "string \<Rightarrow> nat \<Rightarrow> nat \<times> string \<times> bool" where
  "strtoull nptr base =
     (case scan_number base nptr of
        None \<Rightarrow> (0, nptr, False)
      | Some (neg, v, rest) \<Rightarrow>
          if v > ULLONG_MAX then (ULLONG_MAX, rest, True)
          else (if neg then (ULLONG_MAX + 1 - v) mod (ULLONG_MAX + 1) else v, rest, False))"

definition strtoll :: "string \<Rightarrow> nat \<Rightarrow> int \<times> string \<times> bool" where
  "strtoll nptr base =
     (case scan_number base nptr of
        None \<Rightarrow> (0, nptr, False)
      | Some (neg, v, rest) \<Rightarrow>
          if neg then if v > 9223372036854775808 then (- 9223372036854775808, rest, True) else (- int v, rest, False)
          else if v > 9223372036854775807 then (9223372036854775807, rest, True) else (int v, rest, False))"

subsection \<open>Tokens\<close>

text \<open>\<^verbatim>\<open>strtok_r\<close>: the next token and the text behind the delimiter that ends it.\<close>

definition strtok_r :: "string \<Rightarrow> string \<Rightarrow> (string \<times> string) option" where
  "strtok_r s del =
     (let t = dropWhile (\<lambda>c. c \<in> set del) s in
      if t = [] then None
      else Some (takeWhile (\<lambda>c. c \<notin> set del) t, tl (dropWhile (\<lambda>c. c \<notin> set del) t)))"

subsection \<open>Lemmas\<close>

lemma strtok_r_length: "strtok_r s del = Some (tok, rest) \<Longrightarrow> length rest < length s"
proof -
  let ?t = "dropWhile (\<lambda>c. c \<in> set del) s"
  assume "strtok_r s del = Some (tok, rest)"
  then have t: "?t \<noteq> []" "rest = tl (dropWhile (\<lambda>c. c \<notin> set del) ?t)"
    by (auto simp: strtok_r_def Let_def split: if_splits)
  have "length ?t \<le> length s" by (rule length_dropWhile_le)
  moreover have "length (dropWhile (\<lambda>c. c \<notin> set del) ?t) \<le> length ?t" by (rule length_dropWhile_le)
  ultimately show ?thesis using t by (cases "dropWhile (\<lambda>c. c \<notin> set del) ?t"; cases ?t) auto
qed

lemma strtok_r_token:
  "strtok_r s del = Some (tok, rest) \<Longrightarrow> tok \<noteq> [] \<and> set tok \<inter> set del = {}"
proof -
  let ?t = "dropWhile (\<lambda>c. c \<in> set del) s"
  assume "strtok_r s del = Some (tok, rest)"
  then have t: "?t \<noteq> []" "tok = takeWhile (\<lambda>c. c \<notin> set del) ?t"
    by (auto simp: strtok_r_def Let_def split: if_splits)
  have "hd ?t \<notin> set del" using hd_dropWhile [of "\<lambda>c. c \<in> set del" s] t(1) by simp
  with t show ?thesis by (cases ?t) (auto dest: set_takeWhileD)
qed

lemma dropWhile_ident: "xs = [] \<or> \<not> P (hd xs) \<Longrightarrow> dropWhile P xs = xs"
  by (cases xs) auto

lemma digits_value_append: "digits_value b (xs @ ys) = foldl (\<lambda>v c. v * b + the (digit_val c)) (digits_value b xs) ys"
  by (simp add: digits_value_def)

text \<open>The decimal numeral of a number.\<close>

fun decimal :: "nat \<Rightarrow> string" where
  "decimal n = (if n < 10 then [char_of (n + 48)] else decimal (n div 10) @ [char_of (n mod 10 + 48)])"

declare decimal.simps [simp del]

lemma ascii_char_of: "n < 256 \<Longrightarrow> ascii (char_of n) = n"
  by (simp add: ascii_def)

lemma digit_char: "d < 10 \<Longrightarrow> digit_val (char_of (d + 48)) = Some d"
  by (simp add: digit_val_def ascii_char_of)

lemma decimal_digits: "c \<in> set (decimal n) \<Longrightarrow> \<exists>d < (10::nat). c = char_of (d + 48)"
proof (induction n rule: decimal.induct)
  case (1 n)
  show ?case
  proof (cases "n < 10")
    case True
    with "1.prems" show ?thesis by (auto simp: decimal.simps [of n])
  next
    case False
    with "1.prems" have "c \<in> set (decimal (n div 10)) \<or> c = char_of (n mod 10 + 48)"
      by (auto simp: decimal.simps [of n])
    moreover have "n mod 10 < 10" by simp
    ultimately show ?thesis using "1.IH" False by blast
  qed
qed

lemma decimal_not_Nil [simp]: "decimal n \<noteq> []"
  by (simp add: decimal.simps [of n])

lemma decimal_value: "digits_value 10 (decimal n) = n"
proof (induction n rule: decimal.induct)
  case (1 n)
  show ?case
  proof (cases "n < 10")
    case True
    then show ?thesis by (simp add: decimal.simps [of n] digits_value_def digit_char)
  next
    case False
    have "the (digit_val (char_of (n mod 10 + 48))) = n mod 10"
      using digit_char [of "n mod 10"] by simp
    moreover have "digits_value 10 (decimal (n div 10)) = n div 10" using "1.IH" False by simp
    ultimately show ?thesis using False
      by (simp add: decimal.simps [of n] digits_value_append)
  qed
qed

lemma decimal_is_digit: "c \<in> set (decimal n) \<Longrightarrow> is_digit 10 c \<and> isdigit c \<and> \<not> isspace c \<and> c \<noteq> CHR ''-'' \<and> c \<noteq> CHR ''+''"
proof -
  assume "c \<in> set (decimal n)"
  then obtain d :: nat where d: "d < 10" "c = char_of (d + 48)" using decimal_digits by blast
  then have a: "ascii c = d + 48" by (simp add: ascii_char_of)
  moreover have "ascii (CHR ''-'') = 45" "ascii (CHR ''+'') = 43" by (simp_all add: ascii_def)
  ultimately show ?thesis using d by (auto simp: is_digit_def digit_char isspace_def isdigit_def)
qed

lemma scan_decimal: "scan_number 10 (decimal n) = Some (False, n, [])"
proof -
  have d: "\<forall>c \<in> set (decimal n). is_digit 10 c" "hd (decimal n) \<in> set (decimal n)"
    using decimal_is_digit by auto
  note h = decimal_is_digit [OF d(2)]
  have "dropWhile isspace (decimal n) = decimal n" using h by (intro dropWhile_ident) auto
  moreover have "scan_sign (decimal n) = (False, decimal n)"
    using h by (cases "decimal n") (auto simp: scan_sign_def)
  moreover have "takeWhile (is_digit 10) (decimal n) = decimal n" "dropWhile (is_digit 10) (decimal n) = []"
    using d(1) by auto
  ultimately show ?thesis by (simp add: scan_number_def skip_0x_def decimal_value Let_def del: takeWhile_eq_all_conv dropWhile_eq_Nil_conv)
qed

lemma strtoull_decimal:
  "strtoull (decimal n) 10 = (if n > ULLONG_MAX then (ULLONG_MAX, [], True) else (n, [], False))"
  by (simp add: strtoull_def scan_decimal)

lemmas cstring_eval = ascii_def isspace_def isdigit_def isalpha_def isalnum_def tolower_def strcasecmp_eq_def
  digit_val_def is_digit_def digits_value_def scan_sign_def skip_0x_def scan_number_def strtoull_def strtoll_def
  strtok_r_def Let_def

end
