(* ===== verification/Init_Utils.thy ===== *)
theory Init_Utils
  imports CString
begin

text \<open>
  String helpers of \<^verbatim>\<open>services/utils/init_utils.c\<close>: conversions of numerals and user names, the kernel
  command line, splitting and trimming.

  A pointer into a string that is only moved forward is the remaining suffix; where the code also looks
  back (\<^verbatim>\<open>*(tmp - 1)\<close>) it is an index. The pointers \<^verbatim>\<open>value\<close> and \<^verbatim>\<open>out\<close> become results: \<^const>\<open>None\<close> is the
  return value -1. The user and group databases (\<^verbatim>\<open>getpwnam\<close>, \<^verbatim>\<open>getgrnam\<close>, \<^verbatim>\<open>getgrent\<close>) are arguments.
\<close>

subsection \<open>Numerals and identities\<close>

fun CheckDigit :: "string \<Rightarrow> bool" where
  "CheckDigit [] = True"
| "CheckDigit (c # name) = (if \<not> isdigit c then False else CheckDigit name)"

text \<open>The 64 bit result of \<^verbatim>\<open>strtoul\<close> is cast to \<^verbatim>\<open>unsigned int\<close>.\<close>

definition StringToUint :: "string \<Rightarrow> nat option" where
  "StringToUint name =
     (let (v, rest, range) = strtoull name 10 in if range then None else Some (u32 v))"

abbreviation (input) INVALID_ID :: nat where "INVALID_ID \<equiv> 4294967295"

definition DecodeUid :: "(string \<Rightarrow> nat option) \<Rightarrow> string \<Rightarrow> nat" where
  "DecodeUid getpwnam name =
     (if CheckDigit name then
        (case StringToUint name of Some uid \<Rightarrow> uid | None \<Rightarrow> INVALID_ID)
      else case getpwnam name of
        None \<Rightarrow> INVALID_ID
      | Some pw_uid \<Rightarrow> pw_uid)"

fun getgrent_find :: "(string \<times> nat) list \<Rightarrow> string \<Rightarrow> nat" where
  "getgrent_find [] name = INVALID_ID"
| "getgrent_find ((gr_name, gr_gid) # rest) name =
     (if gr_name = name then gr_gid else getgrent_find rest name)"

definition DecodeGid :: "(string \<Rightarrow> nat option) \<Rightarrow> (string \<times> nat) list \<Rightarrow> string \<Rightarrow> nat" where
  "DecodeGid getgrnam groups name =
     (if CheckDigit name then
        (case StringToUint name of Some gid \<Rightarrow> gid | None \<Rightarrow> INVALID_ID)
      else case getgrnam name of
        Some gr_gid \<Rightarrow> gr_gid
      | None \<Rightarrow> getgrent_find groups name)"

definition StringToInt :: "string \<Rightarrow> int \<Rightarrow> int" where
  "StringToInt str defaultValue =
     (if str = [] then defaultValue
      else let (v, rest, range) = strtoull str 10 in
           if range then defaultValue
           else signed_take_bit 31 (int v))"

definition StringToLL :: "string \<Rightarrow> int option" where
  "StringToLL str =
     (let s = dropWhile isspace str;
          len = length s;
          positiveHex = (len > 1 \<and> s ! 0 = CHR ''0'' \<and> (s ! 1 = CHR ''x'' \<or> s ! 1 = CHR ''X''));
          negativeHex = (len > 2 \<and> s ! 0 = CHR ''-'' \<and> s ! 1 = CHR ''0'' \<and> (s ! 2 = CHR ''x'' \<or> s ! 2 = CHR ''X''));
          base = (if positiveHex \<or> negativeHex then 16 else 10);
          (v, end, range) = strtoll s base
      in if range then None
         else if end = s \<or> end \<noteq> [] then None
         else Some v)"

definition StringToULL :: "string \<Rightarrow> nat option" where
  "StringToULL str =
     (let s = dropWhile isspace str in
      if s \<noteq> [] \<and> s ! 0 = CHR ''-'' then None
      else
        (let base = (if length s > 1 \<and> s ! 0 = CHR ''0'' \<and> (s ! 1 = CHR ''x'' \<or> s ! 1 = CHR ''X'') then 16 else 10);
             (v, end, range) = strtoull s base
         in if range then None
            else if end = s then None
            else if end \<noteq> [] then None
            else Some v))"

subsection \<open>Splitting and trimming\<close>

text \<open>The pairs given to the callback; the result is their number and the state of the callback.\<close>

function IterateNameValuePairs_loop ::
  "(string \<times> string \<Rightarrow> 's \<Rightarrow> 's) \<Rightarrow> string \<Rightarrow> nat \<Rightarrow> 's \<Rightarrow> nat \<times> 's" where
  "IterateNameValuePairs_loop iterator tmp cnt context =
     (let (valueEnd, rest) =
            (case strchr tmp (CHR '' '') of
               None \<Rightarrow> (length tmp, None)
             | Some seperator \<Rightarrow> (length tmp - length seperator, Some (tl seperator)));
          (cnt', context') =
            (case strchr tmp (CHR ''='') of
               None \<Rightarrow> (cnt, context)
             | Some seperator \<Rightarrow>
                 (let nameEnd = length tmp - length seperator in
                  if nameEnd > valueEnd then (cnt, context)
                  else (cnt + 1, iterator (take nameEnd tmp, drop (nameEnd + 1) (take valueEnd tmp)) context)))
      in case rest of
           None \<Rightarrow> (cnt', context')
         | Some tmp' \<Rightarrow> IterateNameValuePairs_loop iterator tmp' cnt' context')"
  by pat_completeness auto
termination
proof (relation "measure (\<lambda>(it, tmp, cnt, ctx). length tmp)", goal_cases)
  case (2 it tmp cnt ctx x valueEnd rest y cnt' ctx' tmp')
  then obtain s where "strchr tmp (CHR '' '') = Some s" "tmp' = tl s" by (auto split: option.splits)
  with strchr_Some_dropWhile [of tmp] strchr_Some_length [of tmp] show ?case by (cases s) fastforce+
qed simp

declare IterateNameValuePairs_loop.simps [simp del]

definition IterateNameValuePairs :: "(string \<times> string \<Rightarrow> 's \<Rightarrow> 's) \<Rightarrow> string \<Rightarrow> 's \<Rightarrow> nat \<times> 's" where
  "IterateNameValuePairs iterator src context = IterateNameValuePairs_loop iterator src 0 context"

text \<open>\<^verbatim>\<open>SplitString\<close>: the filled part of \<^verbatim>\<open>dstPtr\<close>; the return value is its length. For \<^verbatim>\<open>maxNum = 0\<close> the
  first token is stored although the count is 0.\<close>

fun SplitString_loop :: "nat \<Rightarrow> string \<Rightarrow> string \<Rightarrow> string list" where
  "SplitString_loop 0 srcPtr del = []"
| "SplitString_loop (Suc maxNum) srcPtr del =
     (case strtok_r srcPtr del of
        None \<Rightarrow> []
      | Some (tok, buf) \<Rightarrow> tok # SplitString_loop maxNum buf del)"

definition SplitString :: "string \<Rightarrow> string \<Rightarrow> nat \<Rightarrow> nat \<times> string list" where
  "SplitString srcPtr del maxNum =
     (let dstPtr = SplitString_loop maxNum srcPtr del in (length dstPtr, dstPtr))"

text \<open>\<^verbatim>\<open>SplitStringExt\<close> with the capacity of the array \<^verbatim>\<open>items\<close>; \<^const>\<open>None\<close> stands for a write behind its end.\<close>

function SplitStringExt_loop :: "string \<Rightarrow> string \<Rightarrow> nat \<Rightarrow> string list \<Rightarrow> (string list \<times> nat) exec" where
  "SplitStringExt_loop buffer del itemCounts items =
     (case strtok_r buffer del of
        None \<Rightarrow> Some (items, itemCounts)
      | Some (p, rest) \<Rightarrow>
          (let itemCounts' = (if int (length items) > int itemCounts - 1
                              then itemCounts + (itemCounts div 2 + 1) else itemCounts)
           in if length items < itemCounts'
              then SplitStringExt_loop rest del itemCounts' (items @ [p])
              else None))"
  by pat_completeness auto
termination
  by (relation "measure (\<lambda>(buffer, del, n, items). length buffer)") (auto dest: strtok_r_length)

declare SplitStringExt_loop.simps [simp del]

definition SplitStringExt :: "string \<Rightarrow> string \<Rightarrow> nat \<Rightarrow> string list exec" where
  "SplitStringExt buffer del maxItemCount =
     map_option fst (SplitStringExt_loop buffer del (if maxItemCount > 50 then 50 else maxItemCount) [])"

fun StringReplaceChr :: "string \<Rightarrow> char \<Rightarrow> char \<Rightarrow> string" where
  "StringReplaceChr [] oldChr newChr = []"
| "StringReplaceChr (p # strl) oldChr newChr =
     (if p = oldChr then newChr else p) # StringReplaceChr strl oldChr newChr"

text \<open>\<^verbatim>\<open>TrimTail\<close> runs from the last character down; \<^verbatim>\<open>k\<close> is the number of characters left.\<close>

fun TrimTail_loop :: "string \<Rightarrow> char \<Rightarrow> nat \<Rightarrow> string" where
  "TrimTail_loop str c 0 = []"
| "TrimTail_loop str c (Suc k) = (if str ! k = c then TrimTail_loop str c k else take (Suc k) str)"

definition TrimTail :: "string \<Rightarrow> char \<Rightarrow> string" where
  "TrimTail str c = TrimTail_loop str c (length str)"

fun TrimHead :: "string \<Rightarrow> char \<Rightarrow> string" where
  "TrimHead [] c = []"
| "TrimHead (h # str) c = (if h = c then TrimHead str c else h # str)"

subsection \<open>The kernel command line\<close>

definition strstr_at :: "string \<Rightarrow> nat \<Rightarrow> string \<Rightarrow> nat option" where
  "strstr_at buffer i name = map_option (\<lambda>t. length buffer - length t) (strstr (drop i buffer) name)"

definition skip_blanks :: "string \<Rightarrow> nat \<Rightarrow> nat" where
  "skip_blanks buffer i = i + length (takeWhile (\<lambda>c. c = CHR '' '') (drop i buffer))"

lemma strstr_at_ge: "strstr_at buffer i name = Some t \<Longrightarrow> i \<le> t \<and> t \<le> length buffer \<or> length buffer < i"
proof -
  assume "strstr_at buffer i name = Some t"
  then obtain s where s: "strstr (drop i buffer) name = Some s" "t = length buffer - length s"
    by (auto simp: strstr_at_def)
  then have "length s \<le> length buffer - i"
    using strstr_Some_suffix [OF s(1)] suffix_length_le [of s "drop i buffer"] by simp
  with s(2) show ?thesis by linarith
qed

text \<open>The search loop of \<^verbatim>\<open>GetProcCmdlineValue\<close>: the position at which it stops, if it does not return -1.\<close>

function GetProcCmdlineValue_find :: "string \<Rightarrow> string \<Rightarrow> nat option \<Rightarrow> nat option" where
  "GetProcCmdlineValue_find name buffer tmp =
     (case tmp of
        None \<Rightarrow> None
      | Some t \<Rightarrow>
         (let t1 = skip_blanks buffer (t + length name) in
          if t1 \<ge> length buffer then None
          else if buffer ! t1 = CHR ''='' then Some t1
          else
            (let next = strstr_at buffer (t1 + 1) name in
             case next of
               Some u \<Rightarrow> if u < length buffer then GetProcCmdlineValue_find name buffer (Some u) else Some u
             | None \<Rightarrow> None)))"
  by pat_completeness auto
termination
proof (relation "measure (\<lambda>(name, buffer, tmp). length buffer - (case tmp of None \<Rightarrow> 0 | Some t \<Rightarrow> t))", goal_cases)
  case (2 name buffer tmp t t1 nx u)
  from strstr_at_ge [of buffer "t1 + 1" name u] 2 have "t1 < u" "u \<le> length buffer" by auto
  moreover have "t \<le> t1" using 2 by (simp add: skip_blanks_def)
  moreover have "strstr_at buffer (Suc (skip_blanks buffer (t + length name))) name = Some u" using 2 by simp
  ultimately show ?case using 2 by auto
qed simp

declare GetProcCmdlineValue_find.simps [simp del]

text \<open>The copy loop. Its flag \<^verbatim>\<open>endIndex\<close> is 0 whenever an equals sign is read, so the copy starts again there.\<close>

fun GetProcCmdlineValue_copy :: "nat \<Rightarrow> string \<Rightarrow> string \<Rightarrow> string option" where
  "GetProcCmdlineValue_copy len [] acc = (if length acc < len then Some acc else None)"
| "GetProcCmdlineValue_copy len (c # tmp) acc =
     (if length acc < len then
        if c = CHR '' '' \<or> c = CHR 0x0A \<or> c = CHR 0x0D \<or> c = CHR 0x09 then Some acc
        else if c = CHR ''='' then GetProcCmdlineValue_copy len tmp []
        else GetProcCmdlineValue_copy len tmp (acc @ [c])
      else None)"

definition GetProcCmdlineValue :: "string \<Rightarrow> string \<Rightarrow> nat \<Rightarrow> string option" where
  "GetProcCmdlineValue name buffer len =
     (case GetProcCmdlineValue_find name buffer (strstr_at buffer 0 name) of
        None \<Rightarrow> None
      | Some tmp \<Rightarrow> GetProcCmdlineValue_copy len (drop (skip_blanks buffer (tmp + 1)) buffer) [])"

text \<open>\<^verbatim>\<open>GetCmdlineValueByName\<close>: the position behind the equals sign. The outer option is the one of a loop that
  need not end.\<close>

partial_function (option) GetCmdlineValueByName_loop :: "string \<Rightarrow> string \<Rightarrow> nat \<Rightarrow> nat option exec" where
  "GetCmdlineValueByName_loop name buffer tmp =
     (case strstr_at buffer tmp name of
        None \<Rightarrow> Some None
      | Some t \<Rightarrow>
         if t > 0 \<and> buffer ! (t - 1) \<noteq> CHR '' '' then
           (if t + 1 < length buffer then GetCmdlineValueByName_loop name buffer (t + 1) else Some None)
         else
           (let t' = t + length name in
            if t' \<ge> length buffer then Some None
            else if buffer ! t' = CHR ''='' then Some (Some (t' + 1))
            else GetCmdlineValueByName_loop name buffer t'))"

definition GetCmdlineValueByName :: "string \<Rightarrow> string \<Rightarrow> nat option exec" where
  "GetCmdlineValueByName name buffer = GetCmdlineValueByName_loop name buffer 0"

text \<open>\<^verbatim>\<open>GetExactProcCmdlineValue\<close>: the return value and the value copied, if any.\<close>

definition GetExactProcCmdlineValue :: "string \<Rightarrow> string \<Rightarrow> nat \<Rightarrow> (int \<times> string) exec" where
  "GetExactProcCmdlineValue name buffer len = do {
     pos \<leftarrow> GetCmdlineValueByName name buffer;
     case pos of
       None \<Rightarrow> Some (- 1, [])
     | Some p \<Rightarrow> do {
         temp \<leftarrow> GetCmdlineValueByName name (drop p buffer);
         case temp of
           None \<Rightarrow>
             (let v = take len (takeWhile (\<lambda>c. c \<noteq> CHR '' '') (drop p buffer)) in
              if length v \<ge> len then Some (- 1, []) else Some (0, v))
         | Some _ \<Rightarrow> Some (1, [])
       }
   }"

subsection \<open>Tables of strings\<close>

definition str_compare :: "bool \<Rightarrow> string \<Rightarrow> string \<Rightarrow> bool" where
  "str_compare ignoreCase a b = (if ignoreCase then strcasecmp_eq a b else a = b)"

fun StrArray_index :: "bool \<Rightarrow> string list \<Rightarrow> string \<Rightarrow> nat \<Rightarrow> nat option" where
  "StrArray_index ic [] target i = None"
| "StrArray_index ic (x # xs) target i = (if str_compare ic x target then Some i else StrArray_index ic xs target (i + 1))"

text \<open>The array ends at its NULL entry; \<^verbatim>\<open>extend\<close> may be absent.\<close>

definition OH_ExtendableStrArrayGetIndex :: "string list \<Rightarrow> string \<Rightarrow> bool \<Rightarrow> string list option \<Rightarrow> int" where
  "OH_ExtendableStrArrayGetIndex strArray target ignoreCase extend =
     (if target = [] then - 1
      else case StrArray_index ignoreCase strArray target 0 of
        Some i \<Rightarrow> int i
      | None \<Rightarrow>
         (case extend of
            None \<Rightarrow> - 1
          | Some ext \<Rightarrow>
             (case StrArray_index ignoreCase ext target (length strArray) of Some i \<Rightarrow> int i | None \<Rightarrow> - 1)))"

definition OH_StrArrayGetIndex :: "string list \<Rightarrow> string \<Rightarrow> bool \<Rightarrow> int" where
  "OH_StrArrayGetIndex strArray target ignoreCase = OH_ExtendableStrArrayGetIndex strArray target ignoreCase None"

text \<open>A dictionary is an array of structures whose first member is the key; \<^verbatim>\<open>dictSize\<close> is the size of one.\<close>

fun StrDict_find :: "bool \<Rightarrow> (string \<times> 'v) list \<Rightarrow> string \<Rightarrow> (string \<times> 'v) option" where
  "StrDict_find ic [] target = None"
| "StrDict_find ic (p # ps) target = (if str_compare ic (fst p) target then Some p else StrDict_find ic ps target)"

definition OH_ExtendableStrDictGet ::
  "(string \<times> 'v) list \<Rightarrow> nat \<Rightarrow> string \<Rightarrow> bool \<Rightarrow> (string \<times> 'v) list option \<Rightarrow> (string \<times> 'v) option" where
  "OH_ExtendableStrDictGet strDict dictSize target ignoreCase extendStrDict =
     (if dictSize < 8 \<or> target = [] then None
      else case StrDict_find ignoreCase strDict target of
        Some p \<Rightarrow> Some p
      | None \<Rightarrow> (case extendStrDict of None \<Rightarrow> None | Some ext \<Rightarrow> StrDict_find ignoreCase ext target))"

definition OH_StrDictGet :: "(string \<times> 'v) list \<Rightarrow> nat \<Rightarrow> string \<Rightarrow> bool \<Rightarrow> (string \<times> 'v) option" where
  "OH_StrDictGet strDict dictSize target ignoreCase = OH_ExtendableStrDictGet strDict dictSize target ignoreCase None"

subsection \<open>Times\<close>

text \<open>A \<^verbatim>\<open>struct timespec\<close> is the pair of seconds and nanoseconds.\<close>

definition InitDiffTime :: "int \<times> int \<Rightarrow> int \<times> int \<Rightarrow> int" where
  "InitDiffTime startTime endTime =
     (let diff = (fst endTime - fst startTime) * 1000000 in
      if snd endTime > snd startTime then diff + (snd endTime - snd startTime) div 1000
      else diff - (snd startTime - snd endTime) div 1000)"

definition IntervalTime :: "int \<times> int \<Rightarrow> int \<times> int \<Rightarrow> nat" where
  "IntervalTime startTime endTime =
     u32 (nat (if fst endTime > fst startTime then fst endTime - fst startTime else fst startTime - fst endTime))"

definition GetUptimeInMicroSeconds :: "int \<times> int \<Rightarrow> int" where
  "GetUptimeInMicroSeconds uptime = fst uptime * 1000000 + snd uptime div 1000"

subsection \<open>Lemmas\<close>

lemma decimal_no_0x: "\<not> (length (decimal n) > 1 \<and> decimal n ! 0 = CHR ''0'' \<and> (decimal n ! 1 = CHR ''x'' \<or> decimal n ! 1 = CHR ''X''))"
proof
  assume a: "length (decimal n) > 1 \<and> decimal n ! 0 = CHR ''0'' \<and> (decimal n ! 1 = CHR ''x'' \<or> decimal n ! 1 = CHR ''X'')"
  then have "isdigit (decimal n ! 1)" using decimal_is_digit nth_mem by blast
  with a show False by (auto simp: isdigit_def ascii_def)
qed

lemma CheckDigit_iff: "CheckDigit s \<longleftrightarrow> (\<forall>c \<in> set s. isdigit c)"
  by (induction s) auto

lemma dropWhile_space_decimal: "dropWhile isspace (decimal n) = decimal n"
  by (rule dropWhile_ident) (use decimal_is_digit [of "hd (decimal n)" n] in auto)

lemma decimal_hd_minus: "decimal n ! 0 \<noteq> CHR ''-''"
  using decimal_is_digit [of "decimal n ! 0" n] by simp

lemma strstr_Some_drop:
  "strstr s n = Some t \<Longrightarrow> \<exists>k \<le> length s. t = drop k s \<and> prefix n t \<and> (\<forall>j < k. \<not> prefix n (drop j s))"
proof (induction s)
  case (Cons x xs)
  show ?case
  proof (cases "prefix n (x # xs)")
    case True
    with Cons.prems show ?thesis by (intro exI [of _ 0]) auto
  next
    case False
    with Cons.prems have "strstr xs n = Some t" by simp
    then obtain k where k: "k \<le> length xs" "t = drop k xs" "prefix n t" "\<forall>j < k. \<not> prefix n (drop j xs)"
      using Cons.IH by blast
    have "\<not> prefix n (drop j (x # xs))" if "j < Suc k" for j
      using that k(4) False by (cases j) auto
    with k show ?thesis by (intro exI [of _ "Suc k"]) auto
  qed
qed (auto split: if_splits)

lemma strstr_None_drop: "strstr s n = None \<Longrightarrow> \<not> prefix n (drop j s)"
  by (meson prefix_imp_sublist strstr_None_iff sublist_drop sublist_order.order.trans)

lemma strstr_at_Some:
  assumes "strstr_at b i n = Some t" "i \<le> length b"
  shows "i \<le> t" "t \<le> length b" "prefix n (drop t b)" "\<forall>u. i \<le> u \<longrightarrow> u < t \<longrightarrow> \<not> prefix n (drop u b)"
proof -
  from assms(1) obtain s where s: "strstr (drop i b) n = Some s" "t = length b - length s"
    by (auto simp: strstr_at_def)
  then obtain k where k: "k \<le> length b - i" "s = drop k (drop i b)" "prefix n s"
    "\<forall>j < k. \<not> prefix n (drop j (drop i b))"
    using strstr_Some_drop [OF s(1)] by auto
  have t: "t = i + k" using s(2) k(1,2) assms(2) by simp
  show "i \<le> t" "t \<le> length b" "prefix n (drop t b)" using t k assms(2) by (auto simp: add.commute)
  show "\<forall>u. i \<le> u \<longrightarrow> u < t \<longrightarrow> \<not> prefix n (drop u b)"
  proof (intro allI impI)
    fix u assume u: "i \<le> u" "u < t"
    then have "u - i < k" using t by simp
    with k(4) have "\<not> prefix n (drop (u - i) (drop i b))" by blast
    with u show "\<not> prefix n (drop u b)" by simp
  qed
qed

lemma strstr_at_None: "strstr_at b i n = None \<Longrightarrow> i \<le> u \<Longrightarrow> \<not> prefix n (drop u b)"
  using strstr_None_drop [of "drop i b" n "u - i"] by (simp add: strstr_at_def)

text \<open>An exact occurrence of an entry of the command line: at its start or behind a blank.\<close>

definition exact_at :: "string \<Rightarrow> string \<Rightarrow> nat \<Rightarrow> bool" where
  "exact_at name b t = (prefix (name @ ''='') (drop t b) \<and> (t = 0 \<or> b ! (t - 1) = CHR '' ''))"

lemma prefix_nth_drop: "prefix p (drop t b) \<Longrightarrow> i < length p \<Longrightarrow> t + i < length b \<and> b ! (t + i) = p ! i"
proof -
  assume a: "prefix p (drop t b)" "i < length p"
  then have "length p \<le> length b - t" using prefix_length_le by fastforce
  moreover obtain r where "drop t b = p @ r" using a(1) by (auto simp: prefix_def)
  ultimately show ?thesis using a(2) nth_drop [of t b i] by (cases "t \<le> length b") (auto simp: nth_append)
qed

lemma exact_at_name: "exact_at name b t \<Longrightarrow> prefix name (drop t b)"
  by (auto simp: exact_at_def prefix_def)

lemma exact_at_less: "exact_at name b t \<Longrightarrow> t + length name < length b \<and> b ! (t + length name) = CHR ''=''"
  using prefix_nth_drop [of "name @ ''=''" t b "length name"] by (auto simp: exact_at_def)

lemma GetCmdlineValueByName_loop_first:
  assumes "name \<noteq> []" "CHR '' '' \<notin> set name" "tmp \<le> length b" "\<forall>u < tmp. \<not> exact_at name b u"
  shows "\<exists>r. GetCmdlineValueByName_loop name b tmp = Some r \<and>
    (r = None \<longrightarrow> (\<forall>t. \<not> exact_at name b t)) \<and>
    (\<forall>p. r = Some p \<longrightarrow> (\<exists>t. exact_at name b t \<and> p = t + length name + 1 \<and> (\<forall>u < t. \<not> exact_at name b u)))"
  using assms(3,4)
proof (induction "length b - tmp" arbitrary: tmp rule: less_induct)
  case less
  show ?case
  proof (cases "strstr_at b tmp name")
    case None
    have "\<not> exact_at name b t" for t
      using less.prems(2) strstr_at_None [OF None] exact_at_name by (cases "t < tmp") fastforce+
    with None show ?thesis by (simp add: GetCmdlineValueByName_loop.simps)
  next
    case (Some t)
    note t = strstr_at_Some [OF Some less.prems(1)]
    have below: "\<forall>u < t. \<not> exact_at name b u"
      using less.prems(2) t(4) exact_at_name by (metis linorder_not_less)
    have nl: "0 < length name" using assms(1) by simp
    have tl: "t + length name \<le> length b" using prefix_length_le [OF t(3)] t(2) by simp
    consider (inner) "t > 0 \<and> b ! (t - 1) \<noteq> CHR '' ''" "t + 1 < length b"
      | (last) "t > 0 \<and> b ! (t - 1) \<noteq> CHR '' ''" "\<not> t + 1 < length b"
      | (full) "\<not> (t > 0 \<and> b ! (t - 1) \<noteq> CHR '' '')" "t + length name \<ge> length b"
      | (hit) "\<not> (t > 0 \<and> b ! (t - 1) \<noteq> CHR '' '')" "t + length name < length b" "b ! (t + length name) = CHR ''=''"
      | (other) "\<not> (t > 0 \<and> b ! (t - 1) \<noteq> CHR '' '')" "t + length name < length b" "b ! (t + length name) \<noteq> CHR ''=''"
      by linarith
    then show ?thesis
    proof cases
      case inner
      have "\<not> exact_at name b t" using inner(1) by (simp add: exact_at_def)
      with below have "\<forall>u < t + 1. \<not> exact_at name b u" by (metis Suc_eq_plus1 less_Suc_eq)
      moreover have "GetCmdlineValueByName_loop name b tmp = GetCmdlineValueByName_loop name b (t + 1)"
        using Some inner by (subst GetCmdlineValueByName_loop.simps) simp
      moreover have "length b - (t + 1) < length b - tmp" using t(1) inner(2) by linarith
      ultimately show ?thesis using less.hyps [of "t + 1"] inner(2) by simp
    next
      case last
      have "\<not> exact_at name b u" for u
        using below exact_at_less [of name b u] last nl by (cases "u < t") (auto simp: exact_at_def)
      moreover have "GetCmdlineValueByName_loop name b tmp = Some None"
        using Some last by (subst GetCmdlineValueByName_loop.simps) simp
      ultimately show ?thesis by simp
    next
      case full
      have "\<not> exact_at name b u" for u
        using below exact_at_less [of name b u] full(2) by (cases "u < t") auto
      moreover have "GetCmdlineValueByName_loop name b tmp = Some None"
        using Some full by (subst GetCmdlineValueByName_loop.simps) auto
      ultimately show ?thesis by simp
    next
      case hit
      obtain r where r: "drop t b = name @ r" using t(3) by (auto simp: prefix_def)
      have "r ! 0 = CHR ''=''" "r \<noteq> []"
        using hit(2,3) r nth_drop [of t b "length name"] t(2) by (auto simp: nth_append)
      then have "prefix (name @ ''='') (drop t b)" using r by (cases r) auto
      then have "exact_at name b t" using hit(1) by (auto simp: exact_at_def)
      moreover have "GetCmdlineValueByName_loop name b tmp = Some (Some (t + length name + 1))"
        using Some hit by (subst GetCmdlineValueByName_loop.simps) auto
      ultimately show ?thesis using below by auto
    next
      case other
      let ?t' = "t + length name"
      have "\<not> exact_at name b u" if "u < ?t'" for u
      proof (cases "u \<le> t")
        case True
        with below exact_at_less [of name b t] other(3) show ?thesis by (cases "u = t") auto
      next
        case False
        then have "b ! (u - 1) = name ! (u - 1 - t)" "u - 1 - t < length name"
          using prefix_nth_drop [OF t(3), of "u - 1 - t"] that by auto
        with assms(2) False show ?thesis by (auto simp: exact_at_def in_set_conv_nth)
      qed
      moreover have "GetCmdlineValueByName_loop name b tmp = GetCmdlineValueByName_loop name b ?t'"
        using Some other by (subst GetCmdlineValueByName_loop.simps) auto
      moreover have "length b - ?t' < length b - tmp" using t(1) other(2) nl by linarith
      ultimately show ?thesis using less.hyps [of ?t'] other(2) by simp
    qed
  qed
qed

lemma GetCmdlineValueByName_first:
  assumes "name \<noteq> []" "CHR '' '' \<notin> set name"
  obtains (none) "GetCmdlineValueByName name b = Some None" "\<forall>t. \<not> exact_at name b t"
  | (found) t where "GetCmdlineValueByName name b = Some (Some (t + length name + 1))"
      "exact_at name b t" "\<forall>u < t. \<not> exact_at name b u"
proof -
  obtain r where r: "GetCmdlineValueByName_loop name b 0 = Some r"
    "r = None \<longrightarrow> (\<forall>t. \<not> exact_at name b t)"
    "\<forall>p. r = Some p \<longrightarrow> (\<exists>t. exact_at name b t \<and> p = t + length name + 1 \<and> (\<forall>u < t. \<not> exact_at name b u))"
    using GetCmdlineValueByName_loop_first [OF assms, of 0 b] by auto
  show thesis
  proof (cases r)
    case None
    with r none show thesis by (simp add: GetCmdlineValueByName_def)
  next
    case (Some p)
    with r(3) obtain t where "exact_at name b t" "p = t + length name + 1" "\<forall>u < t. \<not> exact_at name b u" by blast
    with r(1) Some found show thesis by (simp add: GetCmdlineValueByName_def)
  qed
qed

lemma exact_at_behind:
  assumes "exact_at name b t" "exact_at name b u" "t < u" "CHR '' '' \<notin> set name"
  shows "exact_at name (drop (t + length name + 1) b) (u - (t + length name + 1))"
proof -
  let ?p = "t + length name + 1"
  have "?p < u"
  proof (rule ccontr)
    assume n: "\<not> ?p < u"
    then have i: "u - 1 - t < length (name @ ''='')" "t + (u - 1 - t) = u - 1" using assms(3) by simp_all
    then have "b ! (u - 1) = (name @ ''='') ! (u - 1 - t)"
      using prefix_nth_drop [of "name @ ''=''" t b "u - 1 - t"] assms(1) by (simp add: exact_at_def)
    moreover have "(name @ ''='') ! (u - 1 - t) \<in> set (name @ ''='')" using i(1) by (rule nth_mem)
    moreover have "CHR '' '' \<notin> set (name @ ''='')" using assms(4) by simp
    ultimately have "b ! (u - 1) \<noteq> CHR '' ''" by metis
    with assms(2,3) show False by (simp add: exact_at_def)
  qed
  moreover have "?p \<le> length b" using exact_at_less [OF assms(1)] by simp
  moreover have "drop (u - ?p) (drop ?p b) = drop u b" using \<open>?p < u\<close> by simp
  moreover have "drop ?p b ! (u - ?p - 1) = b ! (u - 1)"
  proof -
    have "?p + (u - ?p - 1) = u - 1" using \<open>?p < u\<close> by simp
    then show ?thesis using nth_drop [OF \<open>?p \<le> length b\<close>, of "u - ?p - 1"] by metis
  qed
  ultimately show ?thesis using assms(2,3) by (simp add: exact_at_def)
qed

text \<open>The command line of a list of pairs.\<close>

fun cmdline :: "(string \<times> string) list \<Rightarrow> string" where
  "cmdline [] = []"
| "cmdline [p] = fst p @ ''='' @ snd p"
| "cmdline (p # ps) = fst p @ ''='' @ snd p @ '' '' @ cmdline ps"

lemma strchr_absent_append: "c \<notin> set xs \<Longrightarrow> strchr (xs @ ys) c = strchr ys c"
  by (induction xs) auto

lemma Iterate_last:
  assumes "CHR '' '' \<notin> set n" "CHR ''='' \<notin> set n" "CHR '' '' \<notin> set v"
  shows "IterateNameValuePairs_loop it (n @ ''='' @ v) cnt ctx = (cnt + 1, it (n, v) ctx)"
proof -
  have "strchr (n @ ''='' @ v) (CHR '' '') = None" using assms by (simp add: strchr_None_iff)
  moreover have "strchr (n @ ''='' @ v) (CHR ''='') = Some (''='' @ v)" using assms(2) by (simp add: strchr_absent_append)
  ultimately show ?thesis by (subst IterateNameValuePairs_loop.simps) (simp add: Let_def)
qed

lemma Iterate_step:
  assumes "CHR '' '' \<notin> set n" "CHR ''='' \<notin> set n" "CHR '' '' \<notin> set v"
  shows "IterateNameValuePairs_loop it (n @ ''='' @ v @ '' '' @ rest) cnt ctx =
    IterateNameValuePairs_loop it rest (cnt + 1) (it (n, v) ctx)"
proof -
  have "strchr (n @ ''='' @ v @ '' '' @ rest) (CHR '' '') = Some ('' '' @ rest)"
    using assms strchr_absent_append [of "CHR '' ''" "n @ ''='' @ v" "'' '' @ rest"] by simp
  moreover have "strchr (n @ ''='' @ v @ '' '' @ rest) (CHR ''='') = Some (''='' @ v @ '' '' @ rest)"
    using assms(2) by (simp add: strchr_absent_append)
  ultimately show ?thesis by (subst IterateNameValuePairs_loop.simps) (simp add: Let_def)
qed

lemma Iterate_cmdline:
  assumes "\<forall>(n, v) \<in> set ps. CHR '' '' \<notin> set n \<and> CHR ''='' \<notin> set n \<and> CHR '' '' \<notin> set v" "ps \<noteq> []"
  shows "IterateNameValuePairs_loop it (cmdline ps) cnt ctx = (cnt + length ps, fold it ps ctx)"
  using assms
proof (induction ps arbitrary: cnt ctx rule: cmdline.induct)
  case (2 p)
  then show ?case using Iterate_last [of "fst p" "snd p"] by (cases p) auto
next
  case (3 p q ps)
  then show ?case using Iterate_step [of "fst p" "snd p" it "cmdline (q # ps)"] by (cases p) auto
qed simp

lemma SplitStringExt_loop_all:
  assumes "length items \<le> n" "length b \<le> k"
  shows "\<exists>n'. SplitStringExt_loop b del n items = Some (items @ SplitString_loop k b del, n')"
  using assms
proof (induction b del n items arbitrary: k rule: SplitStringExt_loop.induct)
  case (1 b del n items)
  show ?case
  proof (cases "strtok_r b del")
    case None
    then show ?thesis by (cases k) (simp_all add: SplitStringExt_loop.simps)
  next
    case (Some pr)
    obtain tok rest where pr: "pr = (tok, rest)" by fastforce
    note len = strtok_r_length [OF Some [unfolded pr]]
    obtain k' where k: "k = Suc k'" using len "1.prems"(2) by (cases k) auto
    define n2 where "n2 = (if int (length items) > int n - 1 then n + (n div 2 + 1) else n)"
    have n2: "length items < n2" using "1.prems"(1) by (auto simp: n2_def)
    have "\<exists>n'. SplitStringExt_loop rest del n2 (items @ [tok]) = Some ((items @ [tok]) @ SplitString_loop k' rest del, n')"
      using "1.IH" [OF Some, of tok rest n2 k'] pr n2 n2_def len k "1.prems"(2) by simp
    moreover have "SplitStringExt_loop b del n items = SplitStringExt_loop rest del n2 (items @ [tok])"
      using Some pr n2 by (subst SplitStringExt_loop.simps) (simp add: Let_def n2_def)
    ultimately show ?thesis using Some pr k by simp
  qed
qed

subsection \<open>Properties\<close>

text \<open>C31: \<open>StringToULL\<close> reads back every decimal numeral up to the largest 64 bit number and rejects every
  larger one; it never returns a wrapped value.\<close>

theorem StringToULL_decimal: "StringToULL (decimal n) = (if n \<le> ULLONG_MAX then Some n else None)"
proof -
  have "(if length (decimal n) > 1 \<and> decimal n ! 0 = CHR ''0'' \<and> (decimal n ! 1 = CHR ''x'' \<or> decimal n ! 1 = CHR ''X'')
      then 16 else 10) = (10 :: nat)" using decimal_no_0x [of n] by auto
  with decimal_hd_minus [of n] show ?thesis
    by (simp add: StringToULL_def dropWhile_space_decimal strtoull_decimal Let_def decimal_not_Nil [symmetric])
qed

text \<open>The identity that \<open>DecodeUid\<close> gives to a numeral is the number modulo \<open>2 ^ 32\<close>, since the result of
  \<open>strtoul\<close> is cast: the numeral 4294967296 and the empty string denote the user root.\<close>

theorem DecodeUid_wraps:
  "DecodeUid getpwnam (decimal n) = (if n \<le> ULLONG_MAX then n mod 4294967296 else INVALID_ID) \<and>
   DecodeUid getpwnam (decimal 4294967296) = 0 \<and> DecodeUid getpwnam [] = 0"
proof -
  have d: "DecodeUid getpwnam (decimal m) = (if m \<le> ULLONG_MAX then m mod 4294967296 else INVALID_ID)" for m
    using decimal_is_digit [of _ m]
    by (simp add: DecodeUid_def CheckDigit_iff StringToUint_def strtoull_decimal u32_def Let_def)
  then show ?thesis
    by (simp add: DecodeUid_def StringToUint_def strtoull_def scan_number_def scan_sign_def skip_0x_def u32_def)
qed



text \<open>Iterating over the name value pairs of a line visits exactly the pairs the line was made of, in
  order, and returns their number.\<close>

theorem IterateNameValuePairs_roundtrip:
  assumes "\<forall>(n, v) \<in> set ps. CHR '' '' \<notin> set n \<and> CHR ''='' \<notin> set n \<and> CHR '' '' \<notin> set v" "ps \<noteq> []"
  shows "IterateNameValuePairs (\<lambda>p visited. visited @ [p]) (cmdline ps) [] = (length ps, ps)"
proof -
  have "fold (\<lambda>p visited. visited @ [p]) xs ys = ys @ xs" for xs ys :: "(string \<times> string) list"
    by (induction xs arbitrary: ys) auto
  then show ?thesis using Iterate_cmdline [OF assms, of "\<lambda>p visited. visited @ [p]" 0 "[]"]
    by (simp add: IterateNameValuePairs_def)
qed

theorem IterateNameValuePairs_roundtrip_witness:
  "IterateNameValuePairs (\<lambda>p visited. visited @ [p]) ''a=b=c d='' [] = (2, [(''a'', ''b=c''), (''d'', [])])"
  using IterateNameValuePairs_roundtrip [of "[(''a'', ''b=c''), (''d'', [])]"] by simp

text \<open>The splitting with a growing array never writes behind its capacity and delivers every token, like
  the bounded splitting with enough slots.\<close>

theorem SplitStringExt_all:
  "SplitStringExt buffer del maxItemCount = Some (snd (SplitString buffer del (length buffer)))"
  using SplitStringExt_loop_all [of "[]" "if maxItemCount > 50 then 50 else maxItemCount" buffer "length buffer" del]
  by (auto simp: SplitStringExt_def SplitString_def Let_def)

end
