(* ===== verification/Param_Space.thy ===== *)
theory Param_Space
  imports Param_Demo CString
begin

text \<open>
  The process-wide parameter space: the structures of \<^verbatim>\<open>services/param/include/param_manager.h\<close> and
  \<^verbatim>\<open>param_security.h\<close>, the access to its workspaces and the line parser of
  \<^verbatim>\<open>services/param/base/param_comm.c\<close>, the permission checks of \<^verbatim>\<open>services/param/base/param_base.c\<close> and the
  label files of \<^verbatim>\<open>services/param/adapter/param_dac.c\<close>.

  The configuration is the one without \<^verbatim>\<open>PARAM_SUPPORT_SELINUX\<close>: all parameters and labels live in the
  workspace at index 0. A pointer to a workspace is \<^const>\<open>None\<close> for NULL; an operation that changes the
  workspace writes it back with \<^verbatim>\<open>put_space\<close>. The user and group databases are arguments.
\<close>

subsection \<open>Structures\<close>

record UserCred =
  uc_pid :: int
  uc_uid :: nat
  uc_gid :: nat

record ParamSecurityLabel =
  sl_sockFd :: int
  sl_cred :: UserCred
  sl_flags :: "32 word"

text \<open>A function pointer of \<^verbatim>\<open>ParamSecurityOps\<close> is represented by whether it is set: each has one
  implementation.\<close>

record ParamSecurityOps =
  so_name :: string
  so_securityInitLabel :: bool
  so_securityGetLabel :: bool
  so_securityCheckFilePermission :: bool
  so_securityFreeLabel :: bool

record PARAM_WORKSPACE_OPS =
  op_updaterMode :: nat
  op_logFunc :: bool
  op_getServiceGroupIdByPid :: "(int \<Rightarrow> nat list) option"

record ParamWorkSpace =
  pw_flags :: "32 word"
  pw_securityLabel :: ParamSecurityLabel
  pw_paramSecurityOps :: ParamSecurityOps
  pw_ops :: PARAM_WORKSPACE_OPS
  pw_checkParamPermission :: bool
  pw_maxSpaceCount :: nat
  pw_maxLabelIndex :: nat
  pw_workSpace :: "WorkSpace option list option"

definition PARAM_WORKSPACE_CHECK :: "ParamWorkSpace \<Rightarrow> bool" where
  "PARAM_WORKSPACE_CHECK pw = (pw_flags pw AND WORKSPACE_FLAGS_INIT = WORKSPACE_FLAGS_INIT)"

subsection \<open>Access to the workspaces (param_comm.c)\<close>

definition GetWorkSpaceByName :: "ParamWorkSpace \<Rightarrow> string \<Rightarrow> WorkSpace option exec" where
  "GetWorkSpaceByName paramSpace name =
     (case pw_workSpace paramSpace of Some (ws # _) \<Rightarrow> Some ws | _ \<Rightarrow> None)"

definition GetWorkSpace :: "ParamWorkSpace \<Rightarrow> nat \<Rightarrow> WorkSpace option exec" where
  "GetWorkSpace paramSpace labelIndex =
     (case pw_workSpace paramSpace of
        None \<Rightarrow> Some None
      | Some spaces \<Rightarrow>
         if \<not> PARAM_WORKSPACE_CHECK paramSpace then Some None
         else (case spaces of ws # _ \<Rightarrow> Some ws | [] \<Rightarrow> None))"

definition put_space :: "ParamWorkSpace \<Rightarrow> WorkSpace \<Rightarrow> ParamWorkSpace" where
  "put_space paramSpace ws =
     paramSpace\<lparr>pw_workSpace := map_option (\<lambda>spaces. Some ws # tl spaces) (pw_workSpace paramSpace)\<rparr>"

definition GetParamSecurityLabel :: "ParamWorkSpace \<Rightarrow> ParamSecurityLabel" where
  "GetParamSecurityLabel paramSpace = pw_securityLabel paramSpace"

text \<open>\<^verbatim>\<open>FindTrieNode\<close> on a workspace pointer that may be NULL.\<close>

definition FindTrieNode_in :: "WorkSpace option \<Rightarrow> string \<Rightarrow> (ptr \<times> nat) exec" where
  "FindTrieNode_in space name = (case space of None \<Rightarrow> Some (NULL, 0) | Some ws \<Rightarrow> FindTrieNode ws name)"

text \<open>\<^verbatim>\<open>GetTrieNode\<close> on a workspace pointer, for a security label.\<close>

definition GetLabel_in :: "WorkSpace option \<Rightarrow> nat \<Rightarrow> ParamSecurityNode option exec" where
  "GetLabel_in space labelIndex =
     (case space of
        None \<Rightarrow> Some None
      | Some ws \<Rightarrow>
         (case ws_area ws of
            None \<Rightarrow> Some None
          | Some a \<Rightarrow>
             (case GetTrieNode a labelIndex of
                NULL \<Rightarrow> Some None
              | Ref off \<Rightarrow> map_option Some (sec_at a off))))"

subsection \<open>Lines of parameter files (param_comm.c)\<close>

text \<open>The value without the blanks around it, and without the quotes around that.\<close>

definition trim_blanks :: "string \<Rightarrow> string" where
  "trim_blanks value = rev (dropWhile isspace (rev (dropWhile isspace value)))"

definition strip_quotes :: "string \<Rightarrow> string" where
  "strip_quotes value =
     (if value \<noteq> [] \<and> hd value = CHR 0x22 \<and> length value > 1 \<and> last value = CHR 0x22
      then butlast (tl value) else value)"

text \<open>What \<^verbatim>\<open>SplitParamString\<close> hands to its callback; \<^const>\<open>None\<close> when it returns 0 without a call.\<close>

definition SplitParamString_pair :: "string \<Rightarrow> string list \<Rightarrow> (string \<times> string) option" where
  "SplitParamString_pair line exclude =
     (let name = dropWhile isspace line in
      if name = [] \<or> hd name = CHR ''#'' then None
      else case strchr name (CHR ''='') of
        None \<Rightarrow> None
      | Some eq \<Rightarrow>
         (let value = tl eq;
              name1 = takeWhile (\<lambda>c. \<not> isspace c) (take (length name - length eq) name)
          in if value = [] then None
             else if \<exists>ex \<in> set exclude. strncmp_eq name1 ex (length ex) then None
             else Some (name1, strip_quotes (trim_blanks value))))"

definition SplitParamString ::
  "string \<Rightarrow> string list \<Rightarrow> ('c \<Rightarrow> string \<Rightarrow> string \<Rightarrow> ('c \<times> int) exec) \<Rightarrow> 'c \<Rightarrow> ('c \<times> int) exec" where
  "SplitParamString line exclude result context =
     (case SplitParamString_pair line exclude of
        None \<Rightarrow> Some (context, 0)
      | Some (name, value) \<Rightarrow> result context name value)"

subsection \<open>Permission checks (param_base.c)\<close>

abbreviation (input) DAC_READ :: nat where "DAC_READ \<equiv> 0x100"
abbreviation (input) DAC_WRITE :: nat where "DAC_WRITE \<equiv> 0x80"
abbreviation (input) DAC_WATCH :: nat where "DAC_WATCH \<equiv> 0x40"
abbreviation (input) DAC_GROUP_START :: nat where "DAC_GROUP_START \<equiv> 3"
abbreviation (input) DAC_OTHER_START :: nat where "DAC_OTHER_START \<equiv> 6"
abbreviation (input) DAC_RESULT_PERMISSION :: int where "DAC_RESULT_PERMISSION \<equiv> 0"
abbreviation (input) PUBLIC_APP_BEGIN_UID :: nat where "PUBLIC_APP_BEGIN_UID \<equiv> 10000"

fun CheckUserInGroup :: "nat list \<Rightarrow> nat \<Rightarrow> int" where
  "CheckUserInGroup [] uid = - 1"
| "CheckUserInGroup (m # members) uid = (if m = uid then 0 else CheckUserInGroup members uid)"

text \<open>The loop over the groups of the service of a writer.\<close>

fun ServiceGroup_loop :: "nat list \<Rightarrow> ParamSecurityNode \<Rightarrow> nat \<Rightarrow> int" where
  "ServiceGroup_loop [] node localMode = DAC_RESULT_FORBIDED"
| "ServiceGroup_loop (gid # gids) node localMode =
     (if gid \<noteq> sn_gid node then ServiceGroup_loop gids node localMode
      else if sn_mode node AND localMode \<noteq> 0 then DAC_RESULT_PERMISSION
      else ServiceGroup_loop gids node localMode)"

definition DacCheckGroupPermission ::
  "ParamWorkSpace \<Rightarrow> ParamSecurityLabel \<Rightarrow> nat \<Rightarrow> ParamSecurityNode \<Rightarrow> int" where
  "DacCheckGroupPermission pw srcLabel mode node =
     (let localMode = drop_bit DAC_GROUP_START (mode AND (DAC_READ OR DAC_WRITE OR DAC_WATCH)) in
      if uc_gid (sl_cred srcLabel) = sn_gid node \<and> sn_mode node AND localMode \<noteq> 0 then DAC_RESULT_PERMISSION
      else case op_getServiceGroupIdByPid (pw_ops pw) of
        None \<Rightarrow> DAC_RESULT_FORBIDED
      | Some getGids \<Rightarrow>
          if mode \<noteq> DAC_WRITE then DAC_RESULT_FORBIDED
          else ServiceGroup_loop (getGids (uc_pid (sl_cred srcLabel))) node localMode)"

text \<open>\<^verbatim>\<open>musl\<close> is the macro \<^verbatim>\<open>__MUSL__\<close>; without it a refusal is only logged.\<close>

definition DacCheckParamPermission ::
  "bool \<Rightarrow> ParamWorkSpace \<Rightarrow> WorkSpace option \<Rightarrow> nat \<Rightarrow> ParamSecurityLabel \<Rightarrow> string \<Rightarrow> nat \<Rightarrow> int exec" where
  "DacCheckParamPermission musl pw space dacLabelIndex srcLabel name mode =
     (if uc_uid (sl_cred srcLabel) = 0 then Some DAC_RESULT_PERMISSION
      else do {
        label \<leftarrow> GetLabel_in space dacLabelIndex;
        case label of
          None \<Rightarrow> Some DAC_RESULT_FORBIDED
        | Some node \<Rightarrow>
           (let req = mode AND (DAC_READ OR DAC_WRITE OR DAC_WATCH) in
            if sn_mode node AND drop_bit DAC_OTHER_START req \<noteq> 0 then Some DAC_RESULT_PERMISSION
            else if uc_uid (sl_cred srcLabel) = sn_uid node \<and> sn_mode node AND req \<noteq> 0 then Some DAC_RESULT_PERMISSION
            else if DacCheckGroupPermission pw srcLabel mode node = DAC_RESULT_PERMISSION then Some DAC_RESULT_PERMISSION
            else if CheckUserInGroup (sn_members node) (uc_uid (sl_cred srcLabel)) = 0 \<and>
                    sn_mode node AND drop_bit DAC_GROUP_START req \<noteq> 0 then Some DAC_RESULT_PERMISSION
            else Some (if musl then DAC_RESULT_FORBIDED else DAC_RESULT_PERMISSION))
      })"

text \<open>The function installed as \<^verbatim>\<open>checkParamPermission\<close> (not on LiteOS).\<close>

definition BaseCheckParamPermission ::
  "bool \<Rightarrow> ParamWorkSpace \<Rightarrow> WorkSpace option \<Rightarrow> nat \<Rightarrow> ParamSecurityLabel \<Rightarrow> string \<Rightarrow> nat \<Rightarrow> int exec" where
  "BaseCheckParamPermission musl pw space dacLabelIndex srcLabel name mode =
     (if uc_uid (sl_cred srcLabel) = 0 \<and> uc_pid (sl_cred srcLabel) = 1 \<and> mode = DAC_WRITE
      then Some DAC_RESULT_PERMISSION
      else if uc_uid (sl_cred srcLabel) < PUBLIC_APP_BEGIN_UID
      then DacCheckParamPermission musl pw space dacLabelIndex srcLabel name mode
      else Some 0)"

text \<open>The lookup of the client library: \<^verbatim>\<open>FindTrieNode\<close> without lock and without log.\<close>

definition BaseFindTrieNode :: "WorkSpace \<Rightarrow> string \<Rightarrow> (ptr \<times> nat) exec" where
  "BaseFindTrieNode ws key =
     (if key = [] then Some (NULL, 0)
      else do {
        (node, matchLabel) \<leftarrow> FindTrieNode_inner ws key;
        case (node, ws_area ws) of
          (Ref off, Some a) \<Rightarrow> do {
            n \<leftarrow> trie_at a off;
            if tn_dataIndex n \<noteq> 0 then
              (case GetTrieNode a (tn_dataIndex n) of
                 NULL \<Rightarrow> Some (NULL, matchLabel)
               | Ref d \<Rightarrow> do {
                   entry \<leftarrow> param_at a d;
                   Some (if pn_keyLength entry = length key then node else NULL, matchLabel)
                 })
            else Some (node, matchLabel)
          }
        | _ \<Rightarrow> Some (node, matchLabel)
      })"

text \<open>\<^verbatim>\<open>ReadParamWithCheck\<close>: the return value, the workspace and the node.\<close>

definition ReadParamWithCheck ::
  "bool \<Rightarrow> ParamWorkSpace \<Rightarrow> string \<Rightarrow> nat \<Rightarrow> (int \<times> WorkSpace option \<times> ptr) exec" where
  "ReadParamWithCheck musl pw name op = do {
     dacSpace \<leftarrow> (case pw_workSpace pw of Some (ws # _) \<Rightarrow> Some ws | _ \<Rightarrow> None);
     case dacSpace of
       None \<Rightarrow> Some (DAC_RESULT_FORBIDED, None, NULL)
     | Some dac \<Rightarrow>
         if ws_area dac = None then Some (DAC_RESULT_FORBIDED, None, NULL)
         else do {
           (node, dacLabelIndex) \<leftarrow> BaseFindTrieNode dac name;
           workspace \<leftarrow> GetWorkSpaceByName pw name;
           case workspace of
             None \<Rightarrow> Some (DAC_RESULT_FORBIDED, None, node)
           | Some ws \<Rightarrow> do {
               ret \<leftarrow> BaseCheckParamPermission musl pw (Some dac) dacLabelIndex (pw_securityLabel pw) name op;
               if ret \<noteq> 0 then Some (ret, None, node) else Some (ret, Some ws, node)
             }
         }
   }"

subsection \<open>Label files (param_dac.c)\<close>

abbreviation (input) MAX_MEMBER_IN_GROUP :: nat where "MAX_MEMBER_IN_GROUP \<equiv> 128"
abbreviation (input) INVALID_UID :: nat where "INVALID_UID \<equiv> 4294967295"

record Identities =
  getpwnam :: "string \<Rightarrow> nat option"
  getgrnam :: "string \<Rightarrow> nat option"
  getgrent :: "(string \<times> nat) list"
  getgrgid :: "nat \<Rightarrow> (string \<times> string list) option"

definition GetUserIdByName :: "Identities \<Rightarrow> string \<Rightarrow> nat" where
  "GetUserIdByName ids name = (case getpwnam ids name of None \<Rightarrow> INVALID_UID | Some pw_uid \<Rightarrow> pw_uid)"

definition GetGroupIdByName :: "Identities \<Rightarrow> string \<Rightarrow> nat" where
  "GetGroupIdByName ids name =
     (case getgrnam ids name of
        Some gr_gid \<Rightarrow> gr_gid
      | None \<Rightarrow> (case map_of (getgrent ids) name of Some gid \<Rightarrow> gid | None \<Rightarrow> INVALID_UID))"

record ParamDacData =
  dd_uid :: nat
  dd_gid :: nat
  dd_mode :: nat
  dd_paramType :: nat

definition paramTypes :: "(string \<times> nat) list" where
  "paramTypes = [(''int'', PARAM_TYPE_INT), (''string'', PARAM_TYPE_STRING), (''bool'', PARAM_TYPE_BOOL)]"

text \<open>A line \<^verbatim>\<open>user:group:mode[:type]\<close>; \<^const>\<open>None\<close> is the return value -1.\<close>

definition GetParamDacData :: "Identities \<Rightarrow> string \<Rightarrow> ParamDacData option" where
  "GetParamDacData ids value =
     (case strchr value (CHR '':'') of
        None \<Rightarrow> None
      | Some groupName \<Rightarrow>
         (case strchr (tl groupName) (CHR '':'') of
            None \<Rightarrow> None
          | Some mode \<Rightarrow>
             (let user = take (length value - length groupName) value;
                  grp = take (length groupName - length mode - 1) (tl groupName);
                  (modeText, paramType) =
                    (case strchr (tl mode) (CHR '':'') of
                       None \<Rightarrow> (tl mode, PARAM_TYPE_STRING)
                     | Some type \<Rightarrow>
                         (take (length (tl mode) - length type) (tl mode),
                          foldl (\<lambda>t (n, v). if n = tl type then v else t) PARAM_TYPE_STRING paramTypes))
              in Some \<lparr>dd_uid = GetUserIdByName ids user, dd_gid = GetGroupIdByName ids grp,
                       dd_mode = nat (fst (strtoll modeText 8) mod 65536), dd_paramType = paramType\<rparr>)))"

fun DacGetGroupMember_loop :: "Identities \<Rightarrow> string list \<Rightarrow> nat \<Rightarrow> nat list \<Rightarrow> nat list" where
  "DacGetGroupMember_loop ids [] inputLen member = member"
| "DacGetGroupMember_loop ids (nm # gr_mem) inputLen member =
     (let uid = GetUserIdByName ids nm in
      if uid = INVALID_UID then DacGetGroupMember_loop ids gr_mem inputLen member
      else if length member + 1 > inputLen then member
      else DacGetGroupMember_loop ids gr_mem inputLen (member @ [uid]))"

definition DacGetGroupMember :: "Identities \<Rightarrow> nat \<Rightarrow> nat \<Rightarrow> nat list" where
  "DacGetGroupMember ids gid inputLen =
     (case getgrgid ids gid of
        None \<Rightarrow> []
      | Some (gr_name, gr_mem) \<Rightarrow>
         (let member = DacGetGroupMember_loop ids gr_mem inputLen [];
              uid = GetUserIdByName ids gr_name
          in if uid \<noteq> INVALID_UID \<and> length member + 1 < inputLen then member @ [uid] else member))"

text \<open>\<^verbatim>\<open>LoadOneParam_\<close> as the callback of \<^verbatim>\<open>SplitParamString\<close>, on the workspace of the labels.\<close>

definition LoadOneParam :: "Identities \<Rightarrow> WorkSpace \<Rightarrow> string \<Rightarrow> string \<Rightarrow> (WorkSpace \<times> int) exec" where
  "LoadOneParam ids ws name value =
     (case GetParamDacData ids value of
        None \<Rightarrow> Some (ws, - 1)
      | Some dac \<Rightarrow>
          AddSecurityLabel ws
            \<lparr>ad_uid = dd_uid dac, ad_gid = dd_gid dac, ad_mode = dd_mode dac, ad_paramType = dd_paramType dac,
             ad_name = name, ad_members = DacGetGroupMember ids (dd_gid dac) MAX_MEMBER_IN_GROUP\<rparr>)"

text \<open>\<^verbatim>\<open>LoadParamLabels\<close> on the lines of its file.\<close>

fun LoadParamLabels :: "Identities \<Rightarrow> string list \<Rightarrow> WorkSpace \<Rightarrow> (WorkSpace \<times> int) exec" where
  "LoadParamLabels ids [] ws = Some (ws, 0)"
| "LoadParamLabels ids (buff # fp) ws = do {
     (ws', result) \<leftarrow> SplitParamString buff [] (LoadOneParam ids) ws;
     if result \<noteq> 0 then Some (ws', result) else LoadParamLabels ids fp ws'
   }"

subsection \<open>Lemmas\<close>

lemma CheckUserInGroup_iff: "CheckUserInGroup ms uid = 0 \<longleftrightarrow> uid \<in> set ms"
  by (induction ms) auto

lemma ServiceGroup_loop_iff:
  "ServiceGroup_loop gids node m = 0 \<longleftrightarrow> sn_gid node \<in> set gids \<and> sn_mode node AND m \<noteq> 0"
  by (induction gids) auto

text \<open>Bit \<^verbatim>\<open>k\<close> of a class of users: 2 is read, 1 is write, 0 is watch.\<close>

lemma dac_request:
  assumes "k < 3"
  shows "(2 :: nat) ^ (6 + k) AND (DAC_READ OR DAC_WRITE OR DAC_WATCH) = 2 ^ (6 + k)"
    "drop_bit DAC_OTHER_START ((2 :: nat) ^ (6 + k)) = 2 ^ k" "drop_bit DAC_GROUP_START ((2 :: nat) ^ (6 + k)) = 2 ^ (3 + k)"
proof -
  have "k = 0 \<or> k = 1 \<or> k = 2" using assms by linarith
  then show "(2 :: nat) ^ (6 + k) AND (DAC_READ OR DAC_WRITE OR DAC_WATCH) = 2 ^ (6 + k)"
    "drop_bit DAC_OTHER_START ((2 :: nat) ^ (6 + k)) = 2 ^ k" "drop_bit DAC_GROUP_START ((2 :: nat) ^ (6 + k)) = 2 ^ (3 + k)"
    by (auto simp: drop_bit_eq_div)
qed

lemma mode_bit: "(m :: nat) AND 2 ^ k \<noteq> 0 \<longleftrightarrow> bit m k"
  by (simp add: and_exp_eq_0_iff_not_bit)

text \<open>Who is granted access by a label.\<close>

definition granted :: "ParamWorkSpace \<Rightarrow> UserCred \<Rightarrow> ParamSecurityNode \<Rightarrow> nat \<Rightarrow> bool" where
  "granted pw cred node k =
     (bit (sn_mode node) k \<or>
      uc_uid cred = sn_uid node \<and> bit (sn_mode node) (6 + k) \<or>
      (uc_gid cred = sn_gid node \<or> uc_uid cred \<in> set (sn_members node) \<or>
       k = 1 \<and> (\<exists>f. op_getServiceGroupIdByPid (pw_ops pw) = Some f \<and> sn_gid node \<in> set (f (uc_pid cred)))) \<and>
      bit (sn_mode node) (3 + k))"

lemma DacCheckGroupPermission_iff:
  assumes "k < 3"
  shows "DacCheckGroupPermission pw src (2 ^ (6 + k)) node = 0 \<longleftrightarrow>
    (uc_gid (sl_cred src) = sn_gid node \<or>
     k = 1 \<and> (\<exists>f. op_getServiceGroupIdByPid (pw_ops pw) = Some f \<and> sn_gid node \<in> set (f (uc_pid (sl_cred src))))) \<and>
    bit (sn_mode node) (3 + k)"
proof -
  have "(2 :: nat) ^ (6 + k) = DAC_WRITE \<longleftrightarrow> k = 1"
    using power_inject_exp [of "2 :: nat" "6 + k" 7] by auto
  then show ?thesis
    unfolding DacCheckGroupPermission_def Let_def dac_request(1) [OF assms] dac_request(3) [OF assms] mode_bit
    using mode_bit [of "sn_mode node" 4] by (auto simp: ServiceGroup_loop_iff mode_bit split: option.splits)
qed

lemma DacGetGroupMember_loop_length:
  "length member \<le> n \<Longrightarrow> length (DacGetGroupMember_loop ids ms n member) \<le> n"
  by (induction ids ms n member rule: DacGetGroupMember_loop.induct) (auto simp: Let_def)

lemma DacGetGroupMember_length: "length (DacGetGroupMember ids gid n) \<le> n"
  using DacGetGroupMember_loop_length [of "[]" n ids]
  by (auto simp: DacGetGroupMember_def Let_def split: option.splits)

lemma SplitParamString_pair_length:
  "SplitParamString_pair line ex = Some (name, value) \<Longrightarrow> length name \<le> length line"
proof -
  assume "SplitParamString_pair line ex = Some (name, value)"
  then have "\<exists>eq :: string. name = takeWhile (\<lambda>c. \<not> isspace c) (take (length (dropWhile isspace line) - length eq) (dropWhile isspace line))"
    unfolding SplitParamString_pair_def Let_def by (auto split: if_splits option.splits)
  then obtain eq :: string where "name = takeWhile (\<lambda>c. \<not> isspace c) (take (length (dropWhile isspace line) - length eq) (dropWhile isspace line))" ..
  then have "length name \<le> length (dropWhile isspace line)"
    using length_takeWhile_le [of "\<lambda>c. \<not> isspace c" "take (length (dropWhile isspace line) - length eq) (dropWhile isspace line)"]
    by simp
  then show ?thesis using length_dropWhile_le [of isspace line] by linarith
qed

lemma dropWhile_blanks: "\<forall>c \<in> set xs. P c \<Longrightarrow> dropWhile P (xs @ ys) = dropWhile P ys"
  by (induction xs) auto

lemma takeWhile_blanks: "\<forall>c \<in> set xs. P c \<Longrightarrow> ys = [] \<or> \<not> P (hd ys) \<Longrightarrow> takeWhile P (xs @ ys) = xs"
  by (induction xs) (cases ys; auto)+

lemma strchr_behind: "c \<notin> set xs \<Longrightarrow> strchr (xs @ c # ys) c = Some (c # ys)"
  by (induction xs) auto

lemma trim_value:
  assumes "\<forall>c \<in> set b3. isspace c" "\<forall>c \<in> set b4. isspace c" "value \<noteq> []" "\<not> isspace (hd value)" "\<not> isspace (last value)"
  shows "trim_blanks (b3 @ value @ b4) = value"
proof -
  have "dropWhile isspace (b3 @ value @ b4) = value @ b4"
    using assms by (simp add: dropWhile_blanks dropWhile_ident)
  moreover have "dropWhile isspace (rev b4 @ rev value) = rev value"
    using assms by (simp add: dropWhile_blanks dropWhile_ident hd_rev)
  ultimately show ?thesis by (simp add: trim_blanks_def)
qed

lemma SplitParamString_pair_parts:
  assumes "\<forall>c \<in> set b1. isspace c" "\<forall>c \<in> set b2. isspace c"
    and "name \<noteq> []" "\<forall>c \<in> set name. \<not> isspace c \<and> c \<noteq> CHR ''=''" "hd name \<noteq> CHR ''#''" "rest \<noteq> []"
  shows "SplitParamString_pair (b1 @ name @ b2 @ ''='' @ rest) [] =
    Some (name, strip_quotes (trim_blanks rest))"
proof -
  let ?n = "name @ b2 @ ''='' @ rest"
  have hd: "\<not> isspace (hd ?n)" using assms(3,4) by (cases name) auto
  have 1: "dropWhile isspace (b1 @ ?n) = ?n"
    using assms(1) hd by (simp add: dropWhile_blanks dropWhile_ident)
  have "CHR ''='' \<notin> set b2" using assms(2) by (auto simp: isspace_def ascii_def)
  then have 2: "strchr ?n (CHR ''='') = Some (CHR ''='' # rest)"
    using strchr_behind [of "CHR ''=''" "name @ b2" rest] assms(4) by auto
  have 3: "takeWhile (\<lambda>c. \<not> isspace c) (name @ b2) = name"
    using assms(2,4) by (intro takeWhile_blanks) (auto intro: hd_in_set)
  have 4: "hd ?n \<noteq> CHR ''#''" using assms(3,5) by (cases name) auto
  show ?thesis
    unfolding SplitParamString_pair_def 1 Let_def using 2 3 4 assms(3,6) by simp
qed

subsection \<open>Properties\<close>

text \<open>A line of a parameter file is read back whatever blanks surround the name and the value: an unquoted
  value is delivered as written, of a quoted value the text between the quotes.\<close>

theorem SplitParamString_padded:
  assumes "\<forall>c \<in> set b1 \<union> set b2 \<union> set b3 \<union> set b4. isspace c"
    and "name \<noteq> []" "\<forall>c \<in> set name. \<not> isspace c \<and> c \<noteq> CHR ''=''" "hd name \<noteq> CHR ''#''"
  shows "SplitParamString_pair (b1 @ name @ b2 @ ''='' @ b3 @ (CHR 0x22 # value @ [CHR 0x22]) @ b4) [] = Some (name, value) \<and>
    (value \<noteq> [] \<and> \<not> isspace (hd value) \<and> \<not> isspace (last value) \<and> hd value \<noteq> CHR 0x22 \<longrightarrow>
     SplitParamString_pair (b1 @ name @ b2 @ ''='' @ b3 @ value @ b4) [] = Some (name, value))"
proof (intro conjI impI)
  let ?q = "CHR 0x22 # value @ [CHR 0x22]"
  have b: "\<forall>c \<in> set b1. isspace c" "\<forall>c \<in> set b2. isspace c" "\<forall>c \<in> set b3. isspace c" "\<forall>c \<in> set b4. isspace c"
    using assms(1) by auto
  have "trim_blanks (b3 @ ?q @ b4) = ?q"
    by (rule trim_value [OF b(3,4)]) (simp_all add: isspace_def ascii_def)
  moreover have "strip_quotes ?q = value" by (simp add: strip_quotes_def)
  ultimately show "SplitParamString_pair (b1 @ name @ b2 @ ''='' @ b3 @ ?q @ b4) [] = Some (name, value)"
    using SplitParamString_pair_parts [OF b(1,2) assms(2-4), of "b3 @ ?q @ b4"] by simp
  assume v: "value \<noteq> [] \<and> \<not> isspace (hd value) \<and> \<not> isspace (last value) \<and> hd value \<noteq> CHR 0x22"
  then have "trim_blanks (b3 @ value @ b4) = value"
    by (intro trim_value [OF b(3,4)]) simp_all
  moreover have "strip_quotes value = value" using v by (simp add: strip_quotes_def)
  ultimately show "SplitParamString_pair (b1 @ name @ b2 @ ''='' @ b3 @ value @ b4) [] = Some (name, value)"
    using v SplitParamString_pair_parts [OF b(1,2) assms(2-4), of "b3 @ value @ b4"] by simp
qed

theorem SplitParamString_padded_witness:
  "SplitParamString_pair ('' '' @ ''a.b'' @ '' '' @ ''='' @ [] @ (CHR 0x22 # ''v w'' @ [CHR 0x22]) @ [CHR 0x0A]) [] = Some (''a.b'', ''v w'') \<and>
   SplitParamString_pair ('' '' @ ''a.b'' @ '' '' @ ''='' @ [] @ ''v w'' @ [CHR 0x0A]) [] = Some (''a.b'', ''v w'')"
  using SplitParamString_padded [of "'' ''" "'' ''" "[]" "[CHR 0x0A]" "''a.b''" "''v w''"]
  by (simp add: isspace_def ascii_def)

text \<open>C28: the discretionary access check grants exactly what the label of a parameter says: the bits for
  everybody, the owner's bits for the owner, the group's bits for the group, for its listed members and, for
  writing, for a service that runs with that group.\<close>

theorem DacCheckParamPermission_granted:
  assumes "GetLabel_in space l = Some (Some node)" "uc_uid (sl_cred src) \<noteq> 0" "k < 3"
  shows "DacCheckParamPermission True pw space l src name (2 ^ (6 + k)) =
    Some (if granted pw (sl_cred src) node k then DAC_RESULT_PERMISSION else DAC_RESULT_FORBIDED)"
  unfolding DacCheckParamPermission_def Let_def dac_request [OF assms(3)] mode_bit CheckUserInGroup_iff
    DacCheckGroupPermission_iff [OF assms(3)]
  using assms(1,2) by (auto simp: granted_def)

theorem DacCheckParamPermission_granted_witness:
  "\<exists>ws pw src. GetLabel_in (Some ws) 28 = Some (Some \<lparr>sn_uid = 5, sn_gid = 6, sn_selinuxIndex = 0, sn_mode = 0x1A0, sn_type = 0, sn_members = [7]\<rparr>) \<and>
     uc_uid (sl_cred src) = 7 \<and>
     DacCheckParamPermission True pw (Some ws) 28 src ''a'' (2 ^ (6 + 2)) = Some 0 \<and>
     DacCheckParamPermission True pw (Some ws) 28 src ''a'' (2 ^ (6 + 1)) = Some DAC_RESULT_FORBIDED"
proof -
  let ?n = "\<lparr>sn_uid = 5, sn_gid = 6, sn_selinuxIndex = 0, sn_mode = 0x1A0, sn_type = 0, sn_members = [7]\<rparr> :: ParamSecurityNode"
  let ?a = "\<lparr>hd_commitId = 0, hd_commitPersistId = 0, hd_trieNodeCount = 0, hd_paramNodeCount = 0,
     hd_securityNodeCount = 0, hd_currOffset = 60, hd_spaceSizeOffset = 0, hd_firstNode = 0,
     hd_dataSize = 100, hd_data = [28 \<mapsto> SecCell ?n]\<rparr>"
  let ?ws = "\<lparr>ws_flags = 1, ws_area = Some ?a, ws_spaceSize = 148, ws_spaceIndex = 0, ws_fileName = []\<rparr>"
  define src where "src = \<lparr>sl_sockFd = 0, sl_cred = \<lparr>uc_pid = 9, uc_uid = 7, uc_gid = 8\<rparr>, sl_flags = 0\<rparr>"
  define pw where "pw = \<lparr>pw_flags = 1, pw_securityLabel = src, pw_paramSecurityOps = undefined,
    pw_ops = \<lparr>op_updaterMode = 0, op_logFunc = False, op_getServiceGroupIdByPid = None\<rparr>,
    pw_checkParamPermission = True, pw_maxSpaceCount = 1, pw_maxLabelIndex = 1, pw_workSpace = Some [Some ?ws]\<rparr>"
  have l: "GetLabel_in (Some ?ws) 28 = Some (Some ?n)" by (simp add: GetLabel_in_def GetTrieNode_def sec_at_def)
  have u: "uc_uid (sl_cred src) = 7" by (simp add: src_def)
  have "granted pw (sl_cred src) ?n 2" "\<not> granted pw (sl_cred src) ?n 1"
    by (auto simp: granted_def src_def pw_def bit_iff_odd)
  with DacCheckParamPermission_granted [OF l, of src 2 pw "''a''"] DacCheckParamPermission_granted [OF l, of src 1 pw "''a''"] u l
  show ?thesis by (intro exI [of _ ?ws] exI [of _ pw] exI [of _ src]) simp
qed



end
