(* ===== verification/Param_Manager.thy ===== *)
theory Param_Manager
  imports Param_Space Init_Utils
begin

text \<open>
  Reading and writing parameters: \<^verbatim>\<open>services/param/manager/param_manager.c\<close> and the control tables of
  \<^verbatim>\<open>services/modules/init_hook/param_hook.c\<close>, on the parameter space of \<^verbatim>\<open>Param_Space\<close>. Out parameters are
  results; \<^verbatim>\<open>value == NULL\<close> (ask for the length only) is the argument \<^verbatim>\<open>False\<close> of the read operations.
  The read operations of this theory are those of a reader without interference; \<^verbatim>\<open>ReadParamValue\<close> is defined for any.
\<close>

subsection \<open>Names and values\<close>

definition IS_READY_ONLY :: "string \<Rightarrow> bool" where
  "IS_READY_ONLY name =
     (strncmp_eq name ''const.'' 6 \<or> strncmp_eq name ''ro.'' 3 \<or> strncmp_eq name ''ohos.boot.'' 10)"

text \<open>The loop over the characters; \<^verbatim>\<open>prev\<close> is the character before.\<close>

fun CheckParamName_loop :: "char option \<Rightarrow> string \<Rightarrow> int" where
  "CheckParamName_loop prev [] = 0"
| "CheckParamName_loop prev (c # name) =
     (if c = CHR ''.'' then
        if prev = Some (CHR ''.'') then PARAM_CODE_INVALID_NAME
        else CheckParamName_loop (Some c) name
      else if c = CHR ''_'' \<or> c = CHR ''-'' \<or> c = CHR ''@'' \<or> c = CHR '':'' then CheckParamName_loop (Some c) name
      else if isalnum c then CheckParamName_loop (Some c) name
      else PARAM_CODE_INVALID_NAME)"

definition CheckParamName :: "string \<Rightarrow> bool \<Rightarrow> int" where
  "CheckParamName name info =
     (let nameLen = length name in
      if nameLen \<ge> PARAM_NAME_LEN_MAX then PARAM_CODE_INVALID_NAME
      else if name = ''#'' then 0
      else if nameLen < 1 \<or> name ! 0 = CHR ''.'' \<or> \<not> info \<and> name ! (nameLen - 1) = CHR ''.''
      then PARAM_CODE_INVALID_NAME
      else CheckParamName_loop None name)"

definition validBool :: "string list" where
  "validBool = [''1'', ''0'', ''true'', ''false'', ''y'', ''yes'', ''on'', ''off'', ''n'', ''no'']"

definition CheckParamValueType :: "string \<Rightarrow> string \<Rightarrow> nat \<Rightarrow> int" where
  "CheckParamValueType name value paramType =
     (if paramType = PARAM_TYPE_INT then
        if length value > 1 \<and> value ! 0 = CHR ''-'' \<and> StringToLL value = None then PARAM_CODE_INVALID_VALUE
        else if StringToULL value = None then PARAM_CODE_INVALID_VALUE
        else 0
      else if paramType = PARAM_TYPE_BOOL then
        if \<exists>v \<in> set validBool. strcasecmp_eq v value then 0 else PARAM_CODE_INVALID_VALUE
      else 0)"

text \<open>The node is given by whether it exists and has data.\<close>

definition CheckParamValue :: "bool \<Rightarrow> string \<Rightarrow> string \<Rightarrow> nat \<Rightarrow> int" where
  "CheckParamValue hasData name value paramType =
     (if IS_READY_ONLY name \<and> \<not> length value < PARAM_CONST_VALUE_LEN_MAX then PARAM_CODE_INVALID_VALUE
      else if IS_READY_ONLY name \<and> hasData then PARAM_CODE_READ_ONLY
      else if \<not> IS_READY_ONLY name \<and> \<not> length value < GetParamMaxLen paramType then PARAM_CODE_INVALID_VALUE
      else if strstr value [CHR 0x0A] \<noteq> None then PARAM_CODE_INVALID_VALUE
      else CheckParamValueType name value paramType)"

definition GetParamValueType :: "ParamWorkSpace \<Rightarrow> string \<Rightarrow> nat exec" where
  "GetParamValueType pw name = do {
     space \<leftarrow> GetWorkSpace pw 0;
     case space of
       None \<Rightarrow> Some PARAM_TYPE_STRING
     | Some ws \<Rightarrow> do {
         (node, labelIndex) \<leftarrow> FindTrieNode ws name;
         label \<leftarrow> GetLabel_in space labelIndex;
         Some (case label of None \<Rightarrow> PARAM_TYPE_STRING | Some securityNode \<Rightarrow> sn_type securityNode)
       }
   }"

subsection \<open>Writing\<close>

abbreviation (input) PARAM_FLAGS_MODIFY :: "32 word" where "PARAM_FLAGS_MODIFY \<equiv> 0x80000000"
abbreviation (input) PARAM_FLAGS_WAITED :: "32 word" where "PARAM_FLAGS_WAITED \<equiv> 0x20000000"
abbreviation (input) PARAM_FLAGS_COMMITID :: "32 word" where "PARAM_FLAGS_COMMITID \<equiv> 0xffff"

definition bump_commit :: "ParamTrieHeader \<Rightarrow> ParamTrieHeader" where
  "bump_commit a = a\<lparr>hd_commitId := hd_commitId a + 1\<rparr>"

text \<open>\<^verbatim>\<open>AddParam\<close>: the workspace, the return value and \<^verbatim>\<open>*dataIndex\<close>.\<close>

definition AddParam :: "WorkSpace \<Rightarrow> nat \<Rightarrow> 32 word \<Rightarrow> string \<Rightarrow> string \<Rightarrow> (WorkSpace \<times> int \<times> nat) exec" where
  "AddParam ws type mode name value = do {
     (ws1, node) \<leftarrow> AddTrieNode ws name;
     case (node, ws_area ws1) of
       (Ref off, Some a) \<Rightarrow> do {
         n \<leftarrow> trie_at a off;
         case GetTrieNode a (tn_dataIndex n) of
           Ref _ \<Rightarrow> Some (ws1, 0, tn_dataIndex n)
         | NULL \<Rightarrow> do {
             (ws2, offset) \<leftarrow> AttachParamNode ws1 off type name value (mode AND 0xff);
             if offset > 0 then Some (ws2\<lparr>ws_area := map_option bump_commit (ws_area ws2)\<rparr>, 0, offset)
             else Some (ws2, PARAM_CODE_REACHED_MAX, 0)
           }
       }
     | _ \<Rightarrow> Some (ws1, PARAM_CODE_REACHED_MAX, 0)
   }"

text \<open>The copy of the new value into an entry: the text behind the equals sign and the length.\<close>

definition copy_value :: "ParamNode \<Rightarrow> string \<Rightarrow> ParamNode" where
  "copy_value entry value =
     entry\<lparr>pn_data := take (pn_keyLength entry + 1) (pn_data entry) @ value, pn_valueLength := u16 (length value)\<rparr>"

definition UpdateParam :: "ParamTrieHeader \<Rightarrow> nat \<Rightarrow> string \<Rightarrow> string \<Rightarrow> 32 word \<Rightarrow> (ParamTrieHeader \<times> int) exec" where
  "UpdateParam a dataIndex name value mode =
     (case GetTrieNode a dataIndex of
        NULL \<Rightarrow> Some (a, PARAM_CODE_REACHED_MAX)
      | Ref d \<Rightarrow> do {
          entry \<leftarrow> param_at a d;
          if pn_keyLength entry \<noteq> length name then Some (a, PARAM_CODE_INVALID_NAME)
          else
            (let valueLen = length value;
                 commitId = pn_commitId entry;
                 entry1 = entry\<lparr>pn_commitId := commitId OR PARAM_FLAGS_MODIFY\<rparr>
             in if mode AND LOAD_PARAM_UPDATE_CONST = LOAD_PARAM_UPDATE_CONST \<and>
                   pn_valueLength entry < PARAM_VALUE_LEN_MAX \<and> valueLen \<ge> PARAM_VALUE_LEN_MAX
                then Some (put_cell a d (ParamCell entry1), PARAM_CODE_INVALID_VALUE)
                else
                  (let entry2 =
                         (if mode AND LOAD_PARAM_UPDATE_CONST = LOAD_PARAM_UPDATE_CONST then
                            if pn_valueLength entry < PARAM_CONST_VALUE_LEN_MAX \<and> valueLen < PARAM_CONST_VALUE_LEN_MAX
                            then copy_value entry1 value else entry1
                          else if pn_valueLength entry < PARAM_VALUE_LEN_MAX \<and> valueLen < PARAM_VALUE_LEN_MAX
                          then copy_value entry1 value else entry1);
                       flags = commitId AND NOT PARAM_FLAGS_COMMITID;
                       commitIdCount = (commitId + 1) AND PARAM_FLAGS_COMMITID;
                       entry3 = entry2\<lparr>pn_commitId := flags OR commitIdCount\<rparr>;
                       entry4 = (if mode AND LOAD_PARAM_PERSIST \<noteq> 0
                                 then entry3\<lparr>pn_commitId := pn_commitId entry3 OR PARAM_FLAGS_PERSIST\<rparr> else entry3)
                   in Some (bump_commit (put_cell a d (ParamCell entry4)), 0)))
        })"

text \<open>\<^verbatim>\<open>WriteParam\<close>: the space, the return value and \<^verbatim>\<open>*dataIndex\<close> (0 where it is not set).\<close>

definition WriteParam :: "ParamWorkSpace \<Rightarrow> string \<Rightarrow> string \<Rightarrow> 32 word \<Rightarrow> (ParamWorkSpace \<times> int \<times> nat) exec" where
  "WriteParam pw name value mode =
     (if \<not> PARAM_WORKSPACE_CHECK pw then Some (pw, PARAM_WORKSPACE_NOT_INIT, 0)
      else do {
        workSpace \<leftarrow> GetWorkSpaceByName pw name;
        case workSpace of
          None \<Rightarrow> Some (pw, PARAM_CODE_INVALID_PARAM, 0)
        | Some ws \<Rightarrow> do {
            dataIndex \<leftarrow> FindTrieNode_data ws name;
            if dataIndex \<noteq> 0 then
              if mode AND LOAD_PARAM_ONLY_ADD = LOAD_PARAM_ONLY_ADD then Some (pw, PARAM_CODE_READ_ONLY, dataIndex)
              else case ws_area ws of
                None \<Rightarrow> Some (pw, PARAM_CODE_REACHED_MAX, dataIndex)
              | Some a \<Rightarrow>
                 (case GetTrieNode a dataIndex of
                    NULL \<Rightarrow> Some (pw, PARAM_CODE_REACHED_MAX, dataIndex)
                  | Ref d \<Rightarrow> do {
                      entry \<leftarrow> param_at a d;
                      let ret = CheckParamValue (mode AND LOAD_PARAM_UPDATE_CONST \<noteq> LOAD_PARAM_UPDATE_CONST)
                                  name value (pn_type entry) in
                      if ret \<noteq> 0 then Some (pw, ret, dataIndex)
                      else do {
                        (a', ret') \<leftarrow> UpdateParam a dataIndex name value mode;
                        Some (put_space pw (ws\<lparr>ws_area := Some a'\<rparr>), ret', dataIndex)
                      }
                    })
            else if mode AND LOAD_PARAM_UPDATE_CONST = LOAD_PARAM_UPDATE_CONST
            then Some (pw, PARAM_CODE_INVALID_NAME, 0)
            else do {
              type \<leftarrow> GetParamValueType pw name;
              let ret = CheckParamValue False name value type in
              if ret \<noteq> 0 then Some (pw, ret, 0)
              else do {
                (ws', ret', index) \<leftarrow> AddParam ws type mode name value;
                Some (put_space pw ws', ret', index)
              }
            }
          }
      })"

subsection \<open>Permissions\<close>

text \<open>\<^verbatim>\<open>CheckParamPermission_\<close> of the manager: the return value, the workspace and the node found.\<close>

definition CheckParamPermission_inner ::
  "bool \<Rightarrow> ParamWorkSpace \<Rightarrow> ParamSecurityLabel \<Rightarrow> string \<Rightarrow> nat \<Rightarrow> (int \<times> WorkSpace option \<times> ptr) exec" where
  "CheckParamPermission_inner musl pw srcLabel name mode = do {
     dacSpace \<leftarrow> GetWorkSpace pw 0;
     if \<not> pw_checkParamPermission pw then Some (DAC_RESULT_FORBIDED, None, NULL)
     else do {
       (node, dacLabelIndex) \<leftarrow> FindTrieNode_in dacSpace name;
       workspace \<leftarrow> GetWorkSpaceByName pw name;
       case workspace of
         None \<Rightarrow> Some (DAC_RESULT_FORBIDED, None, node)
       | Some ws \<Rightarrow> do {
           ret \<leftarrow> BaseCheckParamPermission musl pw workspace dacLabelIndex srcLabel name mode;
           if ret \<noteq> 0 then Some (ret, None, node) else Some (ret, Some ws, node)
         }
     }
   }"

definition CheckParamPermission :: "bool \<Rightarrow> ParamWorkSpace \<Rightarrow> ParamSecurityLabel \<Rightarrow> string \<Rightarrow> nat \<Rightarrow> int exec" where
  "CheckParamPermission musl pw srcLabel name mode =
     map_option fst (CheckParamPermission_inner musl pw srcLabel name mode)"

subsection \<open>Reading\<close>

text \<open>Other processes may change an entry while it is read. \<^verbatim>\<open>obs t\<close> is the entry as the reader sees it at its
  \<^verbatim>\<open>t\<close>-th access to shared memory. \<^verbatim>\<open>ReadCommitId\<close> loads the commit id once, and a second time if the modify
  flag was set: its loop ends after the first round since \<^verbatim>\<open>retryTimes\<close> is 0 there.\<close>

definition ReadCommitId :: "(nat \<Rightarrow> ParamNode) \<Rightarrow> nat \<Rightarrow> 32 word" where
  "ReadCommitId obs t =
     (let commitId = pn_commitId (obs t) in
      if commitId AND PARAM_FLAGS_MODIFY \<noteq> 0 then pn_commitId (obs (t + 1)) AND PARAM_FLAGS_COMMITID
      else commitId AND PARAM_FLAGS_COMMITID)"

text \<open>The loop of \<^verbatim>\<open>ReadParamValue_\<close>: the return value, the text copied and \<^verbatim>\<open>*length\<close>. The copy of a round is
  bounded by \<^verbatim>\<open>*length\<close>, which the round before has set to the length of the value.\<close>

partial_function (option) ReadParamValue_loop ::
  "(nat \<Rightarrow> ParamNode) \<Rightarrow> nat \<Rightarrow> 32 word \<Rightarrow> nat \<Rightarrow> (int \<times> string option \<times> nat) exec" where
  "ReadParamValue_loop obs t commitId len =
     (let entry = obs t in
      if pn_valueLength entry > len then Some (- 1, None, len)
      else
        (let text = take (pn_valueLength entry) (drop (pn_keyLength entry + 1) (pn_data entry));
             id = ReadCommitId obs (t + 1)
         in if commitId \<noteq> id then ReadParamValue_loop obs (t + 3) id (pn_valueLength entry)
            else Some (0, Some text, pn_valueLength entry)))"

text \<open>The return value, the text written to \<^verbatim>\<open>value\<close> and \<^verbatim>\<open>*length\<close>.\<close>

definition ReadParamValue :: "(nat \<Rightarrow> ParamNode) option \<Rightarrow> bool \<Rightarrow> nat \<Rightarrow> (int \<times> string option \<times> nat) exec" where
  "ReadParamValue entry hasBuffer len =
     (case entry of
        None \<Rightarrow> Some (PARAM_CODE_NOT_FOUND, None, len)
      | Some obs \<Rightarrow>
         if \<not> hasBuffer then Some (0, None, pn_valueLength (obs 0) + 1)
         else if \<not> len > pn_valueLength (obs 0) then Some (PARAM_CODE_INVALID_VALUE, None, len)
         else ReadParamValue_loop obs 3 (ReadCommitId obs 1) len)"

text \<open>An entry that nobody changes.\<close>

abbreviation (input) still :: "ParamNode option \<Rightarrow> (nat \<Rightarrow> ParamNode) option" where
  "still entry \<equiv> map_option (\<lambda>e t. e) entry"

definition ParamNode_in :: "WorkSpace \<Rightarrow> nat \<Rightarrow> ParamNode option exec" where
  "ParamNode_in ws index =
     (case ws_area ws of
        None \<Rightarrow> Some None
      | Some a \<Rightarrow> (case GetTrieNode a index of NULL \<Rightarrow> Some None | Ref d \<Rightarrow> map_option Some (param_at a d)))"

definition SystemReadParam :: "bool \<Rightarrow> ParamWorkSpace \<Rightarrow> string \<Rightarrow> bool \<Rightarrow> nat \<Rightarrow> (int \<times> string option \<times> nat) exec" where
  "SystemReadParam musl pw name hasBuffer len =
     (if \<not> PARAM_WORKSPACE_CHECK pw then Some (PARAM_WORKSPACE_NOT_INIT, None, len)
      else do {
        (ret, workspace, node) \<leftarrow> CheckParamPermission_inner musl pw (GetParamSecurityLabel pw) name DAC_READ;
        if ret \<noteq> 0 then Some (ret, None, len)
        else case (node, workspace) of
          (Ref off, Some ws) \<Rightarrow>
            (case ws_area ws of
               None \<Rightarrow> None
             | Some a \<Rightarrow> do {
                 n \<leftarrow> trie_at a off;
                 entry \<leftarrow> ParamNode_in ws (tn_dataIndex n);
                 ReadParamValue (still entry) hasBuffer len
               })
        | _ \<Rightarrow> Some (PARAM_CODE_NOT_FOUND, None, len)
      })"

text \<open>Handles: \<^verbatim>\<open>PARAM_HANDLE\<close> and \<^verbatim>\<open>PARAM_GET_HANDLE_INFO\<close>.\<close>

definition PARAM_HANDLE :: "WorkSpace \<Rightarrow> nat \<Rightarrow> nat" where
  "PARAM_HANDLE ws index = u32 (push_bit 24 (ws_spaceIndex ws)) OR index"

definition PARAM_GET_HANDLE_INFO :: "nat \<Rightarrow> nat \<times> nat" where
  "PARAM_GET_HANDLE_INFO handle =
     (let index = handle AND 0xffffff in
      (drop_bit 24 handle AND 0xff, if index AND 3 \<noteq> 0 then 0 else index))"

abbreviation (input) INVALID_HANDLE :: nat where "INVALID_HANDLE \<equiv> 4294967295"

text \<open>The return value and \<^verbatim>\<open>*handle\<close>.\<close>

definition SystemFindParameter :: "bool \<Rightarrow> ParamWorkSpace \<Rightarrow> string \<Rightarrow> (int \<times> nat) exec" where
  "SystemFindParameter musl pw name =
     (if \<not> PARAM_WORKSPACE_CHECK pw then Some (PARAM_WORKSPACE_NOT_INIT, 0)
      else do {
        (ret, workspace, entry) \<leftarrow> CheckParamPermission_inner musl pw (GetParamSecurityLabel pw) name DAC_READ;
        if ret \<noteq> 0 then Some (ret, INVALID_HANDLE)
        else case (entry, workspace) of
          (Ref off, Some ws) \<Rightarrow>
            (case ws_area ws of
               None \<Rightarrow> None
             | Some a \<Rightarrow> do {
                 n \<leftarrow> trie_at a off;
                 Some (if tn_dataIndex n \<noteq> 0 then (0, PARAM_HANDLE ws (tn_dataIndex n))
                       else (PARAM_CODE_NODE_EXIST, INVALID_HANDLE))
               })
        | _ \<Rightarrow> Some (PARAM_CODE_NOT_FOUND, INVALID_HANDLE)
      })"

definition GetTrieNodeByHandle :: "ParamWorkSpace \<Rightarrow> nat \<Rightarrow> ParamNode option exec" where
  "GetTrieNodeByHandle pw handle =
     (if handle = INVALID_HANDLE then Some None
      else
        (let (labelIndex, index) = PARAM_GET_HANDLE_INFO handle in do {
           workSpace \<leftarrow> GetWorkSpace pw labelIndex;
           case workSpace of
             None \<Rightarrow> Some None
           | Some ws \<Rightarrow> if PARAM_IS_ALIGNED index then ParamNode_in ws index else Some None
         }))"

definition SystemGetParameterValue :: "ParamWorkSpace \<Rightarrow> nat \<Rightarrow> bool \<Rightarrow> nat \<Rightarrow> (int \<times> string option \<times> nat) exec" where
  "SystemGetParameterValue pw handle hasBuffer len =
     (if \<not> PARAM_WORKSPACE_CHECK pw then Some (- 1, None, len)
      else if handle = INVALID_HANDLE then Some (PARAM_CODE_NOT_FOUND, None, len)
      else if handle = 0 then Some (- 1, None, len)
      else do { entry \<leftarrow> GetTrieNodeByHandle pw handle; ReadParamValue (still entry) hasBuffer len })"

definition SystemGetParameterCommitId :: "ParamWorkSpace \<Rightarrow> nat \<Rightarrow> (int \<times> 32 word) exec" where
  "SystemGetParameterCommitId pw handle =
     (if \<not> PARAM_WORKSPACE_CHECK pw then Some (- 1, 0)
      else if handle = INVALID_HANDLE then Some (PARAM_CODE_NOT_FOUND, 0)
      else if handle = 0 then Some (- 1, 0)
      else do {
        entry \<leftarrow> GetTrieNodeByHandle pw handle;
        Some (case entry of None \<Rightarrow> (PARAM_CODE_NOT_FOUND, 0) | Some e \<Rightarrow> (0, ReadCommitId (\<lambda>t. e) 0))
      })"

definition GetSystemCommitId :: "ParamWorkSpace \<Rightarrow> int exec" where
  "GetSystemCommitId pw =
     (if \<not> PARAM_WORKSPACE_CHECK pw then Some (- 1)
      else do {
        space \<leftarrow> GetWorkSpace pw 0;
        Some (case space of
                None \<Rightarrow> 0
              | Some ws \<Rightarrow> (case ws_area ws of None \<Rightarrow> 0 | Some a \<Rightarrow> sint (hd_commitId a)))
      })"

text \<open>The return value and the name.\<close>

definition ReadParamName :: "ParamWorkSpace \<Rightarrow> nat \<Rightarrow> nat \<Rightarrow> (int \<times> string option) exec" where
  "ReadParamName pw handle len =
     (if \<not> PARAM_WORKSPACE_CHECK pw then Some (- 1, None)
      else if handle = INVALID_HANDLE then Some (PARAM_CODE_NOT_FOUND, None)
      else
        (let (labelIndex, index) = PARAM_GET_HANDLE_INFO handle in do {
           workSpace \<leftarrow> GetWorkSpace pw labelIndex;
           case workSpace of
             None \<Rightarrow> Some (PARAM_CODE_NOT_FOUND, None)
           | Some ws \<Rightarrow> do {
               entry \<leftarrow> (if PARAM_IS_ALIGNED index then ParamNode_in ws index else Some None);
               Some (case entry of
                       None \<Rightarrow> (PARAM_CODE_NOT_FOUND, None)
                     | Some e \<Rightarrow>
                         if \<not> len > pn_keyLength e then (- 1, None)
                         else (0, Some (take (pn_keyLength e) (pn_data e))))
             }
         }))"

definition SystemGetParameterName :: "ParamWorkSpace \<Rightarrow> nat \<Rightarrow> nat \<Rightarrow> (int \<times> string option) exec" where
  "SystemGetParameterName pw handle len = (if handle = 0 then Some (- 1, None) else ReadParamName pw handle len)"

subsection \<open>Workspaces in turn, existence and traversal\<close>

text \<open>The loop of \<^verbatim>\<open>GetNextWorkSpace\<close> over the indices below \<^verbatim>\<open>maxLabelIndex\<close>.\<close>

fun GetNextWorkSpace_loop :: "ParamWorkSpace \<Rightarrow> nat list \<Rightarrow> WorkSpace option exec" where
  "GetNextWorkSpace_loop pw [] = Some None"
| "GetNextWorkSpace_loop pw (i # is) = do {
     workSpace \<leftarrow> GetWorkSpace pw i;
     case workSpace of None \<Rightarrow> GetNextWorkSpace_loop pw is | Some ws \<Rightarrow> Some (Some ws)
   }"

definition GetNextWorkSpace :: "ParamWorkSpace \<Rightarrow> WorkSpace option \<Rightarrow> WorkSpace option exec" where
  "GetNextWorkSpace pw cur =
     (let i = (case cur of None \<Rightarrow> 0 | Some ws \<Rightarrow> ws_spaceIndex ws + 1) in
      GetNextWorkSpace_loop pw [i ..< pw_maxLabelIndex pw])"

partial_function (option) SysCheckParamExist_loop :: "ParamWorkSpace \<Rightarrow> string \<Rightarrow> WorkSpace option \<Rightarrow> int exec" where
  "SysCheckParamExist_loop pw name workSpace =
     (case workSpace of
        None \<Rightarrow> Some PARAM_CODE_NOT_FOUND
      | Some ws \<Rightarrow> do {
          next \<leftarrow> GetNextWorkSpace pw workSpace;
          (node, l) \<leftarrow> FindTrieNode ws name;
          case (node, ws_area ws) of
            (Ref off, Some a) \<Rightarrow> do {
              n \<leftarrow> trie_at a off;
              Some (if tn_dataIndex n \<noteq> 0 then 0 else PARAM_CODE_NODE_EXIST)
            }
          | _ \<Rightarrow> SysCheckParamExist_loop pw name next
        })"

definition SysCheckParamExist :: "ParamWorkSpace \<Rightarrow> string \<Rightarrow> int exec" where
  "SysCheckParamExist pw name =
     (if \<not> PARAM_WORKSPACE_CHECK pw then Some (- 1)
      else do {
        workSpace \<leftarrow> GetNextWorkSpace pw None;
        SysCheckParamExist_loop pw name workSpace
      })"

text \<open>The return value and the label data of a name.\<close>

definition GetParamSecurityAuditData :: "ParamWorkSpace \<Rightarrow> string \<Rightarrow> (int \<times> ParamAuditData option) exec" where
  "GetParamSecurityAuditData pw name =
     (if \<not> PARAM_WORKSPACE_CHECK pw then Some (- 1, None)
      else do {
        space \<leftarrow> GetWorkSpace pw 0;
        case space of
          None \<Rightarrow> Some (- 1, None)
        | Some ws \<Rightarrow> do {
            (p, labelIndex) \<leftarrow> FindTrieNode ws name;
            label \<leftarrow> GetLabel_in space labelIndex;
            Some (case label of
                    None \<Rightarrow> (DAC_RESULT_FORBIDED, None)
                  | Some node \<Rightarrow>
                      (0, Some \<lparr>ad_uid = sn_uid node, ad_gid = sn_gid node, ad_mode = sn_mode node,
                                ad_paramType = 0, ad_name = name, ad_members = []\<rparr>))
          }
      })"

text \<open>\<^verbatim>\<open>SystemCheckMatchParamWait\<close>: the space and whether the parameter has the awaited value. The name in the
  entry is compared again, and the entry is marked as waited for.\<close>

definition match_wait :: "string \<Rightarrow> string \<Rightarrow> bool" where
  "match_wait current value =
     (strncmp_eq value ''*'' 1 \<or> current = value \<or>
      (case strstr value ''*'' of
         None \<Rightarrow> False
       | Some tmp \<Rightarrow> strncmp_eq current value (length value - length tmp)))"

definition SystemCheckMatchParamWait :: "ParamWorkSpace \<Rightarrow> string \<Rightarrow> string \<Rightarrow> (ParamWorkSpace \<times> bool) exec" where
  "SystemCheckMatchParamWait pw name value =
     (if \<not> PARAM_WORKSPACE_CHECK pw then Some (pw, False)
      else do {
        workspace \<leftarrow> GetWorkSpaceByName pw name;
        case workspace of
          None \<Rightarrow> Some (pw, False)
        | Some ws \<Rightarrow> do {
            dataIndex \<leftarrow> FindTrieNode_data ws name;
            case ws_area ws of
              None \<Rightarrow> Some (pw, False)
            | Some a \<Rightarrow>
               if dataIndex = 0 then Some (pw, False)
               else
                 (case GetTrieNode a dataIndex of
                    NULL \<Rightarrow> Some (pw, False)
                  | Ref d \<Rightarrow> do {
                      param \<leftarrow> param_at a d;
                      if pn_keyLength param \<noteq> length name \<or> \<not> strncmp_eq (pn_data param) name (length name)
                      then Some (pw, False)
                      else
                        (let param' = param\<lparr>pn_commitId := pn_commitId param OR PARAM_FLAGS_WAITED\<rparr>
                         in Some (put_space pw (ws\<lparr>ws_area := Some (put_cell a d (ParamCell param'))\<rparr>),
                                  match_wait (drop (length name + 1) (pn_data param)) value))
                    })
          }
      })"

text \<open>The visitor of \<^verbatim>\<open>SystemTraversalParameter\<close>: the handles it passes on, in order.\<close>

definition ProcessParamTraversal :: "WorkSpace \<Rightarrow> string \<Rightarrow> nat \<Rightarrow> nat list \<Rightarrow> nat list" where
  "ProcessParamTraversal ws pref off handles =
     (case ws_area ws of
        None \<Rightarrow> handles
      | Some a \<Rightarrow>
         (case trie_at a off of
            None \<Rightarrow> handles
          | Some current \<Rightarrow>
             if tn_dataIndex current = 0 then handles
             else
               (case GetTrieNode a (tn_dataIndex current) of
                  NULL \<Rightarrow> handles
                | Ref d \<Rightarrow>
                   (case param_at a d of
                      None \<Rightarrow> handles
                    | Some entry \<Rightarrow>
                        if pref \<noteq> ''#'' \<and> \<not> strncmp_eq (pn_data entry) pref (length pref) then handles
                        else handles @ [PARAM_HANDLE ws (tn_dataIndex current)]))))"

partial_function (option) SystemTraversalParameter_loop ::
  "ParamWorkSpace \<Rightarrow> string \<Rightarrow> string \<Rightarrow> WorkSpace option \<Rightarrow> nat list \<Rightarrow> nat list exec" where
  "SystemTraversalParameter_loop pw pref ctx workSpace handles =
     (case workSpace of
        None \<Rightarrow> Some handles
      | Some ws \<Rightarrow> do {
          next \<leftarrow> GetNextWorkSpace pw workSpace;
          (root, l) \<leftarrow> (if pref \<noteq> [] then FindTrieNode ws pref else Some (NULL, 0));
          (ret, handles') \<leftarrow> TraversalTrieNode ws root (ProcessParamTraversal ws ctx) handles;
          SystemTraversalParameter_loop pw pref ctx next handles'
        })"

text \<open>An empty prefix stands for the NULL pointer as well.\<close>

definition SystemTraversalParameter :: "bool \<Rightarrow> ParamWorkSpace \<Rightarrow> string \<Rightarrow> (int \<times> nat list) exec" where
  "SystemTraversalParameter musl pw pref =
     (if \<not> PARAM_WORKSPACE_CHECK pw then Some (- 1, [])
      else do {
        ret \<leftarrow> (if pref = [] then Some 0 else CheckParamPermission musl pw (GetParamSecurityLabel pw) pref DAC_READ);
        if ret \<noteq> 0 then Some (ret, [])
        else do {
          first \<leftarrow> GetNextWorkSpace pw None;
          workSpace \<leftarrow> (case first of
                          Some ws \<Rightarrow> if ws_fileName ws = ''param_sec_dac'' then GetNextWorkSpace pw first else Some first
                        | None \<Rightarrow> Some None);
          handles \<leftarrow> SystemTraversalParameter_loop pw pref (if pref = [] then ''#'' else pref) workSpace [];
          Some (0, handles)
        }
      })"

subsection \<open>Control parameters\<close>

record ParamCmdInfo =
  ci_name :: string
  ci_replace :: string
  ci_cmd :: string

abbreviation (input) mk_cmd :: "string \<Rightarrow> string \<Rightarrow> string \<Rightarrow> ParamCmdInfo" where
  "mk_cmd n r c \<equiv> \<lparr>ci_name = n, ci_replace = r, ci_cmd = c\<rparr>"

definition GetServiceStartCtrl :: "ParamCmdInfo list" where
  "GetServiceStartCtrl =
     [mk_cmd ''ohos.ctl.start'' ''start'' ''start '',
      mk_cmd ''ohos.ctl.stop'' ''stop'' ''stop '',
      mk_cmd ''ohos.ctl.term'' ''term'' ''termservice '',
      mk_cmd ''ohos.ctl.start_ondemand'' ''start_ondemand'' ''start_ondemand '']"

definition GetServiceCtl :: "ParamCmdInfo list" where
  "GetServiceCtl =
     [mk_cmd ''ohos.servicectrl.install'' ''install'' ''install'',
      mk_cmd ''ohos.servicectrl.uninstall'' ''uninstall'' ''uninstall'',
      mk_cmd ''ohos.servicectrl.bootchart'' ''bootchart'' ''bootchart'',
      mk_cmd ''ohos.servicectrl.init_trace'' ''init_trace'' ''init_trace'',
      mk_cmd ''ohos.servicectrl.timer_start'' ''timer_start'' ''timer_start '',
      mk_cmd ''ohos.servicectrl.timer_stop'' ''timer_stop'' ''timer_stop'',
      mk_cmd ''ohos.servicectrl.cmd'' ''cmd'' ''initcmd'']"

definition GetStartupPowerCtl :: "ParamCmdInfo list" where
  "GetStartupPowerCtl =
     [mk_cmd ''reboot,shutdown'' ''reboot.shutdown'' ''reboot.shutdown'',
      mk_cmd ''reboot,updater'' ''reboot.updater'' ''reboot.updater'',
      mk_cmd ''reboot,flashd'' ''reboot.flashd'' ''reboot.flashd'',
      mk_cmd ''reboot,charge'' ''reboot.charge'' ''reboot.charge'',
      mk_cmd ''reboot'' ''reboot'' ''reboot'']"

definition GetOtherSpecial :: "ParamCmdInfo list" where
  "GetOtherSpecial =
     [mk_cmd ''bootevent.'' ''bootevent.'' ''bootevent'',
      mk_cmd ''persist.init.debug.'' ''persist.init.debug.'' ''setloglevel'',
      mk_cmd ''debug.hitrace.enable.state'' ''debug.hitrace.enable.state.'' ''init_trace'']"

record ServiceCtrlInfo =
  sc_realKey :: string
  sc_cmdName :: string
  sc_valueOffset :: nat
  sc_ctrlParam :: nat

abbreviation (input) OHOS_SERVICE_CTRL_PREFIX :: string where "OHOS_SERVICE_CTRL_PREFIX \<equiv> ''ohos.servicectrl.''"

text \<open>The formatted key must fit its buffer of 4193 bytes and the command its buffer of 32.\<close>

definition CreateCtrlInfo :: "string \<Rightarrow> nat \<Rightarrow> nat \<Rightarrow> string \<Rightarrow> int \<times> ServiceCtrlInfo option" where
  "CreateCtrlInfo cmd offset ctrlParam key =
     (if length cmd \<ge> 32 \<or> key = [] \<or> length key > PARAM_NAME_LEN_MAX + PARAM_CONST_VALUE_LEN_MAX then (- 1, None)
      else (0, Some \<lparr>sc_realKey = key, sc_cmdName = cmd, sc_valueOffset = offset, sc_ctrlParam = ctrlParam\<rparr>))"

text \<open>The first entry of a table with the name as a prefix, or as the whole text.\<close>

fun find_prefix :: "ParamCmdInfo list \<Rightarrow> string \<Rightarrow> ParamCmdInfo option" where
  "find_prefix [] text = None"
| "find_prefix (i # is) text = (if strncmp_eq text (ci_name i) (length (ci_name i)) then Some i else find_prefix is text)"

fun find_exact :: "ParamCmdInfo list \<Rightarrow> string \<Rightarrow> ParamCmdInfo option" where
  "find_exact [] text = None"
| "find_exact (i # is) text = (if text = ci_name i then Some i else find_exact is text)"

definition GetServiceCtrlInfoForPowerCtrl ::
  "ParamCmdInfo list \<Rightarrow> string \<Rightarrow> string \<Rightarrow> int \<times> ServiceCtrlInfo option" where
  "GetServiceCtrlInfoForPowerCtrl powerCtrlArg name value =
     (let rebootOffset = length OHOS_SERVICE_CTRL_PREFIX + length ''reboot'' + 1 in
      if value = ''reboot'' then
        CreateCtrlInfo ''reboot'' rebootOffset 1 (OHOS_SERVICE_CTRL_PREFIX @ ''reboot'' @ ''.'' @ value)
      else case find_prefix powerCtrlArg value of
        Some i \<Rightarrow>
          CreateCtrlInfo (ci_cmd i) (length OHOS_SERVICE_CTRL_PREFIX + length (ci_replace i) + 1) 1
            (OHOS_SERVICE_CTRL_PREFIX @ ci_replace i @ ''.'' @ value)
      | None \<Rightarrow>
          CreateCtrlInfo ''reboot.other'' rebootOffset 1 (OHOS_SERVICE_CTRL_PREFIX @ ''reboot'' @ ''.'' @ value))"

definition GetServiceCtrlInfo :: "ParamCmdInfo list \<Rightarrow> string \<Rightarrow> string \<Rightarrow> int \<times> ServiceCtrlInfo option" where
  "GetServiceCtrlInfo powerCtrlArg name value =
     (if name = ''ohos.startup.powerctrl'' then GetServiceCtrlInfoForPowerCtrl powerCtrlArg name value
      else case (if strncmp_eq ''ohos.ctl.'' name 9 then find_exact GetServiceStartCtrl name else None) of
        Some i \<Rightarrow>
          CreateCtrlInfo (ci_cmd i) (length OHOS_SERVICE_CTRL_PREFIX + length (ci_replace i) + 1) 1
            (OHOS_SERVICE_CTRL_PREFIX @ ci_replace i @ ''.'' @ value)
      | None \<Rightarrow>
         (case (if strncmp_eq ''ohos.servicectrl.'' name 17 then find_prefix GetServiceCtl name else None) of
            Some i \<Rightarrow> CreateCtrlInfo (ci_cmd i) (length name + 1) 1 (name @ ''.'' @ value)
          | None \<Rightarrow>
             (case find_prefix GetOtherSpecial name of
                Some i \<Rightarrow> CreateCtrlInfo (ci_cmd i) (length (ci_replace i)) 0 (name @ ''.'' @ value)
              | None \<Rightarrow> (0, None))))"

text \<open>\<^verbatim>\<open>CheckParameterSet\<close>: the return value, \<^verbatim>\<open>*ctrlService\<close> and the command with its argument that is executed.\<close>

abbreviation (input) PARAM_CTRL_SERVICE :: nat where "PARAM_CTRL_SERVICE \<equiv> 1"

definition CheckParameterSet ::
  "bool \<Rightarrow> ParamCmdInfo list \<Rightarrow> ParamWorkSpace \<Rightarrow> string \<Rightarrow> string \<Rightarrow> ParamSecurityLabel \<Rightarrow>
   (int \<times> nat \<times> (string \<times> string) option) exec" where
  "CheckParameterSet musl powerCtrlArg pw name value srcLabel =
     (if \<not> PARAM_WORKSPACE_CHECK pw then Some (PARAM_WORKSPACE_NOT_INIT, 0, None)
      else if CheckParamName name False \<noteq> 0 then Some (CheckParamName name False, 0, None)
      else do {
        type \<leftarrow> GetParamValueType pw name;
        if CheckParamValue False name value type \<noteq> 0 then Some (CheckParamValue False name value type, 0, None)
        else
          (let serviceInfo = snd (GetServiceCtrlInfo powerCtrlArg name value) in do {
             ret \<leftarrow> CheckParamPermission musl pw srcLabel
                      (case serviceInfo of None \<Rightarrow> name | Some s \<Rightarrow> sc_realKey s) DAC_WRITE;
             Some (case serviceInfo of
                     None \<Rightarrow> (ret, 0, None)
                   | Some s \<Rightarrow>
                       if ret = 0
                       then (ret, if sc_ctrlParam s \<noteq> 0 then PARAM_CTRL_SERVICE else 0,
                             Some (sc_cmdName s, drop (sc_valueOffset s) (sc_realKey s)))
                       else (ret, 0, None))
           })
      })"

text \<open>\<^verbatim>\<open>CheckIfUidInGroup\<close> with \<^verbatim>\<open>getgrnam\<close> giving the id and the members of a group.\<close>

fun group_listed :: "(string \<Rightarrow> (nat \<times> string list) option) \<Rightarrow> nat \<Rightarrow> string list \<Rightarrow> bool" where
  "group_listed getgrnam' groupId [] = False"
| "group_listed getgrnam' groupId (m # gr_mem) =
     (case getgrnam' m of
        Some (gr_gid, mem) \<Rightarrow> if groupId = gr_gid then True else group_listed getgrnam' groupId gr_mem
      | None \<Rightarrow> group_listed getgrnam' groupId gr_mem)"

definition CheckIfUidInGroup :: "(string \<Rightarrow> (nat \<times> string list) option) \<Rightarrow> nat \<Rightarrow> string \<Rightarrow> int" where
  "CheckIfUidInGroup getgrnam' groupId groupCheckName =
     (case getgrnam' groupCheckName of
        None \<Rightarrow> - 1
      | Some (gr_gid, gr_mem) \<Rightarrow> if group_listed getgrnam' groupId gr_mem then 0 else PARAM_CODE_PERMISSION_DENIED)"

end
