(* ===== verification/Param_Write.thy ===== *)
theory Param_Write
  imports Param_Manager
begin

text \<open>
  The parameter space as a map from names to values: the invariant of the space, the check of names, and
  what writing and reading do to the map.
\<close>

subsection \<open>Valid names\<close>

definition name_char :: "char \<Rightarrow> bool" where
  "name_char c = (c = CHR ''_'' \<or> c = CHR ''-'' \<or> c = CHR ''@'' \<or> c = CHR '':'' \<or> isalnum c)"

lemma name_char_dot [simp]: "\<not> name_char (CHR ''.'')"
  by (simp add: name_char_def isalnum_def isalpha_def isdigit_def ascii_def)

lemma CheckParamName_loop_cases: "CheckParamName_loop prev s = 0 \<or> CheckParamName_loop prev s = PARAM_CODE_INVALID_NAME"
  by (induction prev s rule: CheckParamName_loop.induct) auto

lemma CheckParamName_loop_Cons:
  "CheckParamName_loop prev (c # s) = 0 \<longleftrightarrow>
     (if c = CHR ''.'' then prev \<noteq> Some (CHR ''.'') else name_char c) \<and> CheckParamName_loop (Some c) s = 0"
  by (auto simp: name_char_def isalnum_def isalpha_def isdigit_def ascii_def)

lemma CheckParamName_loop_comp:
  "\<forall>c \<in> set k. name_char c \<Longrightarrow> k \<noteq> [] \<Longrightarrow>
   CheckParamName_loop prev (k @ s) = 0 \<longleftrightarrow> CheckParamName_loop (Some (last k)) s = 0"
proof (induction k arbitrary: prev)
  case (Cons c k)
  have "c \<noteq> CHR ''.''" using Cons.prems(1) by auto
  with Cons show ?case by (cases "k = []") (auto simp: CheckParamName_loop_Cons simp del: CheckParamName_loop.simps)
qed simp

lemma CheckParamName_loop_append:
  "CheckParamName_loop prev (xs @ ys) = 0 \<Longrightarrow> CheckParamName_loop (if xs = [] then prev else Some (last xs)) ys = 0"
proof (induction xs arbitrary: prev)
  case (Cons x xs)
  then have "CheckParamName_loop (Some x) (xs @ ys) = 0" by (simp add: CheckParamName_loop_Cons del: CheckParamName_loop.simps)
  with Cons.IH [of "Some x"] show ?case by (cases "xs = []") auto
qed simp

lemma CheckParamName_loop_chars:
  "CheckParamName_loop prev s = 0 \<Longrightarrow> c \<in> set s \<Longrightarrow> c = CHR ''.'' \<or> name_char c"
  by (induction s arbitrary: prev) (auto simp: CheckParamName_loop_Cons simp del: CheckParamName_loop.simps split: if_splits)

text \<open>Names made of components.\<close>

definition valid_path :: "string list \<Rightarrow> bool" where
  "valid_path ks = (ks \<noteq> [] \<and> (\<forall>k \<in> set ks. k \<noteq> [] \<and> (\<forall>c \<in> set k. name_char c)))"

lemma CheckParamName_loop_join: "valid_path ks \<Longrightarrow> CheckParamName_loop prev (join ks) = 0"
proof (induction ks arbitrary: prev rule: join.induct)
  case (2 k)
  then show ?case using CheckParamName_loop_comp [of k prev "[]"] by (simp add: valid_path_def)
next
  case (3 k k2 ks)
  have v: "valid_path (k2 # ks)" "k \<noteq> []" "\<forall>c \<in> set k. name_char c" using "3.prems" by (auto simp: valid_path_def)
  have "last k \<noteq> CHR ''.''" using v(2,3) last_in_set by (metis name_char_dot)
  with "3.IH" [OF v(1)] show ?case
    using CheckParamName_loop_comp [OF v(3,2), of prev "''.'' @ join (k2 # ks)"]
    by (simp add: CheckParamName_loop_Cons del: CheckParamName_loop.simps)
qed (simp add: valid_path_def)

lemma CheckParamName_loop_split:
  assumes "s \<noteq> []" "hd s \<noteq> CHR ''.''" "last s \<noteq> CHR ''.''" "CheckParamName_loop prev s = 0"
  shows "\<exists>ks. valid_path ks \<and> s = join ks"
  using assms
proof (induction "length s" arbitrary: s prev rule: less_induct)
  case less
  show ?case
  proof (cases rule: key_cases [of s])
    case last
    then have "valid_path [s]" using CheckParamName_loop_chars [OF less.prems(4)] less.prems(1)
      by (auto simp: valid_path_def)
    then show ?thesis by (intro exI [of _ "[s]"]) simp
  next
    case (dot sub r)
    note 2 = dot
    have sub: "sub \<noteq> []" using less.prems(2) 2(1) by (cases sub) auto
    have r: "r \<noteq> []" using less.prems(3) 2(1) by auto
    have "CheckParamName_loop (Some (last sub)) (''.'' @ r) = 0"
      using CheckParamName_loop_append [of prev sub "''.'' @ r"] less.prems(4) 2(1) sub by simp
    then have lr: "CheckParamName_loop (Some (CHR ''.'')) r = 0"
      by (simp add: CheckParamName_loop_Cons del: CheckParamName_loop.simps)
    then have "hd r \<noteq> CHR ''.''" using r by (cases r) (auto simp: CheckParamName_loop_Cons simp del: CheckParamName_loop.simps)
    moreover have "last r \<noteq> CHR ''.''" using less.prems(3) 2(1) r by simp
    ultimately obtain ks where ks: "valid_path ks" "r = join ks" using less.hyps [OF 2(3) r _ _ lr] by blast
    have "\<forall>c \<in> set sub. name_char c" using CheckParamName_loop_chars [OF less.prems(4)] 2 by auto
    with ks sub have "valid_path (sub # ks)" by (auto simp: valid_path_def)
    moreover have "s = join (sub # ks)" using 2(1) ks by (cases ks) (auto simp: valid_path_def)
    ultimately show ?thesis by blast
  qed
qed

lemma valid_path_last: "valid_path ks \<Longrightarrow> join ks \<noteq> [] \<and> hd (join ks) \<noteq> CHR ''.'' \<and> last (join ks) \<noteq> CHR ''.''"
proof (induction ks rule: join.induct)
  case (2 k)
  then show ?case by (auto simp: valid_path_def) (metis hd_in_set last_in_set name_char_dot)+
next
  case (3 k k2 ks)
  then have "k \<noteq> []" "\<forall>c \<in> set k. name_char c" "valid_path (k2 # ks)" by (auto simp: valid_path_def)
  moreover from this have "hd k \<noteq> CHR ''.''" by (metis hd_in_set name_char_dot)
  ultimately show ?case using "3.IH" by (cases k) auto
qed (simp add: valid_path_def)

lemma key_split_join_valid: "valid_path ks \<Longrightarrow> key_split (join ks) = (ks, True)"
proof (induction ks rule: join.induct)
  case (2 k)
  then have "CHR ''.'' \<notin> set k" "k \<noteq> []" by (auto simp: valid_path_def)
  then show ?case by (simp add: key_split_last)
next
  case (3 k k2 ks)
  then have "CHR ''.'' \<notin> set k" "k \<noteq> []" "valid_path (k2 # ks)" by (auto simp: valid_path_def)
  with "3.IH" valid_path_last [of "k2 # ks"] show ?case using key_split_dot [of k "join (k2 # ks)"] by simp
qed (simp add: valid_path_def)

lemma CheckParamName_iff:
  "CheckParamName name False = 0 \<longleftrightarrow>
     length name < PARAM_NAME_LEN_MAX \<and> (name = ''#'' \<or> (\<exists>ks. valid_path ks \<and> name = join ks))"
proof -
  have ends: "name ! 0 = hd name" "name ! (length name - 1) = last name" if "name \<noteq> []"
    using that by (simp_all add: hd_conv_nth last_conv_nth)
  show ?thesis
  proof (cases "length name < PARAM_NAME_LEN_MAX \<and> name \<noteq> ''#'' \<and> name \<noteq> [] \<and> hd name \<noteq> CHR ''.'' \<and> last name \<noteq> CHR ''.''")
    case True
    then have "CheckParamName name False = CheckParamName_loop None name"
      using ends by (simp add: CheckParamName_def Let_def)
    with True CheckParamName_loop_split [of name None] CheckParamName_loop_join show ?thesis by auto
  next
    case False
    then have "CheckParamName name False = 0 \<longleftrightarrow> length name < PARAM_NAME_LEN_MAX \<and> name = ''#''"
      using ends by (cases "name = []") (auto simp: CheckParamName_def Let_def)
    moreover have "\<not> (\<exists>ks. valid_path ks \<and> name = join ks)" if "length name < PARAM_NAME_LEN_MAX" "name \<noteq> ''#''"
      using that False valid_path_last by metis
    ultimately show ?thesis by blast
  qed
qed

lemma CheckParamName_storable: "CheckParamName name False = 0 \<Longrightarrow> storable name"
  using valid_path_last key_split_join_valid by (auto simp: CheckParamName_iff storable_def key_split_hash)

subsection \<open>The invariant of the space\<close>

definition space_params :: "ParamWorkSpace \<Rightarrow> string \<Rightarrow> string option" where
  "space_params pw name = (case pw_workSpace pw of Some (Some ws # _) \<Rightarrow> ws_params ws name | _ \<Rightarrow> None)"

text \<open>Only read-only parameters may have a long value.\<close>

definition pw_inv :: "ParamWorkSpace \<Rightarrow> bool" where
  "pw_inv pw =
     (PARAM_WORKSPACE_CHECK pw \<and>
      (\<exists>ws rest. pw_workSpace pw = Some (Some ws # rest) \<and> ws_inv ws) \<and>
      (\<forall>name v. space_params pw name = Some v \<longrightarrow> \<not> IS_READY_ONLY name \<longrightarrow> length v < PARAM_VALUE_LEN_MAX))"

lemma pw_invE:
  assumes "pw_inv pw"
  obtains ws rest a c where "PARAM_WORKSPACE_CHECK pw" "pw_workSpace pw = Some (Some ws # rest)" "ws_inv ws"
    "CheckWorkSpace ws = 0" "ws_area ws = Some a" "area_inv a c" "space_params pw = ws_params ws"
    "GetWorkSpaceByName pw = (\<lambda>name. Some (Some ws))" "GetWorkSpace pw = (\<lambda>i. Some (Some ws))"
proof -
  obtain ws rest where w: "PARAM_WORKSPACE_CHECK pw" "pw_workSpace pw = Some (Some ws # rest)" "ws_inv ws"
    using assms by (auto simp: pw_inv_def)
  obtain a c where a: "CheckWorkSpace ws = 0" "ws_area ws = Some a" "area_inv a c"
    using w(3) by (auto simp: ws_inv_def)
  show thesis
    by (rule that [OF w a]) (use w in \<open>auto simp: space_params_def GetWorkSpaceByName_def GetWorkSpace_def\<close>)
qed

lemma put_space_space [simp]:
  "pw_workSpace pw = Some (Some ws # rest) \<Longrightarrow> pw_workSpace (put_space pw ws') = Some (Some ws' # rest)"
  "PARAM_WORKSPACE_CHECK (put_space pw ws') = PARAM_WORKSPACE_CHECK pw"
  by (simp_all add: put_space_def PARAM_WORKSPACE_CHECK_def)

lemma pw_inv_put:
  assumes "pw_inv pw" "ws_inv ws'" "space_params pw = ws_params ws"
    and "\<forall>name v. ws_params ws' name = Some v \<longrightarrow> ws_params ws name \<noteq> Some v \<longrightarrow>
           \<not> IS_READY_ONLY name \<longrightarrow> length v < PARAM_VALUE_LEN_MAX"
  shows "pw_inv (put_space pw ws') \<and> space_params (put_space pw ws') = ws_params ws'"
proof -
  obtain w rest where w: "pw_workSpace pw = Some (Some w # rest)" using assms(1) by (auto simp: pw_inv_def)
  then have sp: "space_params (put_space pw ws') = ws_params ws'" by (auto simp: space_params_def fun_eq_iff)
  have "length v < PARAM_VALUE_LEN_MAX" if "ws_params ws' name = Some v" "\<not> IS_READY_ONLY name" for name v
    using that assms(1,3,4) by (cases "ws_params ws name = Some v") (auto simp: pw_inv_def)
  with sp assms(1,2) w show ?thesis by (auto simp: pw_inv_def)
qed

subsection \<open>Labels found by a lookup\<close>

lemma gfind_label: "snd (gfind L t ks l) = l \<or> (\<exists>x. snd (gfind L t ks l) = L x)"
  by (induction L t ks l rule: gfind.induct) (auto split: tst.splits)

lemma FindTrieNode_label:
  assumes "ws_area ws = Some a" "area_inv a c" "FindTrieNode ws key = Some (p, l)"
  shows "l = 0 \<or> (\<exists>x. l = lab a x)"
proof (cases "key = []")
  case False
  have ar: "area_repr a c" using assms(2) by (simp add: area_inv_def)
  obtain t l' where g: "gfind (lab a) (TN 0 ''#'' Tip c Tip) (fst (key_split key)) (lab a 0) = (t, l')" by fastforce
  obtain q where q: "FindTrieNode_inner ws key = Some (q, l')"
    using FindTrieNode_inner_repr [OF assms(1) ar, of key] g by simp
  have "l = l'"
    using assms(3) q assms(1) False
    by (auto simp: FindTrieNode_def split: ptr.splits if_splits bind_splits)
  with g gfind_label [of "lab a" "TN 0 ''#'' Tip c Tip" "fst (key_split key)" "lab a 0"] show ?thesis by auto
qed (use assms(3) in \<open>simp add: FindTrieNode_def\<close>)

lemma label_at:
  assumes "area_inv a c" "lab a x \<noteq> 0"
  shows "\<exists>s. hd_data a (lab a x) = Some (SecCell s)"
proof -
  obtain n where n: "hd_data a x = Some (TrieCell n)" "tn_labelIndex n = lab a x"
    using assms(2) by (auto simp: lab_def trie_at_def split: option.splits cell.splits)
  moreover have "store_ok a" using assms(1) by (simp add: area_inv_def area_ok_def)
  ultimately show ?thesis using store_ok_typed [of a x "TrieCell n"] assms(2) by simp
qed

lemma GetLabel_total:
  assumes "ws_area ws = Some a" "area_inv a c" "l = 0 \<or> (\<exists>x. l = lab a x)"
  shows "\<exists>r. GetLabel_in (Some ws) l = Some r"
proof (cases "l = 0")
  case False
  then obtain s where s: "hd_data a l = Some (SecCell s)" using assms(3) label_at [OF assms(2)] by auto
  then show ?thesis using assms(1) by (auto simp: GetLabel_in_def GetTrieNode_def sec_at_def)
qed (use assms(1) in \<open>simp add: GetLabel_in_def GetTrieNode_def\<close>)

lemma GetParamValueType_total:
  assumes "pw_inv pw"
  shows "\<exists>type. GetParamValueType pw name = Some type"
proof -
  obtain ws rest a c where w: "ws_area ws = Some a" "area_inv a c" "GetWorkSpace pw = (\<lambda>i. Some (Some ws))"
    by (rule pw_invE [OF assms])
  obtain p l where f: "FindTrieNode ws name = Some (p, l)" using FindTrieNode_total [OF w(1,2)] by blast
  from GetLabel_total [OF w(1,2) FindTrieNode_label [OF w(1,2) f]] obtain r where "GetLabel_in (Some ws) l = Some r" ..
  with w f show ?thesis by (simp add: GetParamValueType_def)
qed

subsection \<open>Writing\<close>

lemma bump_commit_inv [simp]:
  "area_inv (bump_commit a) c = area_inv a c" "entry_at (bump_commit a) = entry_at a"
  "hd_data (bump_commit a) = hd_data a"
  by (simp_all add: bump_commit_def area_inv_def area_repr_def area_ok_def area_bounds_def store_ok_def names_ok_def
      entry_at_def trie_at_def param_at_def fun_eq_iff)

lemma area_Ref:
  assumes "area_inv a c" "hd_data a d = Some x" "d \<noteq> 0"
  shows "GetTrieNode a d = Ref d"
  using assms store_ok_below [of a d x] by (auto simp: GetTrieNode_def area_inv_def area_ok_def area_bounds_def)

lemma AddParam_cases:
  assumes ws: "CheckWorkSpace ws = 0" "ws_area ws = Some a" and inv: "area_inv a c"
    and nm: "storable nm" "entry_at a c nm = None" and v: "value_fits type value"
  obtains (full) a' c' where "AddParam ws type mode nm value = Some (ws\<lparr>ws_area := Some a'\<rparr>, PARAM_CODE_REACHED_MAX, 0)"
      "area_inv a' c'" "entry_at a' c' = entry_at a c"
  | (new) a' c' d where "AddParam ws type mode nm value = Some (ws\<lparr>ws_area := Some a'\<rparr>, 0, d)" "d \<noteq> 0"
      "area_inv a' c'" "entry_at a' c' = (entry_at a c)(nm \<mapsto> (d, new_entry type nm value (mode AND 0xff)))"
proof -
  from ws inv nm v show thesis
  proof (cases rule: insert_entry [where mode = "mode AND 0xff"])
    case (no_node a' c')
    then show thesis by (intro full [of a' c']) (auto simp: AddParam_def)
  next
    case (no_entry a' c' off n)
    then show thesis by (intro full [of a' c']) (auto simp: AddParam_def GetTrieNode_def)
  next
    case (added a1 c' off n a' d)
    then have "AddParam ws type mode nm value = Some (ws\<lparr>ws_area := Some (bump_commit a')\<rparr>, 0, d)"
      by (auto simp: AddParam_def GetTrieNode_def)
    with added show thesis by (intro new [of "bump_commit a'" d c']) auto
  qed
qed

lemma GetParamMaxLen_le: "GetParamMaxLen type \<le> PARAM_VALUE_LEN_MAX"
proof -
  have "type \<ge> 3 \<or> type = 0 \<or> type = 1 \<or> type = 2" by linarith
  then show ?thesis by (auto simp: GetParamMaxLen_def)
qed

lemma copy_value_entry:
  assumes "entry_for nm e" "length value < 65536"
  shows "entry_for nm (copy_value e value)" "entry_value (copy_value e value) = value"
    "pn_type (copy_value e value) = pn_type e" "pn_keyLength (copy_value e value) = pn_keyLength e"
    "pn_valueLength (copy_value e value) = length value"
    "length (pn_data (copy_value e value)) = pn_keyLength e + 1 + length value"
proof -
  obtain r where r: "pn_data e = nm @ ''='' @ r" "pn_keyLength e = length nm"
    using assms(1) by (auto simp: entry_for_def prefix_def)
  then show "entry_for nm (copy_value e value)" "entry_value (copy_value e value) = value"
    "pn_type (copy_value e value) = pn_type e" "pn_keyLength (copy_value e value) = pn_keyLength e"
    "pn_valueLength (copy_value e value) = length value"
    "length (pn_data (copy_value e value)) = pn_keyLength e + 1 + length value"
    using assms(2) by (simp_all add: entry_for_def entry_value_def copy_value_def)
qed

lemma update_commit [simp]:
  "entry_for nm (e\<lparr>pn_commitId := i\<rparr>) = entry_for nm e" "entry_value (e\<lparr>pn_commitId := i\<rparr>) = entry_value e"
  "cell_room (ParamCell (e\<lparr>pn_commitId := i\<rparr>)) = cell_room (ParamCell e)"
  "cell_typed m (ParamCell (e\<lparr>pn_commitId := i\<rparr>)) = cell_typed m (ParamCell e)"
  by (simp_all add: entry_for_def entry_value_def)

lemma copy_value_commit: "copy_value (e\<lparr>pn_commitId := i\<rparr>) v = (copy_value e v)\<lparr>pn_commitId := i\<rparr>"
  by (simp add: copy_value_def)

lemma UpdateParam_copies:
  assumes inv: "area_inv a c" and ent: "entry_at a c nm = Some (d, e)"
    and len: "length value < GetParamMaxLen (pn_type e)" "pn_valueLength e < PARAM_VALUE_LEN_MAX"
    and mode: "mode AND LOAD_PARAM_UPDATE_CONST \<noteq> LOAD_PARAM_UPDATE_CONST"
  shows "\<exists>a' e'. UpdateParam a d nm value mode = Some (a', 0) \<and> area_inv a' c \<and>
    entry_at a' c = (entry_at a c)(nm \<mapsto> (d, e')) \<and> entry_value e' = value"
proof -
  note e = entry_at_entry_for [OF inv ent]
  have lv: "length value < PARAM_VALUE_LEN_MAX" using len(1) GetParamMaxLen_le [of "pn_type e"] by simp
  note cv = copy_value_entry [OF e(1), of "value"]
  have e2: "entry_for nm (copy_value e value)" "entry_value (copy_value e value) = value" using cv lv by simp_all
  have room: "cell_room (ParamCell (copy_value e value)) \<le> cell_room (ParamCell e)"
    using cv lv len(2) by (simp add: value_slot_def)
  have typed: "cell_typed (hd_data a) (ParamCell (copy_value e value))"
    using cv lv len by (simp add: value_slot_def)
  have ref: "GetTrieNode a d = Ref d" using area_Ref [OF inv e(2,3)] .
  have key: "pn_keyLength e = length nm" using e(1) by (simp add: entry_for_def)
  have "\<exists>i. UpdateParam a d nm value mode = Some (bump_commit (put_cell a d (ParamCell ((copy_value e value)\<lparr>pn_commitId := i\<rparr>))), 0)"
    using ref e(2) key mode lv len(2)
    by (auto simp: UpdateParam_def param_at_def Let_def copy_value_commit)
  then obtain i where u: "UpdateParam a d nm value mode =
      Some (bump_commit (put_cell a d (ParamCell ((copy_value e value)\<lparr>pn_commitId := i\<rparr>))), 0)" ..
  have "area_inv (put_cell a d (ParamCell ((copy_value e value)\<lparr>pn_commitId := i\<rparr>))) c \<and>
    entry_at (put_cell a d (ParamCell ((copy_value e value)\<lparr>pn_commitId := i\<rparr>))) c =
      (entry_at a c)(nm \<mapsto> (d, (copy_value e value)\<lparr>pn_commitId := i\<rparr>))"
    using update_entry [OF inv ent, of "(copy_value e value)\<lparr>pn_commitId := i\<rparr>"] e2 room typed
    unfolding update_commit by blast
  with u e2(2) show ?thesis
    by (intro exI [of _ "bump_commit (put_cell a d (ParamCell ((copy_value e value)\<lparr>pn_commitId := i\<rparr>)))"]
        exI [of _ "(copy_value e value)\<lparr>pn_commitId := i\<rparr>"]) simp
qed

lemma value_fits_short:
  "length value < GetParamMaxLen type \<Longrightarrow> value_fits type value"
  using GetParamMaxLen_le [of type] by (simp add: value_fits_def value_slot_def)

lemma entry_valueLength:
  "entry_for nm e \<Longrightarrow> pn_valueLength e = length (entry_value e)"
  by (auto simp: entry_for_def entry_value_def prefix_def)

text \<open>The values that a new read-only parameter may have: its node must have room for them.\<close>

definition const_fits :: "ParamWorkSpace \<Rightarrow> string \<Rightarrow> string \<Rightarrow> bool" where
  "const_fits pw name value =
     (IS_READY_ONLY name \<longrightarrow> (\<forall>type. GetParamValueType pw name = Some type \<longrightarrow> value_fits type value))"

lemma CheckParamValue_ok:
  assumes "CheckParamValue hasData name value type = 0"
  shows "IS_READY_ONLY name \<Longrightarrow> \<not> hasData" "\<not> IS_READY_ONLY name \<Longrightarrow> length value < GetParamMaxLen type"
  using assms by (auto simp: CheckParamValue_def split: if_splits)

lemma WriteParam_cases:
  assumes inv: "pw_inv pw" and nm: "storable name" and fits: "const_fits pw name value"
    and mode: "mode AND LOAD_PARAM_UPDATE_CONST \<noteq> LOAD_PARAM_UPDATE_CONST"
  obtains (written) pw' idx where "WriteParam pw name value mode = Some (pw', 0, idx)" "pw_inv pw'" "idx \<noteq> 0"
      "space_params pw' = (space_params pw)(name \<mapsto> value)"
      "pw_checkParamPermission pw' = pw_checkParamPermission pw" "pw_securityLabel pw' = pw_securityLabel pw"
  | (refused) pw' ret idx where "WriteParam pw name value mode = Some (pw', ret, idx)" "ret \<noteq> 0" "pw_inv pw'"
      "space_params pw' = space_params pw"
      "pw_checkParamPermission pw' = pw_checkParamPermission pw" "pw_securityLabel pw' = pw_securityLabel pw"
proof -
  obtain ws rest a c where w: "PARAM_WORKSPACE_CHECK pw" "pw_workSpace pw = Some (Some ws # rest)" "ws_inv ws"
    "CheckWorkSpace ws = 0" "ws_area ws = Some a" "area_inv a c" "space_params pw = ws_params ws"
    "GetWorkSpaceByName pw = (\<lambda>name. Some (Some ws))" "GetWorkSpace pw = (\<lambda>i. Some (Some ws))"
    by (rule pw_invE [OF inv])
  note dt = FindTrieNode_data_entry [OF w(5,6), of name]
  have len: "length name < 256" using nm by (simp add: storable_def)
  have par: "ws_params ws nm' = map_option (entry_value \<circ> snd) (entry_at a c nm')" for nm'
    using ws_params_entry [OF w(5,6)] .
  have par': "ws_params (ws\<lparr>ws_area := Some a'\<rparr>) = (\<lambda>nm'. map_option (entry_value \<circ> snd) (entry_at a' c' nm'))"
    if "area_inv a' c'" for a' c'
    using ws_params_entry [of "ws\<lparr>ws_area := Some a'\<rparr>" a' c'] that by (auto simp: fun_eq_iff)
  have ps [simp]: "pw_checkParamPermission (put_space pw x) = pw_checkParamPermission pw"
    "pw_securityLabel (put_space pw x) = pw_securityLabel pw" for x
    by (simp_all add: put_space_def)
  show thesis
  proof (cases "entry_at a c name")
    case (Some r)
    obtain d e where r: "r = (d, e)" by fastforce
    note e = entry_at_entry_for [OF w(6) Some [unfolded r]]
    have d: "FindTrieNode_data ws name = Some d" "d \<noteq> 0" "GetTrieNode a d = Ref d" "param_at a d = Some e"
      using dt Some r e area_Ref [OF w(6) e(2,3)] by (simp_all add: data_index_def param_at_def)
    let ?ret = "CheckParamValue True name value (pn_type e)"
    show thesis
    proof (cases "mode AND LOAD_PARAM_ONLY_ADD = LOAD_PARAM_ONLY_ADD \<or> ?ret \<noteq> 0")
      case True
      let ?r = "if mode AND LOAD_PARAM_ONLY_ADD = LOAD_PARAM_ONLY_ADD then PARAM_CODE_READ_ONLY else ?ret"
      have "WriteParam pw name value mode = Some (pw, ?r, d)" using True w d mode by (auto simp: WriteParam_def)
      moreover have "?r \<noteq> 0" using True by auto
      ultimately show thesis by (rule refused [OF _ _ inv]) simp_all
    next
      case False
      then have rw: "\<not> IS_READY_ONLY name" "length value < GetParamMaxLen (pn_type e)"
        using CheckParamValue_ok [of True name "value" "pn_type e"] by auto
      have "ws_params ws name = Some (entry_value e)" using par Some r by simp
      then have "pn_valueLength e < PARAM_VALUE_LEN_MAX"
        using inv rw(1) w(7) entry_valueLength [OF e(1)] by (simp add: pw_inv_def)
      from UpdateParam_copies [OF w(6) Some [unfolded r] rw(2) this mode] obtain a' e' where
        u: "UpdateParam a d name value mode = Some (a', 0)" "area_inv a' c"
          "entry_at a' c = (entry_at a c)(name \<mapsto> (d, e'))" "entry_value e' = value" by blast
      let ?ws' = "ws\<lparr>ws_area := Some a'\<rparr>"
      have W: "WriteParam pw name value mode = Some (put_space pw ?ws', 0, d)"
        using False w d mode u(1) by (auto simp: WriteParam_def)
      have P: "ws_params ?ws' = (ws_params ws)(name \<mapsto> value)"
        using par' [OF u(2)] par u(3,4) by (auto simp: fun_eq_iff)
      have "length value < PARAM_VALUE_LEN_MAX" using rw(2) GetParamMaxLen_le [of "pn_type e"] by simp
      then have "pw_inv (put_space pw ?ws') \<and> space_params (put_space pw ?ws') = ws_params ?ws'"
        using P by (intro pw_inv_put [OF inv ws_inv_upd [OF w(3) u(2)] w(7)]) (auto split: if_splits)
      with written W d(2) P w(7) show thesis by simp
    qed
  next
    case None
    have d: "FindTrieNode_data ws name = Some 0" using dt None by (simp add: data_index_def)
    obtain type where type: "GetParamValueType pw name = Some type" using GetParamValueType_total [OF inv] by blast
    show thesis
    proof (cases "CheckParamValue False name value type = 0")
      case False
      then have "WriteParam pw name value mode = Some (pw, CheckParamValue False name value type, 0)"
        using w d mode type by (auto simp: WriteParam_def)
      with refused [OF _ False inv] show thesis by blast
    next
      case True
      have vf: "value_fits type value"
        using CheckParamValue_ok [OF True] value_fits_short fits type by (cases "IS_READY_ONLY name") (auto simp: const_fits_def)
      from w(4,5,6) nm None vf show thesis
      proof (cases rule: AddParam_cases [where mode = mode])
        case (full a' c')
        let ?ws' = "ws\<lparr>ws_area := Some a'\<rparr>"
        have W: "WriteParam pw name value mode = Some (put_space pw ?ws', PARAM_CODE_REACHED_MAX, 0)"
          using w d mode type True full(1) by (simp add: WriteParam_def)
        have P: "ws_params ?ws' = ws_params ws" using par' [OF full(2)] par full(3) by (auto simp: fun_eq_iff)
        then have "pw_inv (put_space pw ?ws') \<and> space_params (put_space pw ?ws') = ws_params ?ws'"
          by (intro pw_inv_put [OF inv ws_inv_upd [OF w(3) full(2)] w(7)]) auto
        with refused [OF W] P w(7) show thesis by simp
      next
        case (new a' c' d')
        let ?ws' = "ws\<lparr>ws_area := Some a'\<rparr>"
        have W: "WriteParam pw name value mode = Some (put_space pw ?ws', 0, d')"
          using w d mode type True new(1) by (simp add: WriteParam_def)
        have P: "ws_params ?ws' = (ws_params ws)(name \<mapsto> value)"
          using par' [OF new(3)] par new(4) entry_value_new_entry [OF len] by (auto simp: fun_eq_iff)
        have "length value < PARAM_VALUE_LEN_MAX" if "\<not> IS_READY_ONLY name"
          using CheckParamValue_ok(2) [OF True that] GetParamMaxLen_le [of type] by simp
        then have "pw_inv (put_space pw ?ws') \<and> space_params (put_space pw ?ws') = ws_params ?ws'"
          using P by (intro pw_inv_put [OF inv ws_inv_upd [OF w(3) new(3)] w(7)]) (auto split: if_splits)
        with written W new(2) P w(7) show thesis by simp
      qed
    qed
  qed
qed

subsection \<open>Reading\<close>

lemma FindTrieNode_node:
  assumes "ws_area ws = Some a" "area_inv a c"
  obtains (none) l where "FindTrieNode ws name = Some (NULL, l)" "ws_params ws name = None" "entry_at a c name = None"
  | (empty) l off n where "FindTrieNode ws name = Some (Ref off, l)" "trie_at a off = Some n" "tn_dataIndex n = 0"
      "ws_params ws name = None" "entry_at a c name = None"
  | (entry) l off n e where "FindTrieNode ws name = Some (Ref off, l)" "trie_at a off = Some n" "tn_dataIndex n \<noteq> 0"
      "hd_data a (tn_dataIndex n) = Some (ParamCell e)" "entry_for name e" "ws_params ws name = Some (entry_value e)"
      "entry_at a c name = Some (tn_dataIndex n, e)"
proof -
  note par = ws_params_entry [OF assms, of name] and dt = FindTrieNode_data_entry [OF assms, of name]
  have none0: "entry_at a c name = None" if "data_index (entry_at a c name) = 0"
  proof (rule ccontr)
    assume "entry_at a c name \<noteq> None"
    then obtain d e where "entry_at a c name = Some (d, e)" by auto
    with that entry_at_entry_for(3) [OF assms(2) this] show False by (simp add: data_index_def)
  qed
  obtain p l where f: "FindTrieNode ws name = Some (p, l)" using FindTrieNode_total [OF assms] by blast
  show thesis
  proof (cases p)
    case NULL
    with f dt assms(1) have "data_index (entry_at a c name) = 0" by (simp add: FindTrieNode_data_def)
    with none [of l] f NULL par none0 show thesis by simp
  next
    case (Ref off)
    with FindTrieNode_Ref_trie [OF assms, of name off l] f obtain n where n: "trie_at a off = Some n"
      by (auto simp: trie_at_def)
    with f dt assms(1) Ref have d: "data_index (entry_at a c name) = tn_dataIndex n" by (simp add: FindTrieNode_data_def)
    show thesis
    proof (cases "tn_dataIndex n = 0")
      case True
      with empty [of off l n] f Ref n d par none0 show thesis by simp
    next
      case False
      with d obtain e where e: "entry_at a c name = Some (tn_dataIndex n, e)"
        by (auto simp: data_index_def split: option.splits)
      with entry [of off l n e] f Ref n False entry_at_entry_for [OF assms(2) e] par show thesis by simp
    qed
  qed
qed

lemma CheckParamPermission_ok:
  assumes "pw_inv pw" "CheckParamPermission musl pw src name mode = Some 0" "pw_workSpace pw = Some (Some ws # rest)"
    "FindTrieNode ws name = Some (node, l)"
  shows "CheckParamPermission_inner musl pw src name mode = Some (0, Some ws, node)"
proof -
  have "GetWorkSpace pw 0 = Some (Some ws)" "GetWorkSpaceByName pw name = Some (Some ws)"
    using assms(1,3) by (auto simp: pw_inv_def GetWorkSpace_def GetWorkSpaceByName_def)
  with assms(2,4) show ?thesis
    by (auto simp: CheckParamPermission_def CheckParamPermission_inner_def FindTrieNode_in_def split: if_splits bind_splits)
qed

lemma ReadParamValue_entry:
  assumes "entry_for name e"
  shows "ReadParamValue (Some (\<lambda>t. e)) True len =
    Some (if length (entry_value e) < len then (0, Some (entry_value e), length (entry_value e))
     else (PARAM_CODE_INVALID_VALUE, None, len))"
proof -
  have "ReadParamValue_loop (\<lambda>t. e) 3 (ReadCommitId (\<lambda>t. e) 1) len =
      Some (0, Some (entry_value e), length (entry_value e))" if "length (entry_value e) < len"
    using entry_valueLength [OF assms] that
    by (subst ReadParamValue_loop.simps) (simp add: ReadCommitId_def entry_value_def)
  then show ?thesis using entry_valueLength [OF assms] by (simp add: ReadParamValue_def)
qed

definition read_result :: "string option \<Rightarrow> nat \<Rightarrow> int \<times> string option \<times> nat" where
  "read_result v len =
     (case v of
        None \<Rightarrow> (PARAM_CODE_NOT_FOUND, None, len)
      | Some s \<Rightarrow> if length s < len then (0, Some s, length s) else (PARAM_CODE_INVALID_VALUE, None, len))"

lemma SystemReadParam_result:
  assumes "pw_inv pw" "CheckParamPermission musl pw (GetParamSecurityLabel pw) name DAC_READ = Some 0"
  shows "SystemReadParam musl pw name True len = Some (read_result (space_params pw name) len)"
proof -
  obtain ws rest a c where w: "PARAM_WORKSPACE_CHECK pw" "pw_workSpace pw = Some (Some ws # rest)"
    "ws_area ws = Some a" "area_inv a c" "space_params pw = ws_params ws"
    by (rule pw_invE [OF assms(1)])
  note perm = CheckParamPermission_ok [OF assms w(2)]
  from w(3,4) show ?thesis
  proof (cases rule: FindTrieNode_node [where name = name])
    case (none l)
    with perm w show ?thesis by (simp add: SystemReadParam_def read_result_def)
  next
    case (empty l off n)
    with perm w show ?thesis
      by (simp add: SystemReadParam_def read_result_def ParamNode_in_def GetTrieNode_def ReadParamValue_def)
  next
    case (entry l off n e)
    have "GetTrieNode a (tn_dataIndex n) = Ref (tn_dataIndex n)" using area_Ref [OF w(4) entry(4,3)] .
    with perm w entry ReadParamValue_entry [OF entry(5), of len] show ?thesis
      by (simp add: SystemReadParam_def read_result_def ParamNode_in_def param_at_def)
  qed
qed

lemma CheckParamPermission_root:
  assumes "pw_inv pw" "pw_checkParamPermission pw" "uc_uid (sl_cred src) = 0"
  shows "CheckParamPermission musl pw src name mode = Some 0"
proof -
  obtain ws rest a c where w: "ws_area ws = Some a" "area_inv a c"
    "GetWorkSpaceByName pw = (\<lambda>name. Some (Some ws))" "GetWorkSpace pw = (\<lambda>i. Some (Some ws))"
    by (rule pw_invE [OF assms(1)])
  obtain p l where "FindTrieNode ws name = Some (p, l)" using FindTrieNode_total [OF w(1,2)] by blast
  with w assms(2,3) show ?thesis
    by (simp add: CheckParamPermission_def CheckParamPermission_inner_def FindTrieNode_in_def
        BaseCheckParamPermission_def DacCheckParamPermission_def)
qed

text \<open>Handles of a workspace below 16 MiB.\<close>

lemma and_mask24: "n < 16777216 \<Longrightarrow> n AND 16777215 = (n :: nat)"
proof -
  assume "n < 16777216"
  moreover have "take_bit 24 n = n AND 16777215" using take_bit_eq_mask [of 24 n] by (simp add: mask_eq_exp_minus_1)
  ultimately show ?thesis using take_bit_nat_eq_self [of n 24] by simp
qed

lemma and_3_mod: "n AND 3 = n mod (4 :: nat)"
proof -
  have "take_bit 2 n = n AND 3" using take_bit_eq_mask [of 2 n] by (simp add: mask_eq_exp_minus_1)
  then show ?thesis using take_bit_eq_mod [of 2 n] by simp
qed

lemma handle_info:
  assumes "ws_spaceIndex ws = 0" "d < 16777216" "PARAM_IS_ALIGNED d"
  shows "PARAM_HANDLE ws d = d" "PARAM_GET_HANDLE_INFO d = (0, d)"
proof -
  show "PARAM_HANDLE ws d = d" using assms(1) by (simp add: PARAM_HANDLE_def)
  have "drop_bit 24 d = 0" using assms(2) by (simp add: drop_bit_eq_div)
  then show "PARAM_GET_HANDLE_INFO d = (0, d)"
    using assms(2,3) and_mask24 [OF assms(2)] by (simp add: PARAM_GET_HANDLE_INFO_def and_3_mod PARAM_IS_ALIGNED_def)
qed

lemma area_aligned: "area_inv a c \<Longrightarrow> hd_data a d = Some x \<Longrightarrow> PARAM_IS_ALIGNED d \<and> d < hd_dataSize a"
  using store_ok_below [of a d x] by (auto simp: area_inv_def area_ok_def store_ok_def area_bounds_def)

subsection \<open>Control parameters\<close>

lemma CreateCtrlInfo_Some:
  "snd (CreateCtrlInfo cmd off ctl key) = Some s \<Longrightarrow>
     sc_realKey s = key \<and> sc_cmdName s = cmd \<and> sc_valueOffset s = off \<and> sc_ctrlParam s = ctl"
  by (auto simp: CreateCtrlInfo_def split: if_splits)

lemma find_prefix_Some: "find_prefix tbl text = Some i \<Longrightarrow> i \<in> set tbl \<and> strncmp_eq text (ci_name i) (length (ci_name i))"
  by (induction tbl) (auto split: if_splits)

subsection \<open>Properties\<close>

text \<open>The example workspace inside a parameter space.\<close>

definition demo_pw :: ParamWorkSpace where
  "demo_pw = \<lparr>pw_flags = 1,
     pw_securityLabel = \<lparr>sl_sockFd = 0, sl_cred = \<lparr>uc_pid = 9, uc_uid = 0, uc_gid = 0\<rparr>, sl_flags = 0\<rparr>,
     pw_paramSecurityOps = \<lparr>so_name = ''dac'', so_securityInitLabel = True, so_securityGetLabel = True,
       so_securityCheckFilePermission = True, so_securityFreeLabel = True\<rparr>,
     pw_ops = \<lparr>op_updaterMode = 0, op_logFunc = False, op_getServiceGroupIdByPid = None\<rparr>,
     pw_checkParamPermission = True, pw_maxSpaceCount = 1, pw_maxLabelIndex = 1, pw_workSpace = Some [Some demo_ws1]\<rparr>"

lemmas demo_pw_eval = demo_pw_def demo_eval PARAM_WORKSPACE_CHECK_def GetWorkSpaceByName_def GetWorkSpace_def
  put_space_def FindTrieNode_in_def GetLabel_in_def WriteParam_def UpdateParam_def AddParam_def copy_value_def
  bump_commit_def GetParamValueType_def CheckParamValue_def CheckParamValueType_def IS_READY_ONLY_def strncmp_eq_def
  SystemFindParameter_def CheckParamPermission_inner_def GetParamSecurityLabel_def BaseCheckParamPermission_def
  DacCheckParamPermission_def PARAM_HANDLE_def

lemma demo_ws1_params: "ws_params demo_ws1 name = (if name = ''a.b'' then Some ''v'' else None)"
proof (rule demo_ws_ok)
  fix a assume a: "CheckWorkSpace demo_ws = 0" "ws_area demo_ws = Some a" "area_inv a Tip" "entry_at a Tip = Map.empty"
  from a(1-3) storable_ab fits_v show ?thesis
  proof (cases rule: AddParamEntry_cases)
    case (new a' c' d)
    then have d: "demo_ws1 = demo_ws\<lparr>ws_area := Some a'\<rparr>" by (simp add: demo_ws1_def)
    have "ws_area demo_ws1 = Some a'" unfolding d by simp
    from ws_params_entry [OF this new(2), of name] new(4) a(4) show ?thesis by (simp add: entry_value_new_entry)
  qed (use a demo_ws1_eq in auto)
qed

lemma demo_pw_inv: "pw_inv demo_pw" "space_params demo_pw name = (if name = ''a.b'' then Some ''v'' else None)"
proof -
  show p: "space_params demo_pw name = (if name = ''a.b'' then Some ''v'' else None)" for name
    by (simp add: space_params_def demo_pw_def demo_ws1_params)
  show "pw_inv demo_pw"
    unfolding pw_inv_def p using demo_ws1_inv by (auto simp: demo_pw_def PARAM_WORKSPACE_CHECK_def)
qed

lemma valid_ab: "CheckParamName ''a.b'' False = 0"
  by (simp add: CheckParamName_def isalnum_def isalpha_def isdigit_def ascii_def)

text \<open>C29: the names that the service accepts are exactly \<open>#\<close> and the names below 96 characters that are made of
  one or more nonempty components of letters, digits and \<open>_ - @ :\<close>, joined by single dots.\<close>

theorem CheckParamName_valid:
  "CheckParamName name False = 0 \<longleftrightarrow>
     length name < PARAM_NAME_LEN_MAX \<and> (name = ''#'' \<or> (\<exists>ks. valid_path ks \<and> name = join ks))"
  by (rule CheckParamName_iff)



text \<open>C11: a value that was written is what a privileged reader gets back, with its length, whenever the buffer
  has room for it and its terminator.\<close>

theorem read_after_write:
  assumes "pw_inv pw" "CheckParamName name False = 0" "const_fits pw name value"
    and "mode AND LOAD_PARAM_UPDATE_CONST \<noteq> LOAD_PARAM_UPDATE_CONST"
    and "WriteParam pw name value mode = Some (pw', 0, idx)"
    and "pw_checkParamPermission pw" "uc_uid (sl_cred (pw_securityLabel pw)) = 0" "length value < len"
  shows "SystemReadParam musl pw' name True len = Some (0, Some value, length value)"
proof -
  have w: "pw_inv pw'" "space_params pw' = (space_params pw)(name \<mapsto> value)"
    "pw_checkParamPermission pw' = pw_checkParamPermission pw" "pw_securityLabel pw' = pw_securityLabel pw"
    using assms(1) CheckParamName_storable [OF assms(2)] assms(3,4)
    by (cases rule: WriteParam_cases; use assms(5) in auto)+
  have "CheckParamPermission musl pw' (GetParamSecurityLabel pw') name DAC_READ = Some 0"
    using CheckParamPermission_root [OF w(1)] w(3,4) assms(6,7) by (simp add: GetParamSecurityLabel_def)
  from SystemReadParam_result [OF w(1) this, of len] w(2) assms(8) show ?thesis by (simp add: read_result_def)
qed

theorem read_after_write_witness:
  "\<exists>pw' idx. WriteParam demo_pw ''a.b'' ''w'' 0 = Some (pw', 0, idx) \<and>
     (\<forall>musl. SystemReadParam musl pw' ''a.b'' True 96 = Some (0, Some ''w'', 1))"
proof -
  have "map_option (fst \<circ> snd) (WriteParam demo_pw ''a.b'' ''w'' 0) = Some 0"
    by (simp add: demo_pw_eval)
  then obtain pw' idx where w: "WriteParam demo_pw ''a.b'' ''w'' 0 = Some (pw', 0, idx)" by auto
  have "const_fits demo_pw ''a.b'' ''w''" by (simp add: const_fits_def IS_READY_ONLY_def strncmp_eq_def)
  from read_after_write [OF demo_pw_inv(1) valid_ab this _ w] w show ?thesis
    by (auto simp: demo_pw_def)
qed

text \<open>C27: a parameter with a read-only prefix that has a value keeps it: without the mode that updates constants
  every further write is refused and changes nothing at all.\<close>

theorem WriteParam_read_only:
  assumes "pw_inv pw" "storable name" "IS_READY_ONLY name" "space_params pw name = Some v"
    and "mode AND LOAD_PARAM_UPDATE_CONST \<noteq> LOAD_PARAM_UPDATE_CONST"
  shows "\<exists>ret idx. WriteParam pw name value mode = Some (pw, ret, idx) \<and>
    (ret = PARAM_CODE_READ_ONLY \<or> ret = PARAM_CODE_INVALID_VALUE)"
proof -
  obtain ws rest a c where w: "PARAM_WORKSPACE_CHECK pw" "ws_area ws = Some a" "area_inv a c"
    "space_params pw = ws_params ws" "GetWorkSpaceByName pw = (\<lambda>name. Some (Some ws))"
    by (rule pw_invE [OF assms(1)])
  obtain d e where e: "entry_at a c name = Some (d, e)"
    using ws_params_entry [OF w(2,3), of name] w(4) assms(4) by auto
  note ee = entry_at_entry_for [OF w(3) e]
  have "FindTrieNode_data ws name = Some d" "GetTrieNode a d = Ref d" "param_at a d = Some e"
    using FindTrieNode_data_entry [OF w(2,3), of name] e area_Ref [OF w(3) ee(2,3)] ee(2)
    by (simp_all add: data_index_def param_at_def)
  moreover have "CheckParamValue True name value (pn_type e) =
      (if length value < PARAM_CONST_VALUE_LEN_MAX then PARAM_CODE_READ_ONLY else PARAM_CODE_INVALID_VALUE)"
    using assms(3) by (simp add: CheckParamValue_def)
  ultimately show ?thesis
    using w(1,2,5) ee(3) assms(5)
    by (cases "mode AND LOAD_PARAM_ONLY_ADD = LOAD_PARAM_ONLY_ADD"; cases "length value < PARAM_CONST_VALUE_LEN_MAX")
       (simp_all add: WriteParam_def)
qed

theorem WriteParam_read_only_witness:
  "\<exists>pw idx. WriteParam demo_pw ''ro.x'' ''v'' 0 = Some (pw, 0, idx) \<and> IS_READY_ONLY ''ro.x'' \<and>
     space_params pw ''ro.x'' = Some ''v'' \<and>
     (\<exists>ret idx. WriteParam pw ''ro.x'' ''w'' 0 = Some (pw, ret, idx) \<and>
       (ret = PARAM_CODE_READ_ONLY \<or> ret = PARAM_CODE_INVALID_VALUE))"
proof -
  have "map_option (fst \<circ> snd) (WriteParam demo_pw ''ro.x'' ''v'' 0) = Some 0"
    by (simp add: demo_pw_eval)
  then obtain pw idx where w: "WriteParam demo_pw ''ro.x'' ''v'' 0 = Some (pw, 0, idx)" by auto
  have st: "storable ''ro.x''" and ro: "IS_READY_ONLY ''ro.x''"
    using key_split_dot [of "''ro''" "''x''"] by (simp_all add: storable_def key_split_last IS_READY_ONLY_def strncmp_eq_def)
  have "value_fits type ''v''" for type
  proof -
    have "type \<ge> 3 \<or> type = 0 \<or> type = 1 \<or> type = 2" by linarith
    then show ?thesis by (auto simp: value_fits_def value_slot_def GetParamMaxLen_def)
  qed
  then have "const_fits demo_pw ''ro.x'' ''v''" by (simp add: const_fits_def)
  from demo_pw_inv(1) st this have i: "pw_inv pw" "space_params pw ''ro.x'' = Some ''v''"
    by (cases rule: WriteParam_cases [where mode = 0]; use w in auto)+
  from WriteParam_read_only [OF i(1) st ro i(2), of 0 "''w''"] w ro i show ?thesis by auto
qed



text \<open>The argument of the command that a control parameter triggers is the value that was set, and the
  permission of such a write is checked on a name below \<open>ohos.servicectrl.\<close>.\<close>

theorem GetServiceCtrlInfo_argument:
  assumes "snd (GetServiceCtrlInfo tbl name value) = Some s" "sc_ctrlParam s = 1"
  shows "drop (sc_valueOffset s) (sc_realKey s) = value \<and> prefix OHOS_SERVICE_CTRL_PREFIX (sc_realKey s)"
proof -
  have pre: "prefix ''ohos.servicectrl.'' name" if "strncmp_eq ''ohos.servicectrl.'' name 17"
    using that by (auto simp: strncmp_eq_def intro: take_is_prefix [of 17 name])
  have "name = ''ohos.startup.powerctrl'' \<Longrightarrow> ?thesis"
    using assms(1) by (auto simp: GetServiceCtrlInfo_def GetServiceCtrlInfoForPowerCtrl_def Let_def
        dest!: CreateCtrlInfo_Some split: if_splits option.splits)
  moreover have "name \<noteq> ''ohos.startup.powerctrl'' \<Longrightarrow> ?thesis"
    using assms pre by (auto simp: GetServiceCtrlInfo_def dest!: CreateCtrlInfo_Some split: if_splits option.splits)
  ultimately show ?thesis by blast
qed

theorem GetServiceCtrlInfo_argument_witness:
  "\<exists>s. snd (GetServiceCtrlInfo GetStartupPowerCtl ''ohos.ctl.start'' ''foo'') = Some s \<and> sc_ctrlParam s = 1 \<and>
     drop (sc_valueOffset s) (sc_realKey s) = ''foo''"
proof -
  have "\<exists>s. snd (GetServiceCtrlInfo GetStartupPowerCtl ''ohos.ctl.start'' ''foo'') = Some s \<and> sc_ctrlParam s = 1"
    by (simp add: GetServiceCtrlInfo_def strncmp_eq_def GetServiceStartCtrl_def CreateCtrlInfo_def)
  then obtain s where s: "snd (GetServiceCtrlInfo GetStartupPowerCtl ''ohos.ctl.start'' ''foo'') = Some s" "sc_ctrlParam s = 1"
    by blast
  from GetServiceCtrlInfo_argument [OF s] s show ?thesis by blast
qed

text \<open>C39: a parameter of type int refuses every negative number although the check has a branch for them: the
  second conversion rejects each value that begins with a minus sign.\<close>

theorem CheckParamValueType_negative:
  "CheckParamValueType name (CHR ''-'' # digits) PARAM_TYPE_INT = PARAM_CODE_INVALID_VALUE"
proof -
  have "StringToULL (CHR ''-'' # digits) = None" by (simp add: StringToULL_def isspace_def ascii_def)
  then show ?thesis by (simp add: CheckParamValueType_def)
qed



end
