(* ===== verification/Param_Seqlock.thy ===== *)
theory Param_Seqlock
  imports Param_Write
begin

text \<open>
  Reading an entry while another process updates it. A writer (\<^verbatim>\<open>UpdateParam\<close>) sets the modify flag, copies the
  value, and stores the next commit number without the flag; a reader (\<^verbatim>\<open>ReadParamValue\<close>) copies the value
  between two reads of the commit number. The interleaving is a step relation of the writer; the reader sees
  one state of the entry at each of its accesses.
\<close>

subsection \<open>The writer\<close>

text \<open>An entry, whether a write is in progress, and the number of writes completed.\<close>

record shared =
  sq_node :: ParamNode
  sq_writing :: bool
  sq_count :: nat

definition value_text :: "ParamNode \<Rightarrow> string" where
  "value_text e = take (pn_valueLength e) (drop (pn_keyLength e + 1) (pn_data e))"

text \<open>While a write is in progress the value may have any contents. Between the steps flags of the commit id
  may be set (\<^verbatim>\<open>PARAM_FLAGS_WAITED\<close>, \<^verbatim>\<open>PARAM_FLAGS_PERSIST\<close>).\<close>

inductive wstep :: "shared \<Rightarrow> shared \<Rightarrow> bool" where
  begin_write: "\<not> sq_writing s \<Longrightarrow> s' = s\<lparr>sq_writing := True,
      sq_node := (sq_node s)\<lparr>pn_commitId := pn_commitId (sq_node s) OR PARAM_FLAGS_MODIFY\<rparr>\<rparr> \<Longrightarrow> wstep s s'"
| copy: "sq_writing s \<Longrightarrow> s' = s\<lparr>sq_node := (sq_node s)\<lparr>pn_data := d, pn_valueLength := n\<rparr>\<rparr> \<Longrightarrow> wstep s s'"
| end_write: "sq_writing s \<Longrightarrow> commitId AND PARAM_FLAGS_MODIFY = 0 \<Longrightarrow>
    commitId AND PARAM_FLAGS_COMMITID = pn_commitId (sq_node s) AND PARAM_FLAGS_COMMITID \<Longrightarrow>
    s' = s\<lparr>sq_writing := False, sq_count := sq_count s + 1,
      sq_node := (sq_node s)\<lparr>pn_commitId := (commitId AND NOT PARAM_FLAGS_COMMITID) OR
        ((commitId + 1) AND PARAM_FLAGS_COMMITID)\<rparr>\<rparr> \<Longrightarrow> wstep s s'"
| set_flag: "f AND PARAM_FLAGS_MODIFY = 0 \<Longrightarrow> f AND PARAM_FLAGS_COMMITID = 0 \<Longrightarrow>
    s' = s\<lparr>sq_node := (sq_node s)\<lparr>pn_commitId := pn_commitId (sq_node s) OR f\<rparr>\<rparr> \<Longrightarrow> wstep s s'"

definition shared_inv :: "shared \<Rightarrow> bool" where
  "shared_inv s =
     ((sq_writing s \<longleftrightarrow> pn_commitId (sq_node s) AND PARAM_FLAGS_MODIFY \<noteq> 0) \<and>
      pn_commitId (sq_node s) AND PARAM_FLAGS_COMMITID = word_of_nat (sq_count s) AND PARAM_FLAGS_COMMITID)"

subsection \<open>Lemmas\<close>

lemma commit_masks:
  fixes x y :: "32 word"
  shows "(x OR PARAM_FLAGS_MODIFY) AND PARAM_FLAGS_MODIFY \<noteq> 0"
    "(x OR PARAM_FLAGS_MODIFY) AND PARAM_FLAGS_COMMITID = x AND PARAM_FLAGS_COMMITID"
    "x AND PARAM_FLAGS_MODIFY = 0 \<Longrightarrow>
      ((x AND NOT PARAM_FLAGS_COMMITID) OR (y AND PARAM_FLAGS_COMMITID)) AND PARAM_FLAGS_MODIFY = 0"
    "((x AND NOT PARAM_FLAGS_COMMITID) OR (y AND PARAM_FLAGS_COMMITID)) AND PARAM_FLAGS_COMMITID = y AND PARAM_FLAGS_COMMITID"
proof -
  have dist: "(x OR z) AND m = (x AND m) OR (z AND m)" for x z m :: "32 word"
    by (rule bit_word_eqI) (auto simp: bit_simps)
  have assoc: "(x AND z) AND m = x AND (z AND m)" for x z m :: "32 word"
    by (rule bit_word_eqI) (auto simp: bit_simps)
  have nz: "(PARAM_FLAGS_MODIFY :: 32 word) AND PARAM_FLAGS_MODIFY = PARAM_FLAGS_MODIFY" by simp
  show "(x OR PARAM_FLAGS_MODIFY) AND PARAM_FLAGS_MODIFY \<noteq> 0"
  proof
    assume "(x OR PARAM_FLAGS_MODIFY) AND PARAM_FLAGS_MODIFY = 0"
    hence "\<not> bit ((x OR PARAM_FLAGS_MODIFY) AND PARAM_FLAGS_MODIFY) 31" by simp
    moreover have "bit (PARAM_FLAGS_MODIFY :: 32 word) 31" by simp
    ultimately show False by (simp add: bit_and_iff bit_or_iff)
  qed
  show "(x OR PARAM_FLAGS_MODIFY) AND PARAM_FLAGS_COMMITID = x AND PARAM_FLAGS_COMMITID"
    unfolding dist by simp
  have n1: "NOT PARAM_FLAGS_COMMITID AND PARAM_FLAGS_MODIFY = (PARAM_FLAGS_MODIFY :: 32 word)" by simp
  have n2: "PARAM_FLAGS_COMMITID AND PARAM_FLAGS_MODIFY = (0 :: 32 word)" by simp
  show "((x AND NOT PARAM_FLAGS_COMMITID) OR (y AND PARAM_FLAGS_COMMITID)) AND PARAM_FLAGS_MODIFY = 0"
    if "x AND PARAM_FLAGS_MODIFY = 0"
    unfolding dist assoc n1 n2 using that by simp
  have n3: "NOT PARAM_FLAGS_COMMITID AND PARAM_FLAGS_COMMITID = (0 :: 32 word)" by simp
  have n4: "PARAM_FLAGS_COMMITID AND PARAM_FLAGS_COMMITID = (PARAM_FLAGS_COMMITID :: 32 word)" by simp
  show "((x AND NOT PARAM_FLAGS_COMMITID) OR (y AND PARAM_FLAGS_COMMITID)) AND PARAM_FLAGS_COMMITID = y AND PARAM_FLAGS_COMMITID"
    unfolding dist assoc n3 n4 by simp
qed

lemma low_take_bit: "(x :: 32 word) AND PARAM_FLAGS_COMMITID = take_bit 16 x"
  by (simp add: take_bit_eq_mask mask_eq_exp_minus_1)

lemma low_count: "(word_of_nat n :: 32 word) AND PARAM_FLAGS_COMMITID = word_of_nat m AND PARAM_FLAGS_COMMITID \<longleftrightarrow>
    n mod 65536 = m mod 65536"
proof -
  have u: "unat (take_bit 16 (word_of_nat k :: 32 word)) = k mod 65536" for k
    by (simp add: unsigned_take_bit_eq unsigned_of_nat take_bit_take_bit del: take_bit_of_nat)
       (simp add: take_bit_eq_mod)
  show ?thesis unfolding low_take_bit by (metis u word_unat_eq_iff)
qed

lemma wstep_inv: "wstep s s' \<Longrightarrow> shared_inv s \<Longrightarrow> shared_inv s'"
proof (induction rule: wstep.induct)
  case (begin_write s s')
  thus ?case by (simp add: shared_inv_def commit_masks)
next
  case (copy s s' d n)
  thus ?case by (simp add: shared_inv_def)
next
  case (end_write s commitId s')
  have e: "(commitId + 1) AND PARAM_FLAGS_COMMITID = word_of_nat (sq_count s + 1) AND PARAM_FLAGS_COMMITID"
  proof -
    obtain m where m: "commitId = word_of_nat m" by (rule that [of "unat commitId"]) simp
    have "m mod 65536 = sq_count s mod 65536" using end_write(3,5) unfolding shared_inv_def m low_count by (simp add: low_count)
    hence "(m + 1) mod 65536 = (sq_count s + 1) mod 65536" by (metis mod_add_left_eq)
    hence "(word_of_nat (m + 1) :: 32 word) AND PARAM_FLAGS_COMMITID = word_of_nat (sq_count s + 1) AND PARAM_FLAGS_COMMITID"
      unfolding low_count .
    thus ?thesis unfolding m by (simp only: of_nat_add of_nat_1)
  qed
  have "pn_commitId (sq_node s') = (commitId AND NOT PARAM_FLAGS_COMMITID) OR
        ((commitId + 1) AND PARAM_FLAGS_COMMITID)" "\<not> sq_writing s'" "sq_count s' = sq_count s + 1"
    unfolding end_write(4) by simp_all
  then show ?case unfolding shared_inv_def
    by (simp only: commit_masks(3) [OF end_write(2)] commit_masks(4) e simp_thms)
next
  case (set_flag f s' s)
  have dist: "(x OR z) AND m = (x AND m) OR (z AND m)" for x z m :: "32 word"
    by (rule bit_word_eqI) (auto simp: bit_simps)
  have "pn_commitId (sq_node s') = pn_commitId (sq_node s) OR f" "sq_writing s' = sq_writing s" "sq_count s' = sq_count s"
    unfolding set_flag(3) by simp_all
  then show ?case using set_flag(4) unfolding shared_inv_def
    by (simp only: dist set_flag(1,2) or.right_neutral simp_thms)
qed


lemma wstep_text: "wstep s s' \<Longrightarrow> \<not> sq_writing s \<Longrightarrow> \<not> sq_writing s' \<Longrightarrow>
    value_text (sq_node s') = value_text (sq_node s)"
  by (induction rule: wstep.induct) (simp_all add: value_text_def)

text \<open>The number of steps of the protocol: a write counts when it begins and when it ends.\<close>

definition progress :: "shared \<Rightarrow> nat" where
  "progress s = 2 * sq_count s + (if sq_writing s then 1 else 0)"

lemma wstep_progress: "wstep s s' \<Longrightarrow> progress s \<le> progress s' \<and>
    (progress s' = progress s \<longrightarrow> sq_writing s' = sq_writing s)"
  by (induction rule: wstep.induct) (auto simp: progress_def)

lemma wsteps_progress: "wstep\<^sup>*\<^sup>* s s' \<Longrightarrow> progress s \<le> progress s'"
  by (induction rule: rtranclp_induct) (use wstep_progress in force)+

lemma wsteps_inv: "wstep\<^sup>*\<^sup>* s s' \<Longrightarrow> shared_inv s \<Longrightarrow> shared_inv s'"
  by (induction rule: rtranclp_induct) (use wstep_inv in blast)+

lemma wsteps_text:
  "wstep\<^sup>*\<^sup>* s s' \<Longrightarrow> \<not> sq_writing s \<Longrightarrow> progress s' = progress s \<Longrightarrow>
    \<not> sq_writing s' \<and> value_text (sq_node s') = value_text (sq_node s)"
proof (induction rule: rtranclp_induct)
  case (step u v)
  have "progress u = progress s" using wsteps_progress [OF step(1)] wstep_progress [OF step(2)] step(5) by simp
  with step have "\<not> sq_writing u" "value_text (sq_node u) = value_text (sq_node s)" by simp_all
  with wstep_progress [OF step(2)] wstep_text [OF step(2)] step(5) \<open>progress u = progress s\<close> show ?case by simp
qed simp

text \<open>A copy between two loads that hit no write and see the same commit number, with fewer than 65536 writes
  between them, is the value at the first load.\<close>

lemma copy_consistent:
  assumes "wstep\<^sup>*\<^sup>* s u" and "wstep\<^sup>*\<^sup>* u s'" and "shared_inv s"
    and idle: "\<not> sq_writing s" "\<not> sq_writing s'"
    and ids: "pn_commitId (sq_node s) AND PARAM_FLAGS_COMMITID = pn_commitId (sq_node s') AND PARAM_FLAGS_COMMITID"
    and few: "sq_count s' < sq_count s + 65536"
  shows "value_text (sq_node u) = value_text (sq_node s)"
proof -
  have inv: "shared_inv s'" using assms wsteps_inv by blast
  have le: "progress s \<le> progress u" "progress u \<le> progress s'" using assms wsteps_progress by blast+
  have "sq_count s mod 65536 = sq_count s' mod 65536"
    using ids assms(3) inv by (simp add: shared_inv_def low_count)
  moreover have "sq_count s \<le> sq_count s'" using le idle by (simp add: progress_def)
  ultimately obtain k where "sq_count s' = sq_count s + 65536 * k" by (metis mod_eq_nat1E)
  hence "sq_count s' = sq_count s" using few by (cases k) simp_all
  hence "progress u = progress s" using le idle by (simp add: progress_def)
  thus ?thesis using wsteps_text assms by blast
qed


subsection \<open>The writer of the model\<close>

text \<open>The commit id that a completed write stores.\<close>

definition next_commit :: "32 word \<Rightarrow> 32 word" where
  "next_commit c = (c AND NOT PARAM_FLAGS_COMMITID) OR ((c + 1) AND PARAM_FLAGS_COMMITID)"

lemma write_run:
  assumes idle: "pn_commitId e AND PARAM_FLAGS_MODIFY = 0"
    and f: "f AND PARAM_FLAGS_MODIFY = 0" "f AND PARAM_FLAGS_COMMITID = 0"
  shows "wstep\<^sup>*\<^sup>* \<lparr>sq_node = e, sq_writing = False, sq_count = n\<rparr>
    \<lparr>sq_node = e\<lparr>pn_data := d, pn_valueLength := m, pn_commitId := next_commit (pn_commitId e) OR f\<rparr>,
      sq_writing = False, sq_count = n + 1\<rparr>"
proof -
  let ?m = "pn_commitId e OR PARAM_FLAGS_MODIFY"
  let ?s0 = "\<lparr>sq_node = e, sq_writing = False, sq_count = n\<rparr>"
  let ?s1 = "\<lparr>sq_node = e\<lparr>pn_commitId := ?m\<rparr>, sq_writing = True, sq_count = n\<rparr>"
  let ?s2 = "\<lparr>sq_node = e\<lparr>pn_data := d, pn_valueLength := m, pn_commitId := ?m\<rparr>, sq_writing = True, sq_count = n\<rparr>"
  let ?s3 = "\<lparr>sq_node = e\<lparr>pn_data := d, pn_valueLength := m, pn_commitId := next_commit (pn_commitId e)\<rparr>,
      sq_writing = False, sq_count = n + 1\<rparr>"
  let ?s4 = "\<lparr>sq_node = e\<lparr>pn_data := d, pn_valueLength := m, pn_commitId := next_commit (pn_commitId e) OR f\<rparr>,
      sq_writing = False, sq_count = n + 1\<rparr>"
  have "wstep ?s0 ?s1" by (rule begin_write) simp_all
  moreover have "wstep ?s1 ?s2" by (rule copy [where d = d and n = m]) simp_all
  moreover have "wstep ?s2 ?s3"
    by (rule end_write [where commitId = "pn_commitId e"]) (simp_all add: idle commit_masks(2) next_commit_def)
  moreover have "wstep ?s3 ?s4" by (rule set_flag [OF f]) simp
  ultimately show ?thesis by (meson converse_rtranclp_into_rtranclp r_into_rtranclp)
qed

lemma param_at_bump: "param_at (bump_commit (put_cell a d (ParamCell x))) d = Some x"
  by (simp add: param_at_def bump_commit_def put_cell_def)

subsection \<open>The reader\<close>

lemma ReadCommitId_idle:
  assumes "shared_inv s" and "obs t = sq_node s" and "\<not> sq_writing s"
  shows "ReadCommitId obs t = pn_commitId (sq_node s) AND PARAM_FLAGS_COMMITID"
  using assms by (simp add: ReadCommitId_def shared_inv_def)

text \<open>A schedule: the state of the entry at every access of the reader.\<close>

definition schedule :: "(nat \<Rightarrow> shared) \<Rightarrow> bool" where
  "schedule st = (shared_inv (st 0) \<and> (\<forall>t. wstep\<^sup>*\<^sup>* (st t) (st (t + 1))))"

lemma schedule_steps: "schedule st \<Longrightarrow> i \<le> j \<Longrightarrow> wstep\<^sup>*\<^sup>* (st i) (st j)"
proof (induction j)
  case (Suc j)
  show ?case
  proof (cases "i = Suc j")
    case False
    then have "wstep\<^sup>*\<^sup>* (st i) (st j)" using Suc by simp
    moreover have "wstep\<^sup>*\<^sup>* (st j) (st (Suc j))" using Suc.prems(1) by (simp add: schedule_def)
    ultimately show ?thesis by (rule rtranclp_trans)
  qed simp
qed simp

lemma schedule_inv: "schedule st \<Longrightarrow> shared_inv (st t)"
  using schedule_steps [of st 0 t] wsteps_inv by (auto simp: schedule_def)

text \<open>The loads of the commit id hit no write in progress, and fewer than 65536 writes end between two of them.\<close>

definition calm :: "(nat \<Rightarrow> shared) \<Rightarrow> bool" where
  "calm st = (\<forall>k. \<not> sq_writing (st (3 * k + 1)) \<and> sq_count (st (3 * k + 4)) < sq_count (st (3 * k + 1)) + 65536)"

text \<open>The value of a round that ends the loop, and the round after it otherwise.\<close>

definition from_idle :: "(nat \<Rightarrow> shared) \<Rightarrow> nat \<Rightarrow> 32 word \<Rightarrow> (int \<times> string option \<times> nat) \<Rightarrow> bool" where
  "from_idle st t cid r = (\<forall>k. t = 3 * k + 3 \<longrightarrow> cid = ReadCommitId (sq_node \<circ> st) (3 * k + 1) \<longrightarrow> fst r = 0 \<longrightarrow>
     (\<exists>j. fst (snd r) = Some (value_text (sq_node (st (3 * j + 1))))))"

lemma round_consistent:
  assumes S: "schedule st" and C: "calm st" and obs: "obs = sq_node \<circ> st"
    and ids: "ReadCommitId obs (3 * k + 1) = ReadCommitId obs (3 * k + 4)"
  shows "value_text (obs (3 * k + 3)) = value_text (obs (3 * k + 1))"
proof -
  let ?i = "3 * k + 1" and ?u = "3 * k + 3" and ?j = "3 * k + 4"
  have c1: "\<not> sq_writing (st ?i)" and few: "sq_count (st ?j) < sq_count (st ?i) + 65536"
    using C by (auto simp: calm_def)
  have "3 * (k + 1) + 1 = ?j" by simp
  with C have c2: "\<not> sq_writing (st ?j)" by (metis calm_def)
  have "pn_commitId (sq_node (st ?i)) AND PARAM_FLAGS_COMMITID = pn_commitId (sq_node (st ?j)) AND PARAM_FLAGS_COMMITID"
    using ids ReadCommitId_idle [OF schedule_inv [OF S] _ c1, of obs ?i]
      ReadCommitId_idle [OF schedule_inv [OF S] _ c2, of obs ?j] obs by simp
  moreover have "wstep\<^sup>*\<^sup>* (st ?i) (st ?u)" "wstep\<^sup>*\<^sup>* (st ?u) (st ?j)" by (auto intro: schedule_steps [OF S])
  ultimately have "value_text (sq_node (st ?u)) = value_text (sq_node (st ?i))"
    by (intro copy_consistent [OF _ _ schedule_inv [OF S] c1 c2 _ few])
  with obs show ?thesis by simp
qed

lemma ReadParamValue_loop_consistent:
  assumes S: "schedule st" and C: "calm st" and run: "ReadParamValue_loop (sq_node \<circ> st) t cid len = Some r"
  shows "from_idle st t cid r"
proof -
  let ?P = "\<lambda>obs t cid len r. obs = sq_node \<circ> st \<longrightarrow> from_idle st t cid r"
  have "?P (sq_node \<circ> st) t cid len r"
  proof (rule ReadParamValue_loop.raw_induct [where P = ?P, rotated, OF run], intro impI)
    fix loop :: "(nat \<Rightarrow> ParamNode) \<Rightarrow> nat \<Rightarrow> 32 word \<Rightarrow> nat \<Rightarrow> (int \<times> string option \<times> nat) exec"
    fix obs t cid len y
    assume IH: "\<And>obs t cid len y. loop obs t cid len = Some y \<Longrightarrow> obs = sq_node \<circ> st \<longrightarrow> from_idle st t cid y"
      and body: "(let entry = obs t in
      if pn_valueLength entry > len then Some (- 1, None, len)
      else
        (let text = take (pn_valueLength entry) (drop (pn_keyLength entry + 1) (pn_data entry));
             id = ReadCommitId obs (t + 1)
         in if cid \<noteq> id then loop obs (t + 3) id (pn_valueLength entry)
            else Some (0, Some text, pn_valueLength entry))) = Some y"
      and obs: "obs = sq_node \<circ> st"
    show "from_idle st t cid y" unfolding from_idle_def
    proof (intro allI impI)
      fix k assume t: "t = 3 * k + 3" and cid: "cid = ReadCommitId (sq_node \<circ> st) (3 * k + 1)" and r: "fst y = 0"
      have t1: "t + 1 = 3 * k + 4" "t + 3 = 3 * (k + 1) + 3" using t by simp_all
      show "\<exists>j. fst (snd y) = Some (value_text (sq_node (st (3 * j + 1))))"
      proof (cases "cid = ReadCommitId obs (3 * k + 4)")
        case True
        then have "fst (snd y) = Some (value_text (obs t))"
          using body r unfolding t1 by (auto simp: Let_def value_text_def split: if_splits)
        with round_consistent [OF S C obs, of k] True cid obs t show ?thesis by (intro exI [of _ k]) simp
      next
        case False
        then have "loop obs (t + 3) (ReadCommitId obs (3 * k + 4)) (pn_valueLength (obs t)) = Some y"
          using body r unfolding t1 by (auto simp: Let_def split: if_splits)
        with IH obs have "from_idle st (t + 3) (ReadCommitId obs (3 * k + 4)) y" by blast
        then show ?thesis unfolding from_idle_def t1(2) obs using r
          by (elim allE [of _ "k + 1"]) (simp add: algebra_simps)
      qed
    qed
  qed
  then show ?thesis by simp
qed


subsection \<open>The properties\<close>


text \<open>An entry with the value \<^verbatim>\<open>aa\<close> of the parameter \<^verbatim>\<open>k\<close>, and one write of \<^verbatim>\<open>bb\<close> that is under way at the first
  load and has copied one character at the third access.\<close>

definition entry_aa :: ParamNode where
  "entry_aa = \<lparr>pn_commitId = 0, pn_type = 0, pn_keyLength = 1, pn_valueLength = 2, pn_data = ''k=aa''\<rparr>"

definition torn :: "nat \<Rightarrow> shared" where
  "torn t =
     (if t = 0 then \<lparr>sq_node = entry_aa, sq_writing = False, sq_count = 0\<rparr>
      else if t < 3 then \<lparr>sq_node = entry_aa\<lparr>pn_commitId := PARAM_FLAGS_MODIFY\<rparr>, sq_writing = True, sq_count = 0\<rparr>
      else \<lparr>sq_node = entry_aa\<lparr>pn_commitId := PARAM_FLAGS_MODIFY, pn_data := ''k=ba''\<rparr>, sq_writing = True, sq_count = 0\<rparr>)"

lemma torn_schedule: "schedule torn"
proof -
  have "wstep\<^sup>*\<^sup>* (torn t) (torn (t + 1))" for t
  proof -
    consider "t = 0" | "t = 1" | "t = 2" | "t \<ge> 3" by linarith
    then show ?thesis
    proof cases
      case 1
      then have "wstep (torn t) (torn (t + 1))" by (intro begin_write) (simp_all add: torn_def entry_aa_def)
      then show ?thesis by simp
    next
      case 3
      then have "wstep (torn t) (torn (t + 1))"
        by (intro copy [where d = "''k=ba''" and n = 2]) (simp_all add: torn_def entry_aa_def)
      then show ?thesis by simp
    qed (simp_all add: torn_def)
  qed
  then show ?thesis by (simp add: schedule_def shared_inv_def torn_def entry_aa_def)
qed

text \<open>A write of \<^verbatim>\<open>bb\<close> that happens between the first load and the copy.\<close>

definition updated :: "nat \<Rightarrow> shared" where
  "updated t =
     (if t < 2 then \<lparr>sq_node = entry_aa, sq_writing = False, sq_count = 0\<rparr>
      else \<lparr>sq_node = entry_aa\<lparr>pn_data := ''k=bb'', pn_valueLength := 2, pn_commitId := next_commit 0 OR 0\<rparr>,
        sq_writing = False, sq_count = 0 + 1\<rparr>)"

lemma updated_schedule: "schedule updated"
proof -
  have "wstep\<^sup>*\<^sup>* (updated t) (updated (t + 1))" for t
    using write_run [where e = entry_aa and f = 0 and n = 0 and d = "''k=bb''" and m = 2] by (cases "t = 1") (simp_all add: updated_def entry_aa_def)
  then show ?thesis by (simp add: schedule_def shared_inv_def updated_def entry_aa_def)
qed

lemma updated_calm: "calm updated"
  by (simp add: calm_def updated_def)




text \<open>C34: The two loads of \<^verbatim>\<open>ReadCommitId\<close> may both hit the same write, since its loop gives up after one retry. The
  read then returns a value that was never stored: while the value goes from \<^verbatim>\<open>aa\<close> to \<^verbatim>\<open>bb\<close>, it reads \<^verbatim>\<open>ba\<close> and
  reports success.\<close>

theorem ReadParamValue_torn:
  "schedule torn \<and> value_text (sq_node (torn 0)) = ''aa'' \<and>
   (\<exists>s. wstep\<^sup>*\<^sup>* (torn 5) s \<and> \<not> sq_writing s \<and> sq_count s = 1 \<and> value_text (sq_node s) = ''bb'') \<and>
   ReadParamValue (Some (sq_node \<circ> torn)) True 96 = Some (0, Some ''ba'', 2)"
proof (intro conjI)
  show "schedule torn" by (rule torn_schedule)
  show "value_text (sq_node (torn 0)) = ''aa''" by (simp add: value_text_def torn_def entry_aa_def)
  show "ReadParamValue (Some (sq_node \<circ> torn)) True 96 = Some (0, Some ''ba'', 2)"
    by (simp add: ReadParamValue_def ReadParamValue_loop.simps ReadCommitId_def torn_def entry_aa_def Let_def)
  let ?s1 = "(torn 5)\<lparr>sq_node := (sq_node (torn 5))\<lparr>pn_data := ''k=bb'', pn_valueLength := 2\<rparr>\<rparr>"
  let ?s2 = "\<lparr>sq_node = entry_aa\<lparr>pn_commitId := 1, pn_data := ''k=bb''\<rparr>, sq_writing = False, sq_count = 1\<rparr>"
  have "wstep (torn 5) ?s1" by (rule copy) (simp_all add: torn_def)
  moreover have "wstep ?s1 ?s2" by (rule end_write [where commitId = 0]) (simp_all add: torn_def entry_aa_def)
  ultimately have "wstep\<^sup>*\<^sup>* (torn 5) ?s2" by simp
  then show "\<exists>s. wstep\<^sup>*\<^sup>* (torn 5) s \<and> \<not> sq_writing s \<and> sq_count s = 1 \<and> value_text (sq_node s) = ''bb''"
    by (intro exI [of _ ?s2]) (simp add: value_text_def entry_aa_def)
qed

end
