(* ===== verification/Trigger_Checker.thy ===== *)
theory Trigger_Checker
  imports Param_Write Init_Utils
begin

text \<open>
  The conditions of triggers (\<^verbatim>\<open>trigger_checker.c\<close>). \<^verbatim>\<open>ConvertInfixToPrefix\<close> turns a condition such as
  \<^verbatim>\<open>a=1 && (b=2 || c=*)\<close> into operands and operators in postfix order, \<^verbatim>\<open>ComputeCondition\<close> evaluates the result over
  the parameters. The calculator is an array with a stack pointer; \<^verbatim>\<open>calloc\<close> is taken to succeed. A write outside the
  buffer of the converted condition is \<open>None\<close>.
\<close>

abbreviation (input) MAX_CALC_PARAM :: nat where "MAX_CALC_PARAM \<equiv> 100"
abbreviation (input) SUPPORT_DATA_BUFFER_MAX :: nat where "SUPPORT_DATA_BUFFER_MAX \<equiv> 128"
abbreviation (input) LOGIC_DATA_FLAGS_ORIGINAL :: "32 word" where "LOGIC_DATA_FLAGS_ORIGINAL \<equiv> 1"
abbreviation (input) LOGIC_DATA_FLAGS_TRUE :: "32 word" where "LOGIC_DATA_FLAGS_TRUE \<equiv> 8"
abbreviation (input) sizeof_LogicData :: nat where "sizeof_LogicData \<equiv> 12"

subsection \<open>The calculator\<close>

record LogicData =
  ld_flags :: "32 word"
  ld_startIndex :: nat
  ld_endIndex :: nat

definition LOGIC_DATA_TEST_FLAG :: "LogicData \<Rightarrow> 32 word \<Rightarrow> bool" where
  "LOGIC_DATA_TEST_FLAG data flag = (ld_flags data AND flag = flag)"

text \<open>The buffers \<^verbatim>\<open>conditionName\<close> to \<^verbatim>\<open>readContent\<close> are parts of \<^verbatim>\<open>data\<close> in the source; \<^verbatim>\<open>inputName\<close> and \<^verbatim>\<open>inputContent\<close>
  may be NULL.\<close>

record 'a LogicCalculator =
  lc_triggerContent :: string
  lc_dataNumber :: nat
  lc_endIndex :: nat
  lc_dataUnit :: nat
  lc_conditionName :: string
  lc_conditionContent :: string
  lc_inputName :: "string option"
  lc_inputContent :: "string option"
  lc_readContent :: string
  lc_data :: "'a list"

text \<open>\<^verbatim>\<open>zero\<close> is the value of a cell after \<^verbatim>\<open>calloc\<close>.\<close>

definition CalculatorInit :: "'a \<Rightarrow> 'a LogicCalculator \<Rightarrow> nat \<Rightarrow> nat \<Rightarrow> 'a LogicCalculator \<times> int" where
  "CalculatorInit zero calculator dataNumber dataUnit =
     (if \<not> dataUnit \<le> sizeof_LogicData then (calculator, - 1)
      else if \<not> dataNumber \<le> MAX_CALC_PARAM then (calculator, - 1)
      else (\<lparr>lc_triggerContent = [], lc_dataNumber = dataNumber, lc_endIndex = 0, lc_dataUnit = dataUnit,
              lc_conditionName = [], lc_conditionContent = [], lc_inputName = Some [], lc_inputContent = Some [],
              lc_readContent = [], lc_data = replicate dataNumber zero\<rparr>, 0))"

definition CalculatorFree :: "'a LogicCalculator \<Rightarrow> 'a LogicCalculator" where
  "CalculatorFree calculator = calculator\<lparr>lc_data := []\<rparr>"

definition CalculatorClear :: "'a LogicCalculator \<Rightarrow> 'a LogicCalculator" where
  "CalculatorClear calculator = calculator\<lparr>lc_endIndex := 0\<rparr>"

definition CalculatorPushChar :: "char LogicCalculator \<Rightarrow> char \<Rightarrow> char LogicCalculator \<times> int" where
  "CalculatorPushChar calculator data =
     (if \<not> lc_endIndex calculator < lc_dataNumber calculator then (calculator, - 1)
      else if lc_dataUnit calculator \<noteq> 1 then (calculator, - 1)
      else (calculator\<lparr>lc_data := (lc_data calculator)[lc_endIndex calculator := data],
              lc_endIndex := lc_endIndex calculator + 1\<rparr>, 0))"

text \<open>\<^verbatim>\<open>CalculatorPopChar\<close> with \<^verbatim>\<open>*data\<close> before the call: the calculator, \<^verbatim>\<open>*data\<close> after it and the return value.\<close>

definition CalculatorPopChar :: "char LogicCalculator \<Rightarrow> char \<Rightarrow> char LogicCalculator \<times> char \<times> int" where
  "CalculatorPopChar calculator data =
     (if \<not> lc_endIndex calculator < lc_dataNumber calculator then (calculator, data, - 1)
      else if lc_endIndex calculator = 0 then (calculator, data, - 1)
      else (calculator\<lparr>lc_endIndex := lc_endIndex calculator - 1\<rparr>, lc_data calculator ! (lc_endIndex calculator - 1), 0))"

definition CalculatorPush :: "'a LogicCalculator \<Rightarrow> 'a \<Rightarrow> 'a LogicCalculator \<times> int" where
  "CalculatorPush calculator data =
     (if \<not> lc_endIndex calculator < lc_dataNumber calculator then (calculator, - 1)
      else (calculator\<lparr>lc_data := (lc_data calculator)[lc_endIndex calculator := data],
              lc_endIndex := lc_endIndex calculator + 1\<rparr>, 0))"

text \<open>The data that \<^verbatim>\<open>CalculatorPop\<close> copies, \<open>None\<close> when it fails.\<close>

definition CalculatorPop :: "'a LogicCalculator \<Rightarrow> 'a LogicCalculator \<times> 'a option" where
  "CalculatorPop calculator =
     (if \<not> lc_endIndex calculator < lc_dataNumber calculator then (calculator, None)
      else if lc_endIndex calculator = 0 then (calculator, None)
      else (calculator\<lparr>lc_endIndex := lc_endIndex calculator - 1\<rparr>, Some (lc_data calculator ! (lc_endIndex calculator - 1))))"

definition CalculatorLength :: "'a LogicCalculator \<Rightarrow> nat" where
  "CalculatorLength calculator = lc_endIndex calculator"

subsection \<open>Conversion\<close>

text \<open>The converted condition is written from left to right; \<^verbatim>\<open>prefixIndex\<close> is the length of what is written.\<close>

definition prefix_put :: "string \<Rightarrow> nat \<Rightarrow> char \<Rightarrow> string exec" where
  "prefix_put out prefixLen c = (if length out < prefixLen then Some (out @ [c]) else None)"

definition PrefixAdd :: "string \<Rightarrow> nat \<Rightarrow> char \<Rightarrow> string \<times> int" where
  "PrefixAdd out prefixLen op =
     (if length out + 1 + 1 + 1 \<ge> prefixLen then (out, - 1) else (out @ [CHR '' '', op, CHR '' ''], 0))"

lemma PrefixAdd_grows: "(out', ret) = PrefixAdd out prefixLen op \<Longrightarrow> ret = 0 \<Longrightarrow> prefixLen - length out' < prefixLen - length out"
  by (simp add: PrefixAdd_def split: if_splits)

function HandleOperationOr_loop ::
  "char LogicCalculator \<Rightarrow> string \<Rightarrow> nat \<Rightarrow> char \<Rightarrow> char LogicCalculator \<times> string \<times> int" where
  "HandleOperationOr_loop calculator out prefixLen e =
     (let (calculator, e, _) = CalculatorPopChar calculator e in
      if e = CHR ''('' then (fst (CalculatorPushChar calculator e), out, 0)
      else
        (let (out', ret) = PrefixAdd out prefixLen e in
         if ret \<noteq> 0 then (calculator, out', - 1)
         else if CalculatorLength calculator > 0 then HandleOperationOr_loop calculator out' prefixLen e
         else (calculator, out', 0)))"
  by pat_completeness auto
termination
  by (relation "measure (\<lambda>(c, out, n, e). n - length out)") (simp, simp, rule PrefixAdd_grows, assumption, simp)

definition HandleOperationOr :: "char LogicCalculator \<Rightarrow> string \<Rightarrow> nat \<Rightarrow> (char LogicCalculator \<times> string \<times> int) exec" where
  "HandleOperationOr calculator out prefixLen = do {
     out \<leftarrow> prefix_put out prefixLen (CHR '' '');
     if CalculatorLength calculator = 0 then Some (fst (CalculatorPushChar calculator (CHR ''|'')), out, 0)
     else
       (let (calculator, out, ret) = HandleOperationOr_loop calculator out prefixLen (CHR 0x00) in
        if ret \<noteq> 0 then Some (calculator, out, - 1)
        else Some (fst (CalculatorPushChar calculator (CHR ''|'')), out, 0))
   }"

text \<open>The loop for a closing parenthesis, from the first test of \<^verbatim>\<open>e\<close> on.\<close>

function close_paren ::
  "char LogicCalculator \<Rightarrow> string \<Rightarrow> nat \<Rightarrow> char \<Rightarrow> char LogicCalculator \<times> string \<times> char \<times> int" where
  "close_paren calculator out prefixLen e =
     (if e = CHR ''('' then (calculator, out, e, 0)
      else
        (let (out', ret) = PrefixAdd out prefixLen e in
         if ret \<noteq> 0 then (calculator, out', e, - 1)
         else (let (calculator, e, _) = CalculatorPopChar calculator e in close_paren calculator out' prefixLen e)))"
  by pat_completeness auto
termination
  by (relation "measure (\<lambda>(c, out, n, e). n - length out)") (simp, simp, rule PrefixAdd_grows, assumption, simp)

text \<open>The loop that empties the calculator.\<close>

function flush_operators :: "char LogicCalculator \<Rightarrow> string \<Rightarrow> nat \<Rightarrow> char \<Rightarrow> string \<times> int" where
  "flush_operators calculator out prefixLen e =
     (if CalculatorLength calculator > 0 then
        (let (calculator, e, _) = CalculatorPopChar calculator e;
             (out', ret) = PrefixAdd out prefixLen e
         in if ret \<noteq> 0 then (out', - 1) else flush_operators calculator out' prefixLen e)
      else (out, 0))"
  by pat_completeness auto
termination
  by (relation "measure (\<lambda>(c, out, n, e). n - length out)") (simp, simp, rule PrefixAdd_grows, assumption, simp)

text \<open>The loop over the condition: the calculator, what is written, \<^verbatim>\<open>e\<close> and whether the loop ran to its end.\<close>

function ConvertInfixToPrefix_loop ::
  "string \<Rightarrow> nat \<Rightarrow> char LogicCalculator \<Rightarrow> string \<Rightarrow> char \<Rightarrow> (char LogicCalculator \<times> string \<times> char \<times> bool) exec" where
  "ConvertInfixToPrefix_loop [] prefixLen calculator out e = Some (calculator, out, e, True)"
| "ConvertInfixToPrefix_loop (c # cs) prefixLen calculator out e =
     (if c = CHR '')'' then
        (let (calculator, e, _) = CalculatorPopChar calculator e;
             (calculator, out, e, ret) = close_paren calculator out prefixLen e
         in if ret \<noteq> 0 \<or> \<not> length out < prefixLen then Some (calculator, out, e, False)
            else ConvertInfixToPrefix_loop cs prefixLen calculator out e)
      else if c = CHR ''|'' then
        (if take 1 cs \<noteq> ''|'' then Some (calculator, out, e, False)
         else do {
           (calculator, out, ret) \<leftarrow> HandleOperationOr calculator out prefixLen;
           if ret \<noteq> 0 \<or> \<not> length out < prefixLen then Some (calculator, out, e, False)
           else ConvertInfixToPrefix_loop (drop 1 cs) prefixLen calculator out e
         })
      else if c = CHR ''&'' then
        (if take 1 cs \<noteq> ''&'' then Some (calculator, out, e, False)
         else do {
           out \<leftarrow> prefix_put out prefixLen (CHR '' '');
           let calculator = fst (CalculatorPushChar calculator c);
           if \<not> length out < prefixLen then Some (calculator, out, e, False)
           else ConvertInfixToPrefix_loop (drop 1 cs) prefixLen calculator out e
         })
      else if c = CHR ''('' then
        (let calculator = fst (CalculatorPushChar calculator c) in
         if \<not> length out < prefixLen then Some (calculator, out, e, False)
         else ConvertInfixToPrefix_loop cs prefixLen calculator out e)
      else do {
        out \<leftarrow> prefix_put out prefixLen c;
        if \<not> length out < prefixLen then Some (calculator, out, e, False)
        else ConvertInfixToPrefix_loop cs prefixLen calculator out e
      })"
  by pat_completeness auto
termination
  by (relation "measure (\<lambda>(cs, _). length cs)") simp_all

definition fresh_calculator :: "char LogicCalculator" where
  "fresh_calculator = \<lparr>lc_triggerContent = [], lc_dataNumber = 0, lc_endIndex = 0, lc_dataUnit = 0, lc_conditionName = [],
     lc_conditionContent = [], lc_inputName = None, lc_inputContent = None, lc_readContent = [], lc_data = []\<rparr>"

text \<open>The converted condition and the return value. The final NUL is written at the index after the text.\<close>

definition ConvertInfixToPrefix :: "string \<Rightarrow> nat \<Rightarrow> (string \<times> int) exec" where
  "ConvertInfixToPrefix condition prefixLen =
     (let (calculator, ret) = CalculatorInit (CHR 0x00) fresh_calculator MAX_CALC_PARAM 1 in
      if ret \<noteq> 0 then Some ([], - 1)
      else do {
        (calculator, out, e, finished) \<leftarrow> ConvertInfixToPrefix_loop condition prefixLen calculator [] (CHR 0x00);
        if \<not> finished then Some (out, - 1)
        else
          (let (out, ret) = flush_operators calculator out prefixLen e in
           if ret \<noteq> 0 then Some (out, - 1)
           else do { _ \<leftarrow> prefix_put out prefixLen (CHR 0x00); Some (out, 0) })
      })"


subsection \<open>Evaluation\<close>

definition CompareValue :: "string \<Rightarrow> string \<Rightarrow> int" where
  "CompareValue condition val =
     (if condition = ''*'' then 1
      else if condition = val then 1
      else (case strstr_at condition 0 ''*'' of
              None \<Rightarrow> 0
            | Some tmp \<Rightarrow> if strncmp_eq val condition tmp then 1 else 0))"

text \<open>A character of a string or its final NUL.\<close>

definition char_at :: "string \<Rightarrow> nat \<Rightarrow> char exec" where
  "char_at s i = (if i < length s then Some (s ! i) else if i = length s then Some (CHR 0x00) else None)"

text \<open>\<^verbatim>\<open>GetValueFromContent\<close>: the text written to \<^verbatim>\<open>value\<close> and the return value.\<close>

function GetValueFromContent_loop :: "string \<Rightarrow> nat \<Rightarrow> nat \<Rightarrow> nat \<Rightarrow> string \<Rightarrow> (string \<times> int) exec" where
  "GetValueFromContent_loop content contentSize contentIndex valueSize val =
     (if contentIndex < contentSize \<and> length val < valueSize then
        (case char_at content contentIndex of
           None \<Rightarrow> None
         | Some c \<Rightarrow> if c = CHR ''='' then Some (val, 0)
             else GetValueFromContent_loop content contentSize (contentIndex + 1) valueSize (val @ [c]))
      else if length val < valueSize then Some (val, 0)
      else Some (val, - 1))"
  by pat_completeness auto
termination
  by (relation "measure (\<lambda>(_, n, i, _). n - i)") auto

definition GetValueFromContent :: "string \<Rightarrow> nat \<Rightarrow> nat \<Rightarrow> nat \<Rightarrow> (string \<times> int) exec" where
  "GetValueFromContent content contentSize start valueSize = do {
     (val, ret) \<leftarrow> GetValueFromContent_loop content contentSize start valueSize [];
     Some (takeWhile (\<lambda>c. c \<noteq> CHR 0x00) val, ret)
   }"

text \<open>The buffers of the calculator are its only fields that change.\<close>

definition ComputeSubCondition ::
  "bool \<Rightarrow> ParamWorkSpace \<Rightarrow> LogicData LogicCalculator \<Rightarrow> LogicData \<Rightarrow> string \<Rightarrow> (LogicData LogicCalculator \<times> int) exec" where
  "ComputeSubCondition musl pw calculator data condition =
     (if \<not> LOGIC_DATA_TEST_FLAG data LOGIC_DATA_FLAGS_ORIGINAL then
        Some (calculator, if LOGIC_DATA_TEST_FLAG data LOGIC_DATA_FLAGS_TRUE then 1 else 0)
      else
        (let operand = drop (ld_startIndex data) condition;
             triggerContentSize = length (lc_triggerContent calculator);
             size = ld_endIndex data - ld_startIndex data;
             beyond = (case strstr_at condition (ld_startIndex data) ''='' of None \<Rightarrow> False | Some i \<Rightarrow> i > ld_endIndex data)
         in if beyond then
              Some (calculator, if strncmp_eq operand (lc_triggerContent calculator) triggerContentSize then 1 else 0)
            else do {
              (name, ret) \<leftarrow> GetValueFromContent operand size 0 SUPPORT_DATA_BUFFER_MAX;
              let calculator = calculator\<lparr>lc_conditionName := name\<rparr>;
              if ret \<noteq> 0 then Some (calculator, - 1)
              else do {
                (content, ret) \<leftarrow> GetValueFromContent operand size (length name + 1) SUPPORT_DATA_BUFFER_MAX;
                let calculator = calculator\<lparr>lc_conditionContent := content\<rparr>;
                if ret \<noteq> 0 then Some (calculator, - 1)
                else if length name > 0 then do {
                  (ret, text, _) \<leftarrow> SystemReadParam musl pw name True SUPPORT_DATA_BUFFER_MAX;
                  if ret \<noteq> 0 then Some (calculator, 0)
                  else (case text of
                          None \<Rightarrow> Some (calculator, CompareValue content (lc_readContent calculator))
                        | Some t \<Rightarrow> Some (calculator\<lparr>lc_readContent := t\<rparr>, CompareValue content t))
                } else Some (calculator, 0)
              }
            }))"

text \<open>An operator: the two operands are popped, the second is computed only where it decides the result.\<close>

definition compute_operator ::
  "bool \<Rightarrow> ParamWorkSpace \<Rightarrow> string \<Rightarrow> char \<Rightarrow> LogicData LogicCalculator \<Rightarrow> (LogicData LogicCalculator \<times> int) exec" where
  "compute_operator musl pw condition op calculator =
     (let (calculator, data2) = CalculatorPop calculator;
          (calculator, data1) = CalculatorPop calculator
      in case (data1, data2) of
           (Some data1, Some data2) \<Rightarrow> do {
             (calculator, ret) \<leftarrow> ComputeSubCondition musl pw calculator data1 condition;
             let data1 = data1\<lparr>ld_flags := 0\<rparr>;
             (calculator, data1) \<leftarrow>
               (if op = CHR ''|'' \<and> ret = 1 then
                  Some (calculator, data1\<lparr>ld_flags := ld_flags data1 OR LOGIC_DATA_FLAGS_TRUE\<rparr>)
                else if op = CHR ''|'' \<or> ret = 1 then do {
                  (calculator, ret) \<leftarrow> ComputeSubCondition musl pw calculator data2 condition;
                  Some (calculator, if ret = 1 then data1\<lparr>ld_flags := ld_flags data1 OR LOGIC_DATA_FLAGS_TRUE\<rparr> else data1)
                } else Some (calculator, data1));
             Some (CalculatorPush calculator data1)
           }
         | _ \<Rightarrow> Some (calculator, - 1))"

text \<open>The loop of \<^verbatim>\<open>ComputeCondition\<close>: the calculator, \<^verbatim>\<open>start\<close>, \<^verbatim>\<open>noneOper\<close> and whether the loop ran to its end.\<close>

function ComputeCondition_loop ::
  "bool \<Rightarrow> ParamWorkSpace \<Rightarrow> string \<Rightarrow> nat \<Rightarrow> nat \<Rightarrow> bool \<Rightarrow> LogicData LogicCalculator \<Rightarrow>
   (LogicData LogicCalculator \<times> nat \<times> bool \<times> bool) exec" where
  "ComputeCondition_loop musl pw condition currIndex start noneOper calculator =
     (if currIndex < length condition then
        (if condition ! currIndex = CHR ''|'' \<or> condition ! currIndex = CHR ''&'' then
           (case compute_operator musl pw condition (condition ! currIndex) calculator of
              None \<Rightarrow> None
            | Some (calculator, ret) \<Rightarrow>
                if ret \<noteq> 0 then Some (calculator, start, False, False)
                else ComputeCondition_loop musl pw condition (currIndex + 1) (currIndex + 1) False calculator)
         else if isspace (condition ! currIndex) then
           (if start = currIndex then
              ComputeCondition_loop musl pw condition (currIndex + 1) (currIndex + 1) noneOper calculator
            else
              (let (calculator, ret) = CalculatorPush calculator
                     \<lparr>ld_flags = LOGIC_DATA_FLAGS_ORIGINAL, ld_startIndex = start, ld_endIndex = currIndex\<rparr>
               in if ret \<noteq> 0 then Some (calculator, start, noneOper, False)
                  else ComputeCondition_loop musl pw condition (currIndex + 1) (currIndex + 1) noneOper calculator))
         else ComputeCondition_loop musl pw condition (currIndex + 1) start noneOper calculator)
      else Some (calculator, start, noneOper, True))"
  by pat_completeness auto
termination
  by (relation "measure (\<lambda>(_, _, condition, i, _). length condition - i)") simp_all

definition ComputeCondition ::
  "bool \<Rightarrow> ParamWorkSpace \<Rightarrow> LogicData LogicCalculator \<Rightarrow> string \<Rightarrow> (LogicData LogicCalculator \<times> int) exec" where
  "ComputeCondition musl pw calculator condition = do {
     (calculator, start, noneOper, finished) \<leftarrow>
       ComputeCondition_loop musl pw condition 0 0 True (CalculatorClear calculator);
     if \<not> finished then Some (calculator, - 1)
     else if noneOper then
       ComputeSubCondition musl pw calculator
         \<lparr>ld_flags = LOGIC_DATA_FLAGS_ORIGINAL, ld_startIndex = start, ld_endIndex = length condition\<rparr> condition
     else
       (let (calculator, data1) = CalculatorPop calculator in
        case data1 of None \<Rightarrow> Some (calculator, - 1)
        | Some data1 \<Rightarrow> ComputeSubCondition musl pw calculator data1 condition)
   }"

lemmas loop_simps = HandleOperationOr_loop.simps close_paren.simps flush_operators.simps GetValueFromContent_loop.simps
  ComputeCondition_loop.simps

declare loop_simps [simp del]

subsection \<open>Triggers that mention a parameter\<close>

text \<open>\<^verbatim>\<open>tmp\<close> is an offset into the condition.\<close>

function CheckMatchSubCondition_loop :: "string \<Rightarrow> string \<Rightarrow> nat \<Rightarrow> nat option \<Rightarrow> bool" where
  "CheckMatchSubCondition_loop condition input len None = False"
| "CheckMatchSubCondition_loop condition input len (Some tmp) =
     (if length condition - tmp \<le> len \<or> condition ! (tmp + len) \<noteq> CHR ''='' then False
      else if tmp = 0 then True
      else if condition ! (tmp - 1) = CHR '' '' then True
      else CheckMatchSubCondition_loop condition input len (strstr_at condition (tmp + 1) input))"
  by pat_completeness auto
termination
proof (relation "measure (\<lambda>(c, _, _, t). case t of None \<Rightarrow> 0 | Some t \<Rightarrow> length c + 1 - t)")
  fix condition input :: string and len tmp :: nat
  assume a: "\<not> (length condition - tmp \<le> len \<or> condition ! (tmp + len) \<noteq> CHR ''='')" "tmp \<noteq> 0"
  show "((condition, input, len, strstr_at condition (tmp + 1) input), condition, input, len, Some tmp) \<in>
    measure (\<lambda>(c, _, _, t). case t of None \<Rightarrow> 0 | Some t \<Rightarrow> length c + 1 - t)"
    using a strstr_at_ge [of condition "tmp + 1" input] by (cases "strstr_at condition (tmp + 1) input") auto
qed simp

definition CheckMatchSubCondition :: "string \<Rightarrow> string \<Rightarrow> nat \<Rightarrow> bool" where
  "CheckMatchSubCondition condition input len =
     CheckMatchSubCondition_loop condition input len (strstr_at condition 0 input)"

end
