(* ===== verification/Hash_Map.thy ===== *)
theory Hash_Map
  imports Prelude
begin

text \<open>
  The hash map of the sources (\<^verbatim>\<open>init_hashmap.c\<close>): an array of buckets, each a singly linked list of nodes that are
  embedded in the objects of the client. The client's functions to compare and to hash are arguments. Under the laws a
  client owes for them (locale \<^verbatim>\<open>hash_keys\<close>) the operations refine a map from keys to nodes.
\<close>

subsection \<open>The table\<close>

text \<open>The heap holds the \<^verbatim>\<open>next\<close> link of every hash node that is allocated.\<close>

type_synonym HashHeap = "nat \<Rightarrow> ptr option"

text \<open>The functions of the client read its memory \<open>'m\<close>; a node is known by its number. \<^verbatim>\<open>nodeFree\<close> is an argument of
  \<^verbatim>\<open>OH_HashMapDestory\<close> below.\<close>

record ('m, 'k) HashInfo =
  hi_nodeCompare :: "'m \<Rightarrow> nat \<Rightarrow> nat \<Rightarrow> int"
  hi_keyCompare :: "'m \<Rightarrow> nat \<Rightarrow> 'k \<Rightarrow> int"
  hi_nodeHash :: "'m \<Rightarrow> nat \<Rightarrow> int"
  hi_keyHash :: "'k \<Rightarrow> int"
  hi_maxBucket :: int

record ('m, 'k) HashTab =
  ht_info :: "('m, 'k) HashInfo"
  ht_tableId :: nat
  ht_buckets :: "ptr list"

definition ht_maxBucket :: "('m, 'k) HashTab \<Rightarrow> int" where
  "ht_maxBucket tab = hi_maxBucket (ht_info tab)"

text \<open>\<^verbatim>\<open>g_tableId\<close> before and after, the handle and the return value.\<close>

definition OH_HashMapCreate :: "nat \<Rightarrow> ('m, 'k) HashInfo option \<Rightarrow> nat \<times> ('m, 'k) HashTab option \<times> int" where
  "OH_HashMapCreate g_tableId info =
     (case info of
        None \<Rightarrow> (g_tableId, None, - 1)
      | Some i \<Rightarrow>
          if \<not> hi_maxBucket i > 0 then (g_tableId, None, - 1)
          else (u32 (g_tableId + 1),
                Some \<lparr>ht_info = i, ht_tableId = g_tableId, ht_buckets = replicate (nat (hi_maxBucket i)) NULL\<rparr>, 0))"

partial_function (option) GetHashNodeByNode :: "'m \<Rightarrow> ('m, 'k) HashTab \<Rightarrow> HashHeap \<Rightarrow> ptr \<Rightarrow> nat \<Rightarrow> ptr exec" where
  "GetHashNodeByNode mem tab h node new =
     (case node of
        NULL \<Rightarrow> Some NULL
      | Ref n \<Rightarrow>
          if hi_nodeCompare (ht_info tab) mem n new = 0 then Some node
          else do { m \<leftarrow> h n; GetHashNodeByNode mem tab h m new })"

partial_function (option) GetHashNodeByKey :: "HashHeap \<Rightarrow> ptr \<Rightarrow> 'k \<Rightarrow> (nat \<Rightarrow> 'k \<Rightarrow> int) \<Rightarrow> ptr exec" where
  "GetHashNodeByKey h node key keyCompare =
     (case node of
        NULL \<Rightarrow> Some NULL
      | Ref n \<Rightarrow>
          if keyCompare n key = 0 then Some node
          else do { m \<leftarrow> h n; GetHashNodeByKey h m key keyCompare })"

text \<open>The index of a hash code; \<^verbatim>\<open>-hashCode\<close> overflows for the smallest \<^verbatim>\<open>int\<close>.\<close>

definition bucket_index :: "('m, 'k) HashTab \<Rightarrow> int \<Rightarrow> int exec" where
  "bucket_index tab hashCode =
     (if hashCode = - 2147483648 then None
      else Some ((if hashCode < 0 then - hashCode else hashCode) mod ht_maxBucket tab))"

definition OH_HashMapAdd :: "'m \<Rightarrow> HashHeap \<Rightarrow> ('m, 'k) HashTab option \<Rightarrow> ptr \<Rightarrow> (HashHeap \<times> ('m, 'k) HashTab option \<times> int) exec" where
  "OH_HashMapAdd mem h handle node =
     (case handle of
        None \<Rightarrow> Some (h, handle, - 1)
      | Some tab \<Rightarrow>
         (case node of
            NULL \<Rightarrow> Some (h, handle, - 1)
          | Ref n \<Rightarrow> do {
              nx \<leftarrow> h n;
              if nx \<noteq> NULL then Some (h, handle, - 1)
              else do {
                hashCode \<leftarrow> bucket_index tab (hi_nodeHash (ht_info tab) mem n);
                if \<not> hashCode < ht_maxBucket tab then Some (h, handle, - 1)
                else do {
                  tmp \<leftarrow> GetHashNodeByNode mem tab h (ht_buckets tab ! nat hashCode) n;
                  if tmp \<noteq> NULL then Some (h, handle, - 1)
                  else Some (h(n \<mapsto> ht_buckets tab ! nat hashCode),
                         Some (tab\<lparr>ht_buckets := (ht_buckets tab)[nat hashCode := node]\<rparr>), 0)
                }
              }
            }))"

text \<open>The loop of \<^verbatim>\<open>OH_HashMapRemove\<close>.\<close>

partial_function (option) OH_HashMapRemove_loop ::
  "'m \<Rightarrow> HashHeap \<Rightarrow> ('m, 'k) HashTab \<Rightarrow> nat \<Rightarrow> 'k \<Rightarrow> ptr \<Rightarrow> ptr \<Rightarrow> (HashHeap \<times> ('m, 'k) HashTab) exec" where
  "OH_HashMapRemove_loop mem h tab hashCode key preNode node =
     (case node of
        NULL \<Rightarrow> Some (h, tab)
      | Ref n \<Rightarrow> do {
          m \<leftarrow> h n;
          if hi_keyCompare (ht_info tab) mem n key = 0 then
            (if node = ht_buckets tab ! hashCode then Some (h, tab\<lparr>ht_buckets := (ht_buckets tab)[hashCode := m]\<rparr>)
             else (case preNode of NULL \<Rightarrow> None | Ref p \<Rightarrow> if h p = None then None else Some (h(p \<mapsto> m), tab)))
          else OH_HashMapRemove_loop mem h tab hashCode key node m
        })"

definition OH_HashMapRemove :: "'m \<Rightarrow> HashHeap \<Rightarrow> ('m, 'k) HashTab option \<Rightarrow> 'k \<Rightarrow> (HashHeap \<times> ('m, 'k) HashTab option) exec" where
  "OH_HashMapRemove mem h handle key =
     (case handle of
        None \<Rightarrow> Some (h, handle)
      | Some tab \<Rightarrow> do {
          hashCode \<leftarrow> bucket_index tab (hi_keyHash (ht_info tab) key);
          if \<not> hashCode < ht_maxBucket tab then Some (h, handle)
          else
            (let node = ht_buckets tab ! nat hashCode in do {
               (h, tab) \<leftarrow> OH_HashMapRemove_loop mem h tab (nat hashCode) key node node;
               Some (h, Some tab)
             })
        })"

definition OH_HashMapGet :: "'m \<Rightarrow> HashHeap \<Rightarrow> ('m, 'k) HashTab option \<Rightarrow> 'k \<Rightarrow> ptr exec" where
  "OH_HashMapGet mem h handle key =
     (case handle of
        None \<Rightarrow> Some NULL
      | Some tab \<Rightarrow> do {
          hashCode \<leftarrow> bucket_index tab (hi_keyHash (ht_info tab) key);
          if \<not> hashCode < ht_maxBucket tab then Some NULL
          else GetHashNodeByKey h (ht_buckets tab ! nat hashCode) key (hi_keyCompare (ht_info tab) mem)
        })"

definition OH_HashMapFind :: "HashHeap \<Rightarrow> ('m, 'k) HashTab option \<Rightarrow> int \<Rightarrow> 'k \<Rightarrow> (nat \<Rightarrow> 'k \<Rightarrow> int) option \<Rightarrow> ptr exec" where
  "OH_HashMapFind h handle hashCode key keyCompare =
     (case (handle, keyCompare) of
        (Some tab, Some cmp) \<Rightarrow>
          if \<not> (hashCode < ht_maxBucket tab \<and> hashCode \<ge> 0) then Some NULL
          else GetHashNodeByKey h (ht_buckets tab ! nat hashCode) key cmp
      | _ \<Rightarrow> Some NULL)"

text \<open>A walk over one bucket. \<^verbatim>\<open>visit\<close> is called for every node after its link was read; it may free the node.\<close>

partial_function (option) bucket_walk :: "(nat \<Rightarrow> HashHeap \<times> 'c \<Rightarrow> (HashHeap \<times> 'c) exec) \<Rightarrow> ptr \<Rightarrow> HashHeap \<times> 'c \<Rightarrow> (HashHeap \<times> 'c) exec" where
  "bucket_walk visit node s =
     (case node of
        NULL \<Rightarrow> Some s
      | Ref n \<Rightarrow> do { m \<leftarrow> fst s n; s \<leftarrow> visit n s; bucket_walk visit m s })"

fun bucket_walks :: "(nat \<Rightarrow> HashHeap \<times> 'c \<Rightarrow> (HashHeap \<times> 'c) exec) \<Rightarrow> ptr list \<Rightarrow> HashHeap \<times> 'c \<Rightarrow> (HashHeap \<times> 'c) exec" where
  "bucket_walks visit [] s = Some s"
| "bucket_walks visit (b # bs) s = do { s \<leftarrow> bucket_walk visit b s; bucket_walks visit bs s }"

definition OH_HashMapTraverse ::
  "('m, 'k) HashTab option \<Rightarrow> (nat \<Rightarrow> HashHeap \<times> 'c \<Rightarrow> (HashHeap \<times> 'c) exec) option \<Rightarrow> HashHeap \<times> 'c \<Rightarrow> (HashHeap \<times> 'c) exec" where
  "OH_HashMapTraverse handle hashNodeTraverse s =
     (case (handle, hashNodeTraverse) of
        (Some tab, Some visit) \<Rightarrow> bucket_walks visit (ht_buckets tab) s
      | _ \<Rightarrow> Some s)"

definition HashListFree ::
  "(nat \<Rightarrow> HashHeap \<times> 'c \<Rightarrow> (HashHeap \<times> 'c) exec) option \<Rightarrow> ptr \<Rightarrow> HashHeap \<times> 'c \<Rightarrow> (HashHeap \<times> 'c) exec" where
  "HashListFree nodeFree root s = bucket_walk (case nodeFree of None \<Rightarrow> \<lambda>n. Some | Some f \<Rightarrow> f) root s"

definition OH_HashMapDestory ::
  "('m, 'k) HashTab option \<Rightarrow> (nat \<Rightarrow> HashHeap \<times> 'c \<Rightarrow> (HashHeap \<times> 'c) exec) option \<Rightarrow> HashHeap \<times> 'c \<Rightarrow> (HashHeap \<times> 'c) exec" where
  "OH_HashMapDestory handle nodeFree s =
     (case handle of
        None \<Rightarrow> Some s
      | Some tab \<Rightarrow> bucket_walks (case nodeFree of None \<Rightarrow> \<lambda>n. Some | Some f \<Rightarrow> f) (ht_buckets tab) s)"

definition OH_HashMapIsEmpty :: "('m, 'k) HashTab option \<Rightarrow> int" where
  "OH_HashMapIsEmpty handle =
     (case handle of None \<Rightarrow> 1 | Some tab \<Rightarrow> if \<exists>b \<in> set (ht_buckets tab). b \<noteq> NULL then 0 else 1)"


subsection \<open>Buckets as lists\<close>

fun hlist :: "HashHeap \<Rightarrow> ptr \<Rightarrow> nat list \<Rightarrow> bool" where
  "hlist h p [] = (p = NULL)"
| "hlist h p (x # xs) = (p = Ref x \<and> (\<exists>q. h x = Some q \<and> hlist h q xs))"

lemma hlist_cong: "\<forall>x \<in> set xs. h' x = h x \<Longrightarrow> hlist h' p xs = hlist h p xs"
  by (induction xs arbitrary: p) auto

lemma hlist_upd [simp]: "n \<notin> set xs \<Longrightarrow> hlist (h(n := v)) p xs = hlist h p xs"
  by (rule hlist_cong) auto

lemma hlist_drop: "hlist h p (xs @ ys) \<Longrightarrow> \<exists>q. hlist h q ys"
  by (induction xs arbitrary: p) auto

lemma hlist_unlink:
  assumes "hlist h q (as @ p # x # bs)" "distinct (as @ p # x # bs)" "h x = Some m"
  shows "hlist (h(p \<mapsto> m)) q (as @ p # bs)"
  using assms
proof (induction as arbitrary: q)
  case (Cons a as)
  then show ?case by auto
qed auto

lemma GetHashNodeByKey_hlist:
  "hlist h p xs \<Longrightarrow> GetHashNodeByKey h p k cmp =
    Some (case find (\<lambda>n. cmp n k = 0) xs of None \<Rightarrow> NULL | Some n \<Rightarrow> Ref n)"
  by (induction xs arbitrary: p) (auto simp: GetHashNodeByKey.simps)

lemma GetHashNodeByNode_hlist:
  "hlist h p xs \<Longrightarrow> GetHashNodeByNode mem tab h p new =
    Some (case find (\<lambda>n. hi_nodeCompare (ht_info tab) mem n new = 0) xs of None \<Rightarrow> NULL | Some n \<Rightarrow> Ref n)"
  by (induction xs arbitrary: p) (auto simp: GetHashNodeByNode.simps)

text \<open>The loop of the removal, behind the nodes \<open>as\<close> that do not match.\<close>

lemma OH_HashMapRemove_hlist:
  assumes "hlist h (ht_buckets tab ! i) (as @ ys)" "hlist h node ys" "distinct (as @ ys)"
    and pre: "as \<noteq> [] \<longrightarrow> preNode = Ref (last as)"
    and key: "\<forall>n \<in> set (as @ ys). hi_keyCompare (ht_info tab) mem n k = 0 \<longleftrightarrow> key_of n = k" "\<forall>n \<in> set as. key_of n \<noteq> k"
    and dist: "distinct (map key_of ys)" and i: "i < length (ht_buckets tab)"
  shows "\<exists>h' p'. OH_HashMapRemove_loop mem h tab i k preNode node = Some (h', tab\<lparr>ht_buckets := (ht_buckets tab)[i := p']\<rparr>) \<and>
    hlist h' p' (as @ filter (\<lambda>n. key_of n \<noteq> k) ys) \<and> (\<forall>n. n \<notin> set (as @ ys) \<longrightarrow> h' n = h n) \<and> dom h' = dom h"
  using assms
proof (induction ys arbitrary: as preNode node)
  case Nil
  then have "OH_HashMapRemove_loop mem h tab i k preNode node = Some (h, tab\<lparr>ht_buckets := (ht_buckets tab)[i := ht_buckets tab ! i]\<rparr>)"
    by (simp add: OH_HashMapRemove_loop.simps)
  with Nil.prems(1) show ?case by (intro exI conjI) auto
next
  case (Cons y ys)
  then obtain m where m: "node = Ref y" "h y = Some m" "hlist h m ys" by auto
  show ?case
  proof (cases "key_of y = k")
    case False
    then have step: "OH_HashMapRemove_loop mem h tab i k preNode node = OH_HashMapRemove_loop mem h tab i k node m"
      using m Cons.prems(5) by (subst OH_HashMapRemove_loop.simps) simp
    from Cons.IH [of "as @ [y]" m node] Cons.prems m False show ?thesis unfolding step by auto
  next
    case True
    have rest: "filter (\<lambda>n. key_of n \<noteq> k) (y # ys) = ys"
      using Cons.prems(7) True by (auto simp: filter_id_conv) (metis image_eqI)
    show ?thesis
    proof (cases as rule: rev_cases)
      case Nil
      with Cons.prems(1) have "ht_buckets tab ! i = Ref y" by simp
      then have "OH_HashMapRemove_loop mem h tab i k preNode node = Some (h, tab\<lparr>ht_buckets := (ht_buckets tab)[i := m]\<rparr>)"
        using m True Cons.prems(5) by (subst OH_HashMapRemove_loop.simps) simp
      with m(3) Nil rest show ?thesis by auto
    next
      case (snoc bs p)
      have neq: "node \<noteq> ht_buckets tab ! i" using Cons.prems(1,3) m(1) snoc by (cases bs) auto
      from hlist_drop [of h "ht_buckets tab ! i" bs "p # y # ys"] Cons.prems(1) snoc obtain v where v: "h p = Some v" by auto
      have "OH_HashMapRemove_loop mem h tab i k preNode node =
          Some (h(p \<mapsto> m), tab\<lparr>ht_buckets := (ht_buckets tab)[i := ht_buckets tab ! i]\<rparr>)"
        using m True Cons.prems(4,5) neq v snoc by (subst OH_HashMapRemove_loop.simps) simp
      moreover have "hlist (h(p \<mapsto> m)) (ht_buckets tab ! i) (bs @ p # ys)"
        by (rule hlist_unlink [where x = y]) (use Cons.prems(1,3) snoc m(2) in simp_all)
      moreover have "dom (h(p \<mapsto> m)) = dom h" using v by auto
      moreover have "as @ filter (\<lambda>n. key_of n \<noteq> k) (y # ys) = bs @ p # ys" unfolding rest using snoc by simp
      moreover have "\<forall>n. n \<notin> set (as @ y # ys) \<longrightarrow> (h(p \<mapsto> m)) n = h n" using snoc by auto
      ultimately show ?thesis by metis
    qed
  qed
qed


subsection \<open>The map of a table\<close>

text \<open>What a client owes for its functions: the comparisons compare keys, the two hash functions agree and, for the
  keys that are used, have a negative.\<close>

locale hash_keys =
  fixes info :: "('m, 'k) HashInfo" and key_of :: "'m \<Rightarrow> nat \<Rightarrow> 'k" and good :: "'k \<Rightarrow> bool"
  assumes node_compare: "hi_nodeCompare info mem a b = 0 \<longleftrightarrow> key_of mem a = key_of mem b"
    and key_compare: "hi_keyCompare info mem a k = 0 \<longleftrightarrow> key_of mem a = k"
    and node_hash: "hi_nodeHash info mem a = hi_keyHash info (key_of mem a)"
    and hash_range: "good k \<Longrightarrow> hi_keyHash info k \<noteq> - 2147483648"
    and buckets_pos: "hi_maxBucket info > 0"
begin

definition idx :: "'k \<Rightarrow> nat" where
  "idx k = nat (\<bar>hi_keyHash info k\<bar> mod hi_maxBucket info)"

definition rep :: "'m \<Rightarrow> ('m, 'k) HashTab \<Rightarrow> HashHeap \<Rightarrow> nat list list \<Rightarrow> bool" where
  "rep mem tab h bss = (ht_info tab = info \<and> length bss = nat (hi_maxBucket info) \<and> length (ht_buckets tab) = length bss \<and>
     distinct (concat bss) \<and>
     (\<forall>i < length bss. hlist h (ht_buckets tab ! i) (bss ! i) \<and> distinct (map (key_of mem) (bss ! i)) \<and>
       (\<forall>n \<in> set (bss ! i). idx (key_of mem n) = i)))"

definition look :: "'m \<Rightarrow> nat list list \<Rightarrow> 'k \<Rightarrow> nat option" where
  "look mem bss k = find (\<lambda>n. key_of mem n = k) (bss ! idx k)"

text \<open>The table represents a map from keys to nodes.\<close>

definition table_map :: "'m \<Rightarrow> ('m, 'k) HashTab \<Rightarrow> HashHeap \<Rightarrow> ('k \<Rightarrow> nat option) \<Rightarrow> bool" where
  "table_map mem tab h m = (\<exists>bss. rep mem tab h bss \<and> m = look mem bss)"

lemma repD:
  assumes "rep mem tab h bss" "j < length bss"
  shows "hlist h (ht_buckets tab ! j) (bss ! j)" "distinct (map (key_of mem) (bss ! j))" "\<forall>n \<in> set (bss ! j). idx (key_of mem n) = j"
    "j < length (ht_buckets tab)"
  using assms by (simp_all add: rep_def)

lemma idx_less: "idx k < nat (hi_maxBucket info)"
  using buckets_pos by (simp add: idx_def nat_less_eq_zless)

lemma bucket_index_good:
  assumes "good k" "ht_info tab = info"
  shows "bucket_index tab (hi_keyHash info k) = Some (int (idx k))" "int (idx k) < ht_maxBucket tab"
  using assms hash_range [of k] buckets_pos
  by (auto simp: bucket_index_def idx_def ht_maxBucket_def abs_if)

lemma look_Some: "rep mem tab h bss \<Longrightarrow> look mem bss k = Some n \<Longrightarrow> key_of mem n = k \<and> n \<in> set (bss ! idx k)"
  by (auto simp: look_def find_Some_iff)

lemma look_node:
  assumes "rep mem tab h bss" "n \<in> set (concat bss)"
  shows "look mem bss (key_of mem n) = Some n"
proof -
  from assms(2) obtain xs where "xs \<in> set bss" "n \<in> set xs" by auto
  then obtain i where i: "i < length bss" "n \<in> set (bss ! i)" by (metis in_set_conv_nth)
  with assms(1) have k: "idx (key_of mem n) = i" "distinct (map (key_of mem) (bss ! i))" by (auto simp: rep_def)
  obtain n' where "find (\<lambda>m. key_of mem m = key_of mem n) (bss ! i) = Some n'"
    using i(2) by (cases "find (\<lambda>m. key_of mem m = key_of mem n) (bss ! i)") (auto simp: find_None_iff)
  moreover from this have "key_of mem n' = key_of mem n" "n' \<in> set (bss ! i)" by (auto simp: find_Some_iff)
  then have "n' = n" using k(2) i(2) by (auto simp: distinct_map inj_on_def)
  ultimately show ?thesis using k(1) by (simp add: look_def)
qed

lemma OH_HashMapGet_look:
  assumes "rep mem tab h bss" "good k"
  shows "OH_HashMapGet mem h (Some tab) k = Some (case look mem bss k of None \<Rightarrow> NULL | Some n \<Rightarrow> Ref n)"
proof -
  have "hlist h (ht_buckets tab ! idx k) (bss ! idx k)" "ht_info tab = info" using assms(1) idx_less by (auto simp: rep_def)
  with GetHashNodeByKey_hlist [of h _ _ k "hi_keyCompare info mem"] bucket_index_good [OF assms(2), of tab] show ?thesis
    by (simp add: OH_HashMapGet_def look_def key_compare)
qed

lemma OH_HashMapGet_map:
  "table_map mem tab h m \<Longrightarrow> good k \<Longrightarrow> OH_HashMapGet mem h (Some tab) k = Some (case m k of None \<Rightarrow> NULL | Some n \<Rightarrow> Ref n)"
  using OH_HashMapGet_look by (auto simp: table_map_def)

lemma concat_update_set: "i < length bss \<Longrightarrow> set (concat (bss[i := xs])) \<subseteq> set xs \<union> set (concat bss)"
  using set_update_subset_insert [of bss i xs] by auto

lemma distinct_concat_update:
  assumes "distinct (concat bss)" "i < length bss" "distinct xs" "set xs \<subseteq> insert n (set (bss ! i))" "n \<notin> set (concat bss)"
  shows "distinct (concat (bss[i := xs]))"
proof -
  have b: "bss = take i bss @ bss ! i # drop (Suc i) bss" using assms(2) by (rule id_take_nth_drop)
  have "distinct (concat (take i bss) @ bss ! i @ concat (drop (Suc i) bss))"
    using assms(1) by (subst (asm) b) (simp only: concat_append concat.simps)
  moreover have "n \<notin> set (concat (take i bss) @ bss ! i @ concat (drop (Suc i) bss))"
    using assms(5) b by (metis concat.simps(2) concat_append)
  ultimately have "distinct (concat (take i bss) @ xs @ concat (drop (Suc i) bss))"
    using assms(3,4) by (simp only: distinct_append set_append) blast
  then show ?thesis using assms(2) by (simp add: upd_conv_take_nth_drop)
qed

lemma OH_HashMapAdd_map:
  assumes "table_map mem tab h m" "good (key_of mem n)" "h n = Some NULL" "n \<notin> ran m"
  shows "if m (key_of mem n) = None
    then \<exists>tab' h'. OH_HashMapAdd mem h (Some tab) (Ref n) = Some (h', Some tab', 0) \<and> table_map mem tab' h' (m(key_of mem n \<mapsto> n)) \<and>
      (\<forall>a. a \<noteq> n \<longrightarrow> h' a = h a) \<and> h' n \<noteq> None
    else OH_HashMapAdd mem h (Some tab) (Ref n) = Some (h, Some tab, - 1)"
proof -
  let ?k = "key_of mem n"
  let ?i = "idx ?k"
  from assms(1) obtain bss where r: "rep mem tab h bss" "m = look mem bss" by (auto simp: table_map_def)
  have new: "n \<notin> set (concat bss)" using assms(4) look_node [OF r(1)] r(2) by (metis ranI)
  have i: "?i < length bss" "hlist h (ht_buckets tab ! ?i) (bss ! ?i)" "ht_info tab = info" "?i < length (ht_buckets tab)"
    using r(1) idx_less by (auto simp: rep_def)
  have found: "GetHashNodeByNode mem tab h (ht_buckets tab ! ?i) n = Some (case m ?k of None \<Rightarrow> NULL | Some n \<Rightarrow> Ref n)"
    using GetHashNodeByNode_hlist [OF i(2), of mem tab n] i(3) by (simp add: node_compare r(2) look_def)
  note step = assms(3) bucket_index_good [OF assms(2) i(3)] found i(3)
  show ?thesis
  proof (cases "m ?k")
    case None
    let ?h = "h(n \<mapsto> ht_buckets tab ! ?i)" and ?t = "tab\<lparr>ht_buckets := (ht_buckets tab)[?i := Ref n]\<rparr>"
      and ?b = "bss[?i := n # bss ! ?i]"
    have add: "OH_HashMapAdd mem h (Some tab) (Ref n) = Some (?h, Some ?t, 0)"
      using step None by (simp add: OH_HashMapAdd_def node_hash)
    have keys: "key_of mem n \<notin> key_of mem ` set (bss ! ?i)" using None r(2) by (auto simp: look_def find_None_iff)
    have "rep mem ?t ?h ?b"
      unfolding rep_def
    proof (intro conjI allI impI)
      show "distinct (concat ?b)"
      proof (rule distinct_concat_update [of _ _ _ n])
        have "distinct (map (key_of mem) (bss ! ?i))" using r(1) i(1) by (simp add: rep_def)
        then show "distinct (n # bss ! ?i)" using new i(1) by (auto simp: distinct_map)
        show "distinct (concat bss)" using r(1) by (simp add: rep_def)
      qed (use i(1) new in auto)
      fix j assume "j < length ?b"
      then have j: "j < length bss" by simp
      note R = repD [OF r(1) j]
      have "n \<notin> set (bss ! j)" using new nth_mem [OF j] by auto
      with R i show "hlist ?h (ht_buckets ?t ! j) (?b ! j)" by (cases "j = ?i") simp_all
      show "distinct (map (key_of mem) (?b ! j))" using R i(1) keys by (cases "j = ?i") simp_all
      show "\<forall>n \<in> set (?b ! j). idx (key_of mem n) = j" using R i(1) by (cases "j = ?i") simp_all
    qed (use r(1) in \<open>simp_all add: rep_def\<close>)
    moreover have "look mem ?b = m(?k \<mapsto> n)"
    proof
      fix k show "look mem ?b k = (m(?k \<mapsto> n)) k"
        using i(1) r(2) by (cases "idx k = ?i") (auto simp: look_def)
    qed
    ultimately show ?thesis using add None by (auto simp: table_map_def)
  next
    case (Some n')
    with step show ?thesis by (simp add: OH_HashMapAdd_def node_hash)
  qed
qed

lemma OH_HashMapRemove_map:
  assumes "table_map mem tab h m" "good k"
  shows "\<exists>tab' h'. OH_HashMapRemove mem h (Some tab) k = Some (h', Some tab') \<and> table_map mem tab' h' (m(k := None)) \<and>
    (\<forall>a. a \<notin> ran m \<longrightarrow> h' a = h a) \<and> dom h' = dom h"
proof -
  let ?i = "idx k"
  from assms(1) obtain bss where r: "rep mem tab h bss" "m = look mem bss" by (auto simp: table_map_def)
  have i: "?i < length bss" "hlist h (ht_buckets tab ! ?i) (bss ! ?i)" "ht_info tab = info" "?i < length (ht_buckets tab)"
      "distinct (bss ! ?i)" "distinct (map (key_of mem) (bss ! ?i))"
    using r(1) idx_less by (auto simp: rep_def distinct_map)
  have key: "\<forall>n \<in> set ([] @ bss ! ?i). hi_keyCompare (ht_info tab) mem n k = 0 \<longleftrightarrow> key_of mem n = k" using key_compare i(3) by simp
  obtain h' p' where loop: "OH_HashMapRemove_loop mem h tab ?i k (ht_buckets tab ! ?i) (ht_buckets tab ! ?i) =
      Some (h', tab\<lparr>ht_buckets := (ht_buckets tab)[?i := p']\<rparr>)"
      "hlist h' p' (filter (\<lambda>n. key_of mem n \<noteq> k) (bss ! ?i))" "\<forall>n. n \<notin> set (bss ! ?i) \<longrightarrow> h' n = h n" "dom h' = dom h"
    using OH_HashMapRemove_hlist [of h tab ?i "[]" "bss ! ?i" _ "ht_buckets tab ! ?i", OF _ i(2) _ _ key _ i(6,4)] i(2,5) by auto
  let ?t = "tab\<lparr>ht_buckets := (ht_buckets tab)[?i := p']\<rparr>" and ?b = "bss[?i := filter (\<lambda>n. key_of mem n \<noteq> k) (bss ! ?i)]"
  have rem: "OH_HashMapRemove mem h (Some tab) k = Some (h', Some ?t)"
    using loop(1) bucket_index_good [OF assms(2) i(3)] i(3) by (simp add: OH_HashMapRemove_def Let_def)
  have "rep mem ?t h' ?b"
    unfolding rep_def
  proof (intro conjI allI impI)
    obtain n where "n \<notin> set (concat bss)" using ex_new_if_finite [OF infinite_UNIV_nat, of "set (concat bss)"] by auto
    then show "distinct (concat ?b)"
      by (intro distinct_concat_update [of _ _ _ n]) (use r(1) i in \<open>auto simp: rep_def\<close>)
    fix j assume j: "j < length ?b"
    show "hlist h' (ht_buckets ?t ! j) (?b ! j)"
    proof (cases "j = ?i")
      case False
      have "\<forall>x \<in> set (bss ! j). x \<notin> set (bss ! ?i)" using r(1) j i(1) False unfolding rep_def by (metis length_list_update)
      with loop(3) have "\<forall>x \<in> set (bss ! j). h' x = h x" by blast
      with hlist_cong [of "bss ! j" h' h] r(1) j False show ?thesis by (simp add: rep_def)
    qed (use loop(2) i in auto)
    show "distinct (map (key_of mem) (?b ! j))" using r(1) j i by (cases "j = ?i") (auto simp: rep_def distinct_map inj_on_def)
    show "\<forall>n \<in> set (?b ! j). idx (key_of mem n) = j" using r(1) j i(1) by (cases "j = ?i") (auto simp: rep_def)
  qed (use r(1) in \<open>simp_all add: rep_def\<close>)
  moreover have "look mem ?b = m(k := None)"
  proof
    fix k' show "look mem ?b k' = (m(k := None)) k'"
    proof (cases "idx k' = ?i")
      case True
      have "find (\<lambda>n. key_of mem n = k') (filter (\<lambda>n. key_of mem n \<noteq> k) xs) = (if k' = k then None else find (\<lambda>n. key_of mem n = k') xs)" for xs
        by (induction xs) auto
      with True i(1) r(2) show ?thesis by (simp add: look_def)
    qed (use r(2) in \<open>auto simp: look_def\<close>)
  qed
  moreover have "\<forall>a. a \<notin> ran m \<longrightarrow> h' a = h a"
  proof (intro allI impI)
    fix a assume a: "a \<notin> ran m"
    have "a \<notin> set (bss ! ?i)"
    proof
      assume "a \<in> set (bss ! ?i)"
      with i(1) have "a \<in> set (concat bss)" by auto
      from look_node [OF r(1) this] r(2) a show False by (auto simp: ran_def)
    qed
    with loop(3) show "h' a = h a" by blast
  qed
  ultimately show ?thesis using rem loop(4) by (auto simp: table_map_def)
qed

lemma table_map_cong:
  assumes "table_map mem tab h m" "\<forall>n \<in> ran m. key_of mem' n = key_of mem n" "\<forall>n \<in> ran m. h' n = h n"
  shows "table_map mem' tab h' m"
proof -
  from assms(1) obtain bss where r: "rep mem tab h bss" "m = look mem bss" by (auto simp: table_map_def)
  have nodes: "n \<in> ran m" if "j < length bss" "n \<in> set (bss ! j)" for j n
  proof -
    have "n \<in> set (concat bss)" using that by auto
    from look_node [OF r(1) this] r(2) show ?thesis by (auto simp: ran_def)
  qed
  have "rep mem' tab h' bss"
    unfolding rep_def
  proof (intro conjI allI impI)
    fix j assume j: "j < length bss"
    note R = repD [OF r(1) j]
    show "hlist h' (ht_buckets tab ! j) (bss ! j)" using R(1) hlist_cong [of "bss ! j" h' h] nodes [OF j] assms(3) by simp
    have "map (key_of mem') (bss ! j) = map (key_of mem) (bss ! j)" using nodes [OF j] assms(2) by simp
    with R(2) show "distinct (map (key_of mem') (bss ! j))" by metis
    show "\<forall>n \<in> set (bss ! j). idx (key_of mem' n) = j" using R(3) nodes [OF j] assms(2) by simp
  qed (use r(1) in \<open>simp_all add: rep_def\<close>)
  moreover have "look mem' bss k = m k" for k
  proof -
    have "idx k < length bss" using r(1) idx_less by (simp add: rep_def)
    then have "find (\<lambda>n. key_of mem' n = k) (bss ! idx k) = find (\<lambda>n. key_of mem n = k) (bss ! idx k)"
      using nodes assms(2) by (intro find_cong) auto
    with r(2) show ?thesis by (simp add: look_def)
  qed
  then have "m = look mem' bss" by auto
  ultimately show ?thesis by (auto simp: table_map_def)
qed

lemma table_map_key: "table_map mem tab h m \<Longrightarrow> m k = Some n \<Longrightarrow> key_of mem n = k"
  using look_Some by (auto simp: table_map_def)

lemma hlist_alloc: "hlist h p xs \<Longrightarrow> x \<in> set xs \<Longrightarrow> h x \<noteq> None"
  by (induction xs arbitrary: p) auto

lemma table_map_alloc: "table_map mem tab h m \<Longrightarrow> n \<in> ran m \<Longrightarrow> h n \<noteq> None"
proof -
  assume t: "table_map mem tab h m" and n: "n \<in> ran m"
  from t obtain bss where r: "rep mem tab h bss" "m = look mem bss" by (auto simp: table_map_def)
  from n obtain k where "look mem bss k = Some n" by (auto simp: ran_def r(2))
  with look_Some [OF r(1)] have "n \<in> set (bss ! idx k)" by blast
  moreover have "idx k < length bss" using r(1) idx_less by (simp add: rep_def)
  ultimately show "h n \<noteq> None" using repD(1) [OF r(1)] hlist_alloc by metis
qed

lemma OH_HashMapCreate_map: "\<exists>tab. OH_HashMapCreate g (Some info) = (u32 (g + 1), Some tab, 0) \<and> table_map mem tab h Map.empty"
proof -
  let ?t = "\<lparr>ht_info = info, ht_tableId = g, ht_buckets = replicate (nat (hi_maxBucket info)) NULL\<rparr>"
  have "rep mem ?t h (replicate (nat (hi_maxBucket info)) [])" by (simp add: rep_def)
  moreover have "look mem (replicate (nat (hi_maxBucket info)) []) = Map.empty" using idx_less by (auto simp: look_def)
  ultimately show ?thesis using buckets_pos by (auto simp: OH_HashMapCreate_def table_map_def)
qed

end

end
