(* ===== verification/Linked_List.thy ===== *)
theory Linked_List
  imports Prelude
begin

text \<open>
  The circular doubly linked lists of the sources (\<^verbatim>\<open>list.c\<close>). A heap holds the two links of every node; a node
  that was freed has none, and reading or writing its links is \<open>None\<close>. The refinement to HOL lists shows what the
  operations do to the sequence of nodes behind a list head.
\<close>

subsection \<open>Nodes\<close>

record ListHeap =
  lh_next :: "nat \<Rightarrow> ptr option"
  lh_prev :: "nat \<Rightarrow> ptr option"

definition set_next :: "ListHeap \<Rightarrow> ptr \<Rightarrow> ptr \<Rightarrow> ListHeap exec" where
  "set_next h p v = (case p of NULL \<Rightarrow> None
     | Ref a \<Rightarrow> if lh_next h a = None then None else Some (h\<lparr>lh_next := (lh_next h)(a \<mapsto> v)\<rparr>))"

definition set_prev :: "ListHeap \<Rightarrow> ptr \<Rightarrow> ptr \<Rightarrow> ListHeap exec" where
  "set_prev h p v = (case p of NULL \<Rightarrow> None
     | Ref a \<Rightarrow> if lh_prev h a = None then None else Some (h\<lparr>lh_prev := (lh_prev h)(a \<mapsto> v)\<rparr>))"

definition get_next :: "ListHeap \<Rightarrow> ptr \<Rightarrow> ptr exec" where
  "get_next h p = (case p of NULL \<Rightarrow> None | Ref a \<Rightarrow> lh_next h a)"

definition get_prev :: "ListHeap \<Rightarrow> ptr \<Rightarrow> ptr exec" where
  "get_prev h p = (case p of NULL \<Rightarrow> None | Ref a \<Rightarrow> lh_prev h a)"

definition free_node :: "ListHeap \<Rightarrow> nat \<Rightarrow> ListHeap" where
  "free_node h a = h\<lparr>lh_next := (lh_next h)(a := None), lh_prev := (lh_prev h)(a := None)\<rparr>"

subsection \<open>Operations\<close>

definition OH_ListInit :: "ListHeap \<Rightarrow> ptr \<Rightarrow> ListHeap exec" where
  "OH_ListInit h node =
     (if node = NULL then Some h
      else do { h \<leftarrow> set_next h node node; set_prev h node node })"

definition OH_ListAddTail :: "ListHeap \<Rightarrow> ptr \<Rightarrow> ptr \<Rightarrow> ListHeap exec" where
  "OH_ListAddTail h head item =
     (if head = NULL \<or> item = NULL then Some h
      else do {
        h \<leftarrow> set_next h item head;
        p \<leftarrow> get_prev h head;
        h \<leftarrow> set_prev h item p;
        p \<leftarrow> get_prev h head;
        h \<leftarrow> set_next h p item;
        set_prev h head item
      })"

definition OH_ListRemove :: "ListHeap \<Rightarrow> ptr \<Rightarrow> ListHeap exec" where
  "OH_ListRemove h item =
     (if item = NULL then Some h
      else do {
        n \<leftarrow> get_next h item;
        p \<leftarrow> get_prev h item;
        h \<leftarrow> set_prev h n p;
        p \<leftarrow> get_prev h item;
        n \<leftarrow> get_next h item;
        set_next h p n
      })"

text \<open>The comparison of two nodes is a parameter; it reads the data of the nodes and not their links.\<close>

partial_function (option) OH_ListAddWithOrder_loop :: "ListHeap \<Rightarrow> ptr \<Rightarrow> nat \<Rightarrow> (nat \<Rightarrow> nat \<Rightarrow> int) \<Rightarrow> ptr \<Rightarrow> ptr exec" where
  "OH_ListAddWithOrder_loop h head item compareProc match =
     (case match of
        NULL \<Rightarrow> Some NULL
      | Ref m \<Rightarrow>
          if match = head then Some match
          else if compareProc m item > 0 then Some match
          else do { n \<leftarrow> get_next h match; OH_ListAddWithOrder_loop h head item compareProc n })"

definition OH_ListAddWithOrder :: "ListHeap \<Rightarrow> ptr \<Rightarrow> ptr \<Rightarrow> (nat \<Rightarrow> nat \<Rightarrow> int) option \<Rightarrow> ListHeap exec" where
  "OH_ListAddWithOrder h head item compareProc =
     (case (head, item, compareProc) of
        (Ref _, Ref i, Some cmp) \<Rightarrow> do {
          match \<leftarrow> get_next h head;
          match \<leftarrow> OH_ListAddWithOrder_loop h head i cmp match;
          if match = NULL then Some h
          else do {
            h \<leftarrow> set_next h item match;
            p \<leftarrow> get_prev h match;
            h \<leftarrow> set_prev h item p;
            p \<leftarrow> get_prev h match;
            h \<leftarrow> set_next h p item;
            set_prev h match item
          }
        }
      | _ \<Rightarrow> Some h)"

partial_function (option) OH_ListFind_loop :: "ListHeap \<Rightarrow> ptr \<Rightarrow> (nat \<Rightarrow> int) \<Rightarrow> ptr \<Rightarrow> ptr exec" where
  "OH_ListFind_loop h head compareProc match =
     (case match of
        NULL \<Rightarrow> Some NULL
      | Ref m \<Rightarrow>
          if match = head then Some NULL
          else if compareProc m = 0 then Some match
          else do { n \<leftarrow> get_next h match; OH_ListFind_loop h head compareProc n })"

definition OH_ListFind :: "ListHeap \<Rightarrow> ptr \<Rightarrow> (nat \<Rightarrow> int) option \<Rightarrow> ptr exec" where
  "OH_ListFind h head compareProc =
     (case compareProc of
        None \<Rightarrow> Some NULL
      | Some cmp \<Rightarrow> if head = NULL then Some NULL else do { match \<leftarrow> get_next h head; OH_ListFind_loop h head cmp match })"

abbreviation (input) TRAVERSE_REVERSE_ORDER :: "32 word" where "TRAVERSE_REVERSE_ORDER \<equiv> 1"
abbreviation (input) TRAVERSE_STOP_WHEN_ERROR :: "32 word" where "TRAVERSE_STOP_WHEN_ERROR \<equiv> 2"

definition IS_REVERSE_ORDER :: "32 word \<Rightarrow> bool" where
  "IS_REVERSE_ORDER flags = (flags AND TRAVERSE_REVERSE_ORDER \<noteq> 0)"

definition IS_STOP_WHEN_ERROR :: "32 word \<Rightarrow> bool" where
  "IS_STOP_WHEN_ERROR flags = (flags AND TRAVERSE_STOP_WHEN_ERROR \<noteq> 0)"

text \<open>A traversal calls \<^verbatim>\<open>traversalProc\<close> with the heap, the data and the node; the procedure may change both, also free
  the node.\<close>

type_synonym 'd traversal = "ListHeap \<Rightarrow> 'd \<Rightarrow> nat \<Rightarrow> (ListHeap \<times> 'd \<times> int) exec"

partial_function (option) OH_ListTraversal_loop ::
  "ptr \<Rightarrow> 'd traversal \<Rightarrow> 32 word \<Rightarrow> ListHeap \<Rightarrow> 'd \<Rightarrow> ptr \<Rightarrow> (ListHeap \<times> 'd \<times> int) exec" where
  "OH_ListTraversal_loop head traversalProc flags h data match =
     (case match of
        NULL \<Rightarrow> Some (h, data, 0)
      | Ref m \<Rightarrow>
          if match = head then Some (h, data, 0)
          else do {
            n \<leftarrow> (if IS_REVERSE_ORDER flags then get_prev h match else get_next h match);
            r \<leftarrow> traversalProc h data m;
            (case r of (h, data, ret) \<Rightarrow>
               if ret \<noteq> 0 \<and> IS_STOP_WHEN_ERROR flags then Some (h, data, ret)
               else OH_ListTraversal_loop head traversalProc flags h data n)
          })"

definition OH_ListTraversal :: "ListHeap \<Rightarrow> ptr \<Rightarrow> 'd \<Rightarrow> 'd traversal option \<Rightarrow> 32 word \<Rightarrow> (ListHeap \<times> 'd \<times> int) exec" where
  "OH_ListTraversal h head data traversalProc flags =
     (case traversalProc of
        None \<Rightarrow> Some (h, data, - 1)
      | Some proc \<Rightarrow>
          if head = NULL then Some (h, data, - 1)
          else do {
            match \<leftarrow> (if IS_REVERSE_ORDER flags then get_prev h head else get_next h head);
            OH_ListTraversal_loop head proc flags h data match
          })"

text \<open>\<^verbatim>\<open>destroyProc\<close> is NULL or a function that works on the heap and on data of its own.\<close>

type_synonym 'd destroy = "ListHeap \<Rightarrow> 'd \<Rightarrow> nat \<Rightarrow> (ListHeap \<times> 'd) exec"

definition listDestroyTraversal :: "'d destroy option \<Rightarrow> 'd traversal" where
  "listDestroyTraversal destroyProc h data node =
     (case destroyProc of
        None \<Rightarrow> Some (free_node h node, data, 0)
      | Some proc \<Rightarrow> do { (h, data) \<leftarrow> proc h data node; Some (h, data, 0) })"

definition OH_ListRemoveAll :: "ListHeap \<Rightarrow> ptr \<Rightarrow> 'd \<Rightarrow> 'd destroy option \<Rightarrow> (ListHeap \<times> 'd) exec" where
  "OH_ListRemoveAll h head data destroyProc =
     (if head = NULL then Some (h, data)
      else do {
        (h, data, _) \<leftarrow> OH_ListTraversal h head data (Some (listDestroyTraversal destroyProc)) 0;
        h \<leftarrow> OH_ListInit h head;
        Some (h, data)
      })"

partial_function (option) OH_ListGetCnt_loop :: "ListHeap \<Rightarrow> ptr \<Rightarrow> ptr \<Rightarrow> nat \<Rightarrow> nat exec" where
  "OH_ListGetCnt_loop h head node cnt =
     (if node = head then Some cnt else do { n \<leftarrow> get_next h node; OH_ListGetCnt_loop h head n (cnt + 1) })"

definition OH_ListGetCnt :: "ListHeap \<Rightarrow> ptr \<Rightarrow> nat exec" where
  "OH_ListGetCnt h head = (if head = NULL then Some 0 else do { n \<leftarrow> get_next h head; OH_ListGetCnt_loop h head n 0 })"

subsection \<open>The nodes behind a list head\<close>

definition link :: "ListHeap \<Rightarrow> nat \<Rightarrow> nat \<Rightarrow> bool" where
  "link h p q = (lh_next h p = Some (Ref q) \<and> lh_prev h q = Some (Ref p))"

fun segment :: "ListHeap \<Rightarrow> nat \<Rightarrow> nat list \<Rightarrow> nat \<Rightarrow> bool" where
  "segment h p [] q = link h p q"
| "segment h p (x # xs) q = (link h p x \<and> segment h x xs q)"

definition ring :: "ListHeap \<Rightarrow> nat \<Rightarrow> nat list \<Rightarrow> bool" where
  "ring h head xs = (distinct (head # xs) \<and> segment h head xs head)"

text \<open>A node that is allocated, in no particular state.\<close>

definition node_of :: "ListHeap \<Rightarrow> nat \<Rightarrow> bool" where
  "node_of h a = (lh_next h a \<noteq> None \<and> lh_prev h a \<noteq> None)"

lemma segment_append [simp]: "segment h p (xs @ y # ys) q \<longleftrightarrow> segment h p xs y \<and> segment h y ys q"
  by (induction xs arbitrary: p) auto

lemma segment_snoc: "segment h p (xs @ [y]) q \<longleftrightarrow> segment h p xs y \<and> link h y q"
  by simp

text \<open>A segment depends only on the next links before its end and the prev links after its start.\<close>

lemma segment_cong:
  assumes "\<forall>x \<in> set (p # xs). lh_next h' x = lh_next h x" "\<forall>x \<in> set (xs @ [q]). lh_prev h' x = lh_prev h x"
  shows "segment h' p xs q = segment h p xs q"
  using assms by (induction xs arbitrary: p) (auto simp: link_def)

lemma segment_first: "segment h p xs q \<Longrightarrow> lh_next h p = Some (Ref (hd (xs @ [q])))"
  by (cases xs) (auto simp: link_def)

lemma segment_last: "segment h p xs q \<Longrightarrow> lh_prev h q = Some (Ref (last (p # xs)))"
  by (induction xs arbitrary: p) (auto simp: link_def)

lemma segment_node: "segment h p xs q \<Longrightarrow> x \<in> set xs \<Longrightarrow> node_of h x"
proof (induction xs arbitrary: p)
  case (Cons y ys)
  then show ?case using segment_first [of h y ys q] by (auto simp: node_of_def link_def)
qed simp

lemma ring_node: "ring h head xs \<Longrightarrow> x \<in> set (head # xs) \<Longrightarrow> node_of h x"
  using segment_first [of h head xs head] segment_last [of h head xs head] segment_node [of h head xs head]
  by (auto simp: ring_def node_of_def)


lemma segment_split: "segment h a (xs @ ys) b \<Longrightarrow> segment h a xs (hd (ys @ [b])) \<and> segment h (last (a # xs)) ys b"
  by (induction xs arbitrary: a) (cases ys, auto)

lemma segment_join: "segment h a xs (hd (ys @ [b])) \<Longrightarrow> segment h (last (a # xs)) ys b \<Longrightarrow> segment h a (xs @ ys) b"
  by (induction xs arbitrary: a) auto

lemma segment_end:
  assumes "segment h p xs q" "\<forall>x \<in> set (butlast (p # xs)). lh_next h' x = lh_next h x" "\<forall>x \<in> set xs. lh_prev h' x = lh_prev h x"
    and "link h' (last (p # xs)) z"
  shows "segment h' p xs z"
  using assms by (induction xs arbitrary: p) (auto simp: link_def split: if_splits)

lemma segment_start:
  assumes "segment h p xs q" "\<forall>x \<in> set xs. lh_next h' x = lh_next h x" "\<forall>x \<in> set (tl (xs @ [q])). lh_prev h' x = lh_prev h x"
    and "link h' z (hd (xs @ [q]))"
  shows "segment h' z xs q"
proof (cases xs)
  case (Cons y ys)
  with assms segment_cong [of y ys h' h q] show ?thesis by auto
qed (use assms in simp)

lemma distinct_last: "distinct xs \<Longrightarrow> xs \<noteq> [] \<Longrightarrow> last xs \<notin> set (butlast xs)"
  by (metis append_butlast_last_id distinct_append not_distinct_conv_prefix)

text \<open>Inserting a node between two neighbours, and taking one out.\<close>

definition insert_between :: "ListHeap \<Rightarrow> nat \<Rightarrow> nat \<Rightarrow> nat \<Rightarrow> ListHeap" where
  "insert_between h p x q = h\<lparr>lh_next := (lh_next h)(x \<mapsto> Ref q, p \<mapsto> Ref x), lh_prev := (lh_prev h)(x \<mapsto> Ref p, q \<mapsto> Ref x)\<rparr>"

lemma insert_between_ring:
  assumes "ring h head (xs @ ys)" "x \<notin> set (head # xs @ ys)"
  shows "ring (insert_between h (last (head # xs)) x (hd (ys @ [head]))) head (xs @ x # ys)"
proof -
  let ?p = "last (head # xs)" and ?q = "hd (ys @ [head])"
  let ?h = "insert_between h ?p x ?q"
  have d: "distinct (head # xs @ ys)" "segment h head xs ?q" "segment h ?p ys head"
    using assms(1) segment_split [of h head xs ys head] by (auto simp: ring_def)
  have p: "?p \<in> set (head # xs)" "?p \<notin> set (butlast (head # xs))" using d(1) distinct_last [of "head # xs"] by auto
  have q: "?q \<in> set (ys @ [head])" "?q \<notin> set (tl (ys @ [head]))" using d(1) by (cases ys; auto)+
  have px: "?p \<noteq> x" "?q \<noteq> x" using p q assms(2) by auto
  have "segment ?h head xs x"
  proof (rule segment_end [OF d(2)])
    show "\<forall>a \<in> set (butlast (head # xs)). lh_next ?h a = lh_next h a"
    proof
      fix a assume a: "a \<in> set (butlast (head # xs))"
      have "a \<noteq> x" using in_set_butlastD [OF a] assms(2) by auto
      moreover have "a \<noteq> ?p" using a p(2) by metis
      ultimately show "lh_next ?h a = lh_next h a" by (simp add: insert_between_def)
    qed
    show "\<forall>a \<in> set xs. lh_prev ?h a = lh_prev h a" using q assms(2) d(1) by (auto simp: insert_between_def)
    show "link ?h ?p x" using px by (auto simp: insert_between_def link_def)
  qed
  moreover have "segment ?h x ys head"
  proof (rule segment_start [OF d(3)])
    show "\<forall>a \<in> set ys. lh_next ?h a = lh_next h a" using p(1) assms(2) d(1) by (auto simp: insert_between_def)
    show "\<forall>a \<in> set (tl (ys @ [head])). lh_prev ?h a = lh_prev h a"
      using q(2) assms(2) by (cases ys) (auto simp: insert_between_def)
    show "link ?h x ?q" using px by (auto simp: insert_between_def link_def)
  qed
  ultimately show ?thesis using assms(2) d(1) by (auto simp: ring_def)
qed

lemma remove_ring:
  assumes "ring h head (xs @ x # ys)"
  defines "p \<equiv> last (head # xs)" and "q \<equiv> hd (ys @ [head])"
  shows "ring (h\<lparr>lh_next := (lh_next h)(p \<mapsto> Ref q), lh_prev := (lh_prev h)(q \<mapsto> Ref p)\<rparr>) head (xs @ ys)"
proof -
  let ?h = "h\<lparr>lh_next := (lh_next h)(p \<mapsto> Ref q), lh_prev := (lh_prev h)(q \<mapsto> Ref p)\<rparr>"
  have d: "distinct (head # xs @ x # ys)" "segment h head xs x" "segment h x ys head"
    using assms(1) by (auto simp: ring_def)
  have p: "p \<in> set (head # xs)" "p \<notin> set (butlast (head # xs))" using d(1) distinct_last [of "head # xs"] by (auto simp: p_def)
  have q: "q \<in> set (ys @ [head])" "q \<notin> set (tl (ys @ [head]))" using d(1) by (cases ys; auto simp: q_def)+
  have "segment ?h head xs q"
    by (rule segment_end [OF d(2)])
      (use p q d(1) in \<open>auto simp: link_def p_def [symmetric] simp del: last.simps butlast.simps\<close>)
  moreover have "segment ?h p ys head"
    by (rule segment_start [OF d(3)]) (use p q d(1) in \<open>cases ys; auto simp: link_def q_def [symmetric]\<close>)+
  ultimately show ?thesis using d(1) segment_join [of ?h head xs ys head] by (auto simp: ring_def p_def q_def)
qed


subsection \<open>What the operations do\<close>

lemma OH_ListInit_ring: "node_of h a \<Longrightarrow> \<exists>h'. OH_ListInit h (Ref a) = Some h' \<and> ring h' a []"
  by (auto simp: OH_ListInit_def set_next_def set_prev_def node_of_def ring_def link_def)

lemma link_insert:
  assumes "node_of h x" "lh_prev h q = Some (Ref p)" "lh_next h p \<noteq> None" "x \<noteq> p" "x \<noteq> q"
  shows "do { h \<leftarrow> set_next h (Ref x) (Ref q); p \<leftarrow> get_prev h (Ref q); h \<leftarrow> set_prev h (Ref x) p;
      p \<leftarrow> get_prev h (Ref q); h \<leftarrow> set_next h p (Ref x); set_prev h (Ref q) (Ref x) } = Some (insert_between h p x q)"
  using assms by (auto simp: set_next_def set_prev_def get_prev_def node_of_def insert_between_def fun_upd_twist)

lemma OH_ListAddTail_ring:
  assumes "ring h head xs" "x \<notin> set (head # xs)" "node_of h x"
  shows "\<exists>h'. OH_ListAddTail h (Ref head) (Ref x) = Some h' \<and> ring h' head (xs @ [x])"
proof -
  let ?p = "last (head # xs)"
  have "lh_prev h head = Some (Ref ?p)" using assms(1) segment_last [of h head xs head] by (simp add: ring_def)
  moreover have "lh_next h ?p \<noteq> None" "x \<noteq> ?p" using ring_node [OF assms(1), of ?p] assms(2) by (auto simp: node_of_def)
  ultimately have "OH_ListAddTail h (Ref head) (Ref x) = Some (insert_between h ?p x head)"
    using link_insert [OF assms(3), of head ?p] assms(2) by (simp add: OH_ListAddTail_def)
  with insert_between_ring [of h head xs "[]" x] assms show ?thesis by simp
qed

lemma OH_ListRemove_ring:
  assumes "ring h head (xs @ x # ys)"
  shows "\<exists>h'. OH_ListRemove h (Ref x) = Some h' \<and> ring h' head (xs @ ys) \<and>
    (\<forall>a. node_of h' a = node_of h a) \<and> lh_next h' x = lh_next h x \<and> lh_prev h' x = lh_prev h x"
proof -
  let ?p = "last (head # xs)" and ?q = "hd (ys @ [head])"
  have seg: "segment h head xs x" "segment h x ys head" and d: "distinct (head # xs @ x # ys)" using assms by (auto simp: ring_def)
  have np: "lh_prev h x = Some (Ref ?p)" "lh_next h x = Some (Ref ?q)"
    using segment_last [OF seg(1)] segment_first [OF seg(2)] by simp_all
  have nd: "node_of h ?p" "node_of h ?q" "?p \<noteq> x" "?q \<noteq> x"
    using ring_node [OF assms] d by (auto simp: hd_append)
  have "OH_ListRemove h (Ref x) = Some (h\<lparr>lh_next := (lh_next h)(?p \<mapsto> Ref ?q), lh_prev := (lh_prev h)(?q \<mapsto> Ref ?p)\<rparr>)"
    using np nd by (auto simp: OH_ListRemove_def get_next_def get_prev_def set_next_def set_prev_def node_of_def simp del: last.simps)
  with remove_ring [OF assms] nd show ?thesis by (auto simp: node_of_def simp del: last.simps)
qed

lemma order_loop:
  assumes "segment h p xs head" "head \<notin> set xs"
  shows "OH_ListAddWithOrder_loop h (Ref head) x cmp (Ref (hd (xs @ [head]))) =
    Some (Ref (hd (dropWhile (\<lambda>y. cmp y x \<le> 0) xs @ [head])))"
  using assms
proof (induction xs arbitrary: p)
  case (Cons y ys)
  have "get_next h (Ref y) = Some (Ref (hd (ys @ [head])))" using Cons.prems segment_first [of h y ys head] by (simp add: get_next_def)
  with Cons.IH [of y] Cons.prems show ?case by (subst OH_ListAddWithOrder_loop.simps) (auto simp: not_less)
qed (simp add: OH_ListAddWithOrder_loop.simps)

lemma OH_ListAddWithOrder_ring:
  assumes "ring h head xs" "x \<notin> set (head # xs)" "node_of h x"
  shows "\<exists>h'. OH_ListAddWithOrder h (Ref head) (Ref x) (Some cmp) = Some h' \<and>
    ring h' head (takeWhile (\<lambda>y. cmp y x \<le> 0) xs @ x # dropWhile (\<lambda>y. cmp y x \<le> 0) xs)"
proof -
  let ?l = "takeWhile (\<lambda>y. cmp y x \<le> 0) xs" and ?r = "dropWhile (\<lambda>y. cmp y x \<le> 0) xs"
  let ?p = "last (head # ?l)" and ?q = "hd (?r @ [head])"
  have ring: "ring h head (?l @ ?r)" using assms(1) by simp
  have seg: "segment h head xs head" using assms(1) by (simp add: ring_def)
  then have n: "get_next h (Ref head) = Some (Ref (hd (xs @ [head])))" using segment_first by (simp add: get_next_def)
  have prev: "lh_prev h ?q = Some (Ref ?p)" using segment_last segment_split [of h head ?l ?r head] seg by simp
  have p: "?p \<in> set (head # xs)" by (auto dest: set_takeWhileD last_in_set)
  have "?q \<in> set (?r @ [head])" by (rule hd_in_set) simp
  then have q: "?q \<in> set (head # xs)" by (auto dest: set_dropWhileD)
  have "x \<noteq> ?p" "x \<noteq> ?q" "lh_next h ?p \<noteq> None"
    using p q assms(2) ring_node [OF assms(1) p] unfolding node_of_def by metis+
  then have "OH_ListAddWithOrder h (Ref head) (Ref x) (Some cmp) = Some (insert_between h ?p x ?q)"
    using link_insert [OF assms(3) prev] order_loop [OF seg, of x cmp] n assms(1)
    by (simp add: OH_ListAddWithOrder_def ring_def del: last.simps)
  with insert_between_ring [OF ring] assms(2) show ?thesis by simp
qed

lemma count_loop:
  assumes "segment h p xs head" "head \<notin> set xs"
  shows "OH_ListGetCnt_loop h (Ref head) (Ref (hd (xs @ [head]))) n = Some (n + length xs)"
  using assms
proof (induction xs arbitrary: p n)
  case (Cons y ys)
  have "get_next h (Ref y) = Some (Ref (hd (ys @ [head])))" using Cons.prems segment_first [of h y ys head] by (simp add: get_next_def)
  with Cons.IH [of y] Cons.prems show ?case by (subst OH_ListGetCnt_loop.simps) auto
qed (simp add: OH_ListGetCnt_loop.simps)

lemma OH_ListGetCnt_ring: "ring h head xs \<Longrightarrow> OH_ListGetCnt h (Ref head) = Some (length xs)"
  using count_loop [of h head xs head 0] segment_first [of h head xs head]
  by (simp add: OH_ListGetCnt_def get_next_def ring_def)

lemma find_loop:
  assumes "segment h p xs head" "head \<notin> set xs"
  shows "OH_ListFind_loop h (Ref head) cmp (Ref (hd (xs @ [head]))) =
    Some (case find (\<lambda>y. cmp y = 0) xs of None \<Rightarrow> NULL | Some y \<Rightarrow> Ref y)"
  using assms
proof (induction xs arbitrary: p)
  case (Cons y ys)
  have "get_next h (Ref y) = Some (Ref (hd (ys @ [head])))" using Cons.prems segment_first [of h y ys head] by (simp add: get_next_def)
  with Cons.IH [of y] Cons.prems show ?case by (subst OH_ListFind_loop.simps) auto
qed (simp add: OH_ListFind_loop.simps)

lemma OH_ListFind_ring:
  "ring h head xs \<Longrightarrow> OH_ListFind h (Ref head) (Some cmp) =
    Some (case find (\<lambda>y. cmp y = 0) xs of None \<Rightarrow> NULL | Some y \<Rightarrow> Ref y)"
  using find_loop [of h head xs head cmp] segment_first [of h head xs head]
  by (simp add: OH_ListFind_def get_next_def ring_def)


subsection \<open>Traversals\<close>

text \<open>The links a traversal follows.\<close>

definition follow :: "32 word \<Rightarrow> ListHeap \<Rightarrow> nat \<Rightarrow> ptr option" where
  "follow flags h = (if IS_REVERSE_ORDER flags then lh_prev h else lh_next h)"

fun chain :: "(nat \<Rightarrow> ptr option) \<Rightarrow> nat list \<Rightarrow> nat \<Rightarrow> bool" where
  "chain nx [] head = True"
| "chain nx (y # ys) head = (nx y = Some (Ref (hd (ys @ [head]))) \<and> chain nx ys head)"

lemma chain_cong: "\<forall>y \<in> set ys. nx' y = nx y \<Longrightarrow> chain nx' ys head = chain nx ys head"
  by (induction ys) auto

lemma chain_next: "segment h p xs q \<Longrightarrow> chain (lh_next h) xs q"
  by (induction xs arbitrary: p) (auto dest: segment_first)

lemma chain_append: "chain nx xs (hd (ys @ [q])) \<Longrightarrow> chain nx ys q \<Longrightarrow> chain nx (xs @ ys) q"
proof (induction xs)
  case (Cons a xs)
  then show ?case by (cases xs) auto
qed simp

lemma chain_prev: "segment h p xs q \<Longrightarrow> chain (lh_prev h) (rev xs) p"
proof (induction xs arbitrary: p)
  case (Cons y ys)
  then show ?case using chain_append [of "lh_prev h" "rev ys" "[y]" p] by (simp add: link_def)
qed simp

definition order :: "32 word \<Rightarrow> nat list \<Rightarrow> nat list" where
  "order flags xs = (if IS_REVERSE_ORDER flags then rev xs else xs)"

lemma ring_chain:
  assumes "ring h head xs"
  shows "chain (follow flags h) (order flags xs) head" "follow flags h head = Some (Ref (hd (order flags xs @ [head])))"
proof -
  have seg: "segment h head xs head" using assms by (simp add: ring_def)
  show "chain (follow flags h) (order flags xs) head"
    using chain_next [OF seg] chain_prev [OF seg] by (simp add: follow_def order_def)
  have "last (head # xs) = hd (rev xs @ [head])" by (cases xs rule: rev_cases) auto
  then show "follow flags h head = Some (Ref (hd (order flags xs @ [head])))"
    using segment_first [OF seg] segment_last [OF seg] by (simp add: follow_def order_def)
qed

text \<open>A procedure that changes only the links of the node it is called for, for instance by freeing it, does not disturb
  the traversal.\<close>

definition local_proc :: "'d traversal \<Rightarrow> (ListHeap \<Rightarrow> nat \<Rightarrow> ListHeap) \<Rightarrow> ('d \<Rightarrow> nat \<Rightarrow> 'd) \<Rightarrow> bool" where
  "local_proc proc g f = (\<forall>h d y. proc h d y = Some (g h y, f d y, 0) \<and>
     (\<forall>a. a \<noteq> y \<longrightarrow> lh_next (g h y) a = lh_next h a \<and> lh_prev (g h y) a = lh_prev h a))"

lemma local_procD:
  assumes "local_proc proc g f"
  shows "proc h d y = Some (g h y, f d y, 0)" "a \<noteq> y \<Longrightarrow> follow flags (g h y) a = follow flags h a"
  using assms by (simp_all add: local_proc_def follow_def)

lemma traversal_loop:
  assumes "local_proc proc g f" "chain (follow flags h) ys head" "distinct (head # ys)"
  shows "OH_ListTraversal_loop (Ref head) proc flags h d (Ref (hd (ys @ [head]))) = Some (foldl g h ys, foldl f d ys, 0)"
  using assms(2,3)
proof (induction ys arbitrary: h d)
  case (Cons y ys)
  have "\<forall>z \<in> set ys. follow flags (g h y) z = follow flags h z"
  proof
    fix z assume "z \<in> set ys"
    with Cons.prems(2) have "z \<noteq> y" by auto
    then show "follow flags (g h y) z = follow flags h z" by (rule local_procD(2) [OF assms(1)])
  qed
  then have "chain (follow flags (g h y)) ys head"
    using Cons.prems(1) chain_cong [of ys "follow flags (g h y)" "follow flags h" head] by simp
  from Cons.IH [OF this, of "f d y"] Cons.prems show ?case
    by (subst OH_ListTraversal_loop.simps) (auto simp: local_procD(1) [OF assms(1), of h d y] follow_def get_next_def get_prev_def)
qed (simp add: OH_ListTraversal_loop.simps)

lemma OH_ListTraversal_ring:
  assumes "local_proc proc g f" "ring h head xs"
  shows "OH_ListTraversal h (Ref head) d (Some proc) flags =
    Some (foldl g h (order flags xs), foldl f d (order flags xs), 0)"
proof -
  have "distinct (head # order flags xs)" using assms(2) by (simp add: ring_def order_def)
  from traversal_loop [OF assms(1) ring_chain(1) [OF assms(2)] this] ring_chain(2) [OF assms(2), of flags] show ?thesis
    by (auto simp: OH_ListTraversal_def follow_def get_next_def get_prev_def split: if_splits)
qed

lemma foldl_free:
  "lh_next (foldl free_node h xs) a = (if a \<in> set xs then None else lh_next h a)"
  "lh_prev (foldl free_node h xs) a = (if a \<in> set xs then None else lh_prev h a)"
  by (induction xs arbitrary: h) (auto simp: free_node_def)

lemma OH_ListRemoveAll_ring:
  assumes "ring h head xs" "destroy = None \<and> (\<forall>d x. f d x = d) \<or> destroy = Some (\<lambda>h d x. Some (free_node h x, f d x))"
  shows "\<exists>h'. OH_ListRemoveAll h (Ref head) d destroy = Some (h', foldl f d xs) \<and> ring h' head [] \<and>
    (\<forall>a. a \<noteq> head \<longrightarrow> lh_next h' a = (if a \<in> set xs then None else lh_next h a) \<and>
      lh_prev h' a = (if a \<in> set xs then None else lh_prev h a))"
proof -
  let ?h = "foldl free_node h xs"
  have "local_proc (listDestroyTraversal destroy) free_node f"
    using assms(2) by (auto simp: local_proc_def listDestroyTraversal_def free_node_def)
  from OH_ListTraversal_ring [OF this assms(1), of d 0]
  have t: "OH_ListTraversal h (Ref head) d (Some (listDestroyTraversal destroy)) 0 = Some (?h, foldl f d xs, 0)"
    by (simp add: order_def IS_REVERSE_ORDER_def)
  have "node_of ?h head" using ring_node [OF assms(1), of head] assms(1) by (auto simp: node_of_def foldl_free ring_def)
  then have "OH_ListInit ?h (Ref head) = Some (?h\<lparr>lh_next := (lh_next ?h)(head \<mapsto> Ref head), lh_prev := (lh_prev ?h)(head \<mapsto> Ref head)\<rparr>)"
    by (auto simp: OH_ListInit_def set_next_def set_prev_def node_of_def)
  with t show ?thesis by (auto simp: OH_ListRemoveAll_def foldl_free ring_def link_def)
qed


subsection \<open>Lists as sequences\<close>

text \<open>What the clients of a list rely on: nodes are appended at the end and taken out anywhere.\<close>

locale node_sequence =
  fixes rep :: "'h \<Rightarrow> nat \<Rightarrow> nat list \<Rightarrow> bool"
    and usable :: "'h \<Rightarrow> nat \<Rightarrow> nat \<Rightarrow> bool"
    and add :: "'h \<Rightarrow> nat \<Rightarrow> nat \<Rightarrow> 'h option"
    and remove :: "'h \<Rightarrow> nat \<Rightarrow> 'h option"
  assumes add: "rep h l xs \<Longrightarrow> usable h l x \<Longrightarrow> x \<notin> set xs \<Longrightarrow>
      \<exists>h'. add h l x = Some h' \<and> rep h' l (xs @ [x]) \<and> (\<forall>y. usable h' l y = usable h l y)"
    and remove: "rep h l (xs @ x # ys) \<Longrightarrow> \<exists>h'. remove h x = Some h' \<and> rep h' l (xs @ ys) \<and> (\<forall>y. usable h' l y = usable h l y)"
begin

fun add_all :: "'h \<Rightarrow> nat \<Rightarrow> nat list \<Rightarrow> 'h option" where
  "add_all h l [] = Some h"
| "add_all h l (x # xs) = do { h \<leftarrow> add h l x; add_all h l xs }"

fun remove_all :: "'h \<Rightarrow> nat list \<Rightarrow> 'h option" where
  "remove_all h [] = Some h"
| "remove_all h (x # xs) = do { h \<leftarrow> remove h x; remove_all h xs }"

lemma add_all_rep:
  "rep h l xs \<Longrightarrow> distinct (xs @ ys) \<Longrightarrow> \<forall>y \<in> set ys. usable h l y \<Longrightarrow> \<exists>h'. add_all h l ys = Some h' \<and> rep h' l (xs @ ys)"
proof (induction ys arbitrary: h xs)
  case (Cons y ys)
  from add [of h l xs y] Cons.prems obtain h1 where
    h1: "add h l y = Some h1" "rep h1 l (xs @ [y])" "\<forall>z. usable h1 l z = usable h l z" by auto
  with Cons.IH [of h1 "xs @ [y]"] Cons.prems show ?case by simp
qed simp

text \<open>Taking nodes out leaves the others in order, whatever the order in which they are taken.\<close>

lemma remove_all_rep:
  "rep h l xs \<Longrightarrow> distinct xs \<Longrightarrow> distinct ys \<Longrightarrow> set ys \<subseteq> set xs \<Longrightarrow>
    \<exists>h'. remove_all h ys = Some h' \<and> rep h' l (filter (\<lambda>x. x \<notin> set ys) xs)"
proof (induction ys arbitrary: h xs)
  case (Cons y ys)
  from Cons.prems(4) obtain as bs where xs: "xs = as @ y # bs" by (auto dest: split_list)
  from remove [of h l as y bs] Cons.prems(1) xs obtain h1 where
    h1: "remove h y = Some h1" "rep h1 l (as @ bs)" by auto
  have "filter (\<lambda>x. x \<notin> set ys) (as @ bs) = filter (\<lambda>x. x \<notin> set (y # ys)) xs"
  proof -
    have "filter (\<lambda>x. x \<notin> set ys) zs = filter (\<lambda>x. x \<notin> set (y # ys)) zs" if "y \<notin> set zs" for zs
      using that by (intro filter_cong) auto
    from this [of "as @ bs"] Cons.prems(2) xs show ?thesis by simp
  qed
  with h1 Cons.IH [of h1 "as @ bs"] Cons.prems(2-4) xs show ?case by auto
qed simp

end

definition list_usable :: "ListHeap \<Rightarrow> nat \<Rightarrow> nat \<Rightarrow> bool" where
  "list_usable h head x = (node_of h x \<and> x \<noteq> head)"

lemma OH_ListAddTail_nodes:
  "OH_ListAddTail h (Ref head) (Ref x) = Some h' \<Longrightarrow> node_of h' y = node_of h y"
  by (auto simp: OH_ListAddTail_def set_next_def set_prev_def get_prev_def node_of_def split: ptr.splits if_splits bind_splits)

interpretation nodes: node_sequence ring list_usable "\<lambda>h l x. OH_ListAddTail h (Ref l) (Ref x)" "\<lambda>h x. OH_ListRemove h (Ref x)"
proof
  fix h l xs x assume "ring h l xs" "list_usable h l x" "x \<notin> set xs"
  with OH_ListAddTail_ring [of h l xs x] OH_ListAddTail_nodes [of h l x]
  show "\<exists>h'. OH_ListAddTail h (Ref l) (Ref x) = Some h' \<and> ring h' l (xs @ [x]) \<and> (\<forall>y. list_usable h' l y = list_usable h l y)"
    by (auto simp: list_usable_def)
next
  fix h l xs x ys assume "ring h l (xs @ x # ys)"
  then show "\<exists>h'. OH_ListRemove h (Ref x) = Some h' \<and> ring h' l (xs @ ys) \<and> (\<forall>y. list_usable h' l y = list_usable h l y)"
    using OH_ListRemove_ring [of h l xs x ys] by (auto simp: list_usable_def)
qed


subsection \<open>The properties\<close>

text \<open>C20: On the sequence of nodes behind a list head, \<^verbatim>\<open>OH_ListAddTail\<close> appends, \<^verbatim>\<open>OH_ListAddWithOrder\<close> inserts before the
  first node that compares greater, \<^verbatim>\<open>OH_ListRemove\<close> takes out the node it is given, \<^verbatim>\<open>OH_ListFind\<close> and \<^verbatim>\<open>OH_ListGetCnt\<close> find
  and count; all of them return without touching a node that is not there.\<close>

theorem list_operations:
  assumes "ring h head xs" "x \<notin> set (head # xs)" "node_of h x"
  shows "(\<exists>h'. OH_ListAddTail h (Ref head) (Ref x) = Some h' \<and> ring h' head (xs @ [x])) \<and>
    (\<exists>h'. OH_ListAddWithOrder h (Ref head) (Ref x) (Some cmp) = Some h' \<and>
      ring h' head (takeWhile (\<lambda>y. cmp y x \<le> 0) xs @ x # dropWhile (\<lambda>y. cmp y x \<le> 0) xs)) \<and>
    (\<forall>as y bs. xs = as @ y # bs \<longrightarrow> (\<exists>h'. OH_ListRemove h (Ref y) = Some h' \<and> ring h' head (as @ bs))) \<and>
    OH_ListFind h (Ref head) (Some p) = Some (case find (\<lambda>y. p y = 0) xs of None \<Rightarrow> NULL | Some y \<Rightarrow> Ref y) \<and>
    OH_ListGetCnt h (Ref head) = Some (length xs)"
  using OH_ListAddTail_ring [OF assms] OH_ListAddWithOrder_ring [OF assms] OH_ListRemove_ring [of h head]
    OH_ListFind_ring [OF assms(1)] OH_ListGetCnt_ring [OF assms(1)] assms(1)
  by blast

text \<open>A heap with the list of the nodes 2 and 3 behind the head 1, and a node 4.\<close>

definition demo_heap :: ListHeap where
  "demo_heap = \<lparr>lh_next = [1 \<mapsto> Ref 2, 2 \<mapsto> Ref 3, 3 \<mapsto> Ref 1, 4 \<mapsto> NULL],
     lh_prev = [1 \<mapsto> Ref 3, 2 \<mapsto> Ref 1, 3 \<mapsto> Ref 2, 4 \<mapsto> NULL]\<rparr>"

lemma demo_ring: "ring demo_heap 1 [2, 3]" "node_of demo_heap 4"
  by (simp_all add: demo_heap_def ring_def link_def node_of_def)

theorem list_operations_witness:
  "ring demo_heap 1 [2, 3] \<and>
   (\<exists>h'. OH_ListAddWithOrder demo_heap (Ref 1) (Ref 4) (Some (\<lambda>y x. if y = 3 then 1 else 0)) = Some h' \<and> ring h' 1 [2, 4, 3]) \<and>
   (\<exists>h'. OH_ListRemove demo_heap (Ref 2) = Some h' \<and> ring h' 1 [3]) \<and> OH_ListGetCnt demo_heap (Ref 1) = Some 2"
proof -
  note l = list_operations [OF demo_ring(1) _ demo_ring(2), of "\<lambda>y x. if y = 3 then 1 else 0" "\<lambda>x. 0"]
  from l have "\<forall>as y bs. [2, 3] = as @ y # bs \<longrightarrow> (\<exists>h'. OH_ListRemove demo_heap (Ref y) = Some h' \<and> ring h' 1 (as @ bs))" by simp
  then have "\<exists>h'. OH_ListRemove demo_heap (Ref 2) = Some h' \<and> ring h' 1 ([] @ [3])" by fastforce
  with l demo_ring show ?thesis by simp
qed

text \<open>C21: \<^verbatim>\<open>OH_ListRemoveAll\<close> destroys every node of the list exactly once and in order, reads no node after it was freed,
  leaves the list empty and no other node changed.\<close>

theorem OH_ListRemoveAll_frees:
  assumes "ring h head xs"
  shows "\<exists>h'. OH_ListRemoveAll h (Ref head) destroyed (Some (\<lambda>h d x. Some (free_node h x, d @ [x]))) = Some (h', destroyed @ xs) \<and>
    ring h' head [] \<and> (\<forall>a. node_of h' a = (node_of h a \<and> a \<notin> set xs))"
proof -
  have "foldl (\<lambda>d x. d @ [x]) destroyed xs = destroyed @ xs" by (induction xs arbitrary: destroyed) auto
  moreover from OH_ListRemoveAll_ring [OF assms, of "Some (\<lambda>h d x. Some (free_node h x, d @ [x]))" "\<lambda>d x. d @ [x]" destroyed]
  obtain h' where h': "OH_ListRemoveAll h (Ref head) destroyed (Some (\<lambda>h d x. Some (free_node h x, d @ [x]))) =
      Some (h', foldl (\<lambda>d x. d @ [x]) destroyed xs)" "ring h' head []"
    "\<forall>a. a \<noteq> head \<longrightarrow> lh_next h' a = (if a \<in> set xs then None else lh_next h a) \<and>
      lh_prev h' a = (if a \<in> set xs then None else lh_prev h a)" by blast
  moreover have "node_of h' a = (node_of h a \<and> a \<notin> set xs)" for a
    using h'(2,3) ring_node [OF assms, of head] ring_node [OF h'(2), of head] assms
    by (cases "a = head") (auto simp: node_of_def ring_def)
  ultimately show ?thesis by auto
qed

theorem OH_ListRemoveAll_frees_witness:
  "\<exists>h'. OH_ListRemoveAll demo_heap (Ref 1) [] (Some (\<lambda>h d x. Some (free_node h x, d @ [x]))) = Some (h', [2, 3]) \<and>
    ring h' 1 [] \<and> (\<forall>a. node_of h' a = (node_of demo_heap a \<and> a \<notin> set [2, 3]))"
  using OH_ListRemoveAll_frees [OF demo_ring(1), of "[]"] by simp

end
