(* ===== verification/Trigger_Manager.thy ===== *)
theory Trigger_Manager
  imports Trigger_Checker Hash_Map Linked_List
begin

text \<open>
  The triggers of init (\<^verbatim>\<open>trigger_manager.c\<close>): jobs with commands, and the watchers and waiters of parameters. The nodes
  live in a store, each kind of trigger has its list, jobs are found by name through a hash map, and triggers that wait
  for execution are in a ring buffer. The lists are the sequences that \<^verbatim>\<open>list_operations\<close> shows for \<^verbatim>\<open>list.c\<close>; memory
  allocation succeeds. Reading a node that was freed is \<open>None\<close>.
\<close>

subsection \<open>Data\<close>

abbreviation (input) TRIGGER_BOOT :: nat where "TRIGGER_BOOT \<equiv> 0"
abbreviation (input) TRIGGER_PARAM :: nat where "TRIGGER_PARAM \<equiv> 1"
abbreviation (input) TRIGGER_UNKNOW :: nat where "TRIGGER_UNKNOW \<equiv> 2"
abbreviation (input) TRIGGER_PARAM_WAIT :: nat where "TRIGGER_PARAM_WAIT \<equiv> 3"
abbreviation (input) TRIGGER_PARAM_WATCH :: nat where "TRIGGER_PARAM_WATCH \<equiv> 4"
abbreviation (input) TRIGGER_MAX :: nat where "TRIGGER_MAX \<equiv> 5"
abbreviation (input) TRIGGER_FLAGS_QUEUE :: "24 word" where "TRIGGER_FLAGS_QUEUE \<equiv> 1"
abbreviation (input) TRIGGER_FLAGS_RELATED :: "24 word" where "TRIGGER_FLAGS_RELATED \<equiv> 2"
abbreviation (input) TRIGGER_FLAGS_ONCE :: "24 word" where "TRIGGER_FLAGS_ONCE \<equiv> 4"
abbreviation (input) TRIGGER_FLAGS_SUBTRIGGER :: "24 word" where "TRIGGER_FLAGS_SUBTRIGGER \<equiv> 8"
abbreviation (input) TRIGGER_EXECUTE_QUEUE :: nat where "TRIGGER_EXECUTE_QUEUE \<equiv> 64"
abbreviation (input) MAX_CONDITION_NUMBER :: nat where "MAX_CONDITION_NUMBER \<equiv> 64"
abbreviation (input) MAX_TRIGGER_NAME_LEN :: nat where "MAX_TRIGGER_NAME_LEN \<equiv> 128"
abbreviation (input) INIT_CONTEXT_MAIN :: nat where "INIT_CONTEXT_MAIN \<equiv> 1"

record CommandNode =
  cn_cfgContext :: nat
  cn_cmdKeyIndex :: nat
  cn_content :: string

text \<open>The common part of a trigger (\<^verbatim>\<open>NODE_BASE\<close>, its flags a field of 24 bits), the name and the commands of a job, and the
  fields of a watcher or waiter. The commands are linked from \<^verbatim>\<open>firstCmd\<close> to \<^verbatim>\<open>lastCmd\<close>; \<^verbatim>\<open>tn_item\<close> tells whether the links of
  \<^verbatim>\<open>item\<close> were set.\<close>

record TriggerNode =
  tn_flags :: "24 word"
  tn_type :: nat
  tn_condition :: "string option"
  tn_name :: string
  tn_cmds :: "CommandNode list"
  tn_item :: bool
  tn_watchId :: nat
  tn_timeout :: nat
  tn_waitId :: nat

type_synonym nodes = "nat \<Rightarrow> TriggerNode option"

definition TRIGGER_TEST_FLAG :: "TriggerNode \<Rightarrow> 24 word \<Rightarrow> bool" where
  "TRIGGER_TEST_FLAG trigger flag = (tn_flags trigger AND flag = flag)"

definition TRIGGER_IN_QUEUE :: "TriggerNode \<Rightarrow> bool" where
  "TRIGGER_IN_QUEUE trigger = TRIGGER_TEST_FLAG trigger TRIGGER_FLAGS_QUEUE"

definition TRIGGER_SET_FLAG :: "TriggerNode \<Rightarrow> 24 word \<Rightarrow> TriggerNode" where
  "TRIGGER_SET_FLAG trigger flag = trigger\<lparr>tn_flags := tn_flags trigger OR flag\<rparr>"

definition TRIGGER_CLEAR_FLAG :: "TriggerNode \<Rightarrow> 24 word \<Rightarrow> TriggerNode" where
  "TRIGGER_CLEAR_FLAG trigger flag = trigger\<lparr>tn_flags := tn_flags trigger AND NOT flag\<rparr>"

record TriggerExecuteQueue =
  eq_queueCount :: nat
  eq_startIndex :: nat
  eq_endIndex :: nat
  eq_executeQueue :: "ptr list"

record TriggerHeader =
  th_triggerList :: "nat list"
  th_triggerCount :: "32 word"
  th_cmdNodeCount :: "32 word"

text \<open>\<^verbatim>\<open>tw_watchers\<close> are the lists of the clients that own watchers and waiters, \<^verbatim>\<open>tw_next\<close> is the next address that
  \<^verbatim>\<open>calloc\<close> returns.\<close>

record TriggerWorkSpace =
  tw_executeQueue :: TriggerExecuteQueue
  tw_triggerHead :: "TriggerHeader list"
  tw_hashMap :: "(nodes, string) HashTab option"
  tw_hashHeap :: HashHeap
  tw_nodes :: nodes
  tw_watchers :: "nat \<Rightarrow> nat list"
  tw_next :: nat
  tw_tableId :: nat

definition node_at :: "TriggerWorkSpace \<Rightarrow> nat \<Rightarrow> TriggerNode exec" where
  "node_at ws n = tw_nodes ws n"

definition put_node :: "TriggerWorkSpace \<Rightarrow> nat \<Rightarrow> TriggerNode \<Rightarrow> TriggerWorkSpace" where
  "put_node ws n t = ws\<lparr>tw_nodes := (tw_nodes ws)(n \<mapsto> t)\<rparr>"

definition free_trigger :: "TriggerWorkSpace \<Rightarrow> nat \<Rightarrow> TriggerWorkSpace" where
  "free_trigger ws n = ws\<lparr>tw_nodes := (tw_nodes ws)(n := None), tw_hashHeap := (tw_hashHeap ws)(n := None)\<rparr>"

definition upd_head :: "TriggerWorkSpace \<Rightarrow> nat \<Rightarrow> (TriggerHeader \<Rightarrow> TriggerHeader) \<Rightarrow> TriggerWorkSpace" where
  "upd_head ws type f = ws\<lparr>tw_triggerHead := (tw_triggerHead ws)[type := f (tw_triggerHead ws ! type)]\<rparr>"

definition GetTriggerHeader :: "TriggerWorkSpace \<Rightarrow> int \<Rightarrow> TriggerHeader option" where
  "GetTriggerHeader ws type = (if type \<ge> int TRIGGER_MAX \<or> type < 0 then None else Some (tw_triggerHead ws ! nat type))"

subsection \<open>The hash functions of jobs\<close>

fun strcmp :: "string \<Rightarrow> string \<Rightarrow> int" where
  "strcmp [] [] = 0"
| "strcmp [] (y # ys) = - 1"
| "strcmp (x # xs) [] = 1"
| "strcmp (x # xs) (y # ys) = (if x = y then strcmp xs ys else if ascii x < ascii y then - 1 else 1)"

definition job_name :: "nodes \<Rightarrow> nat \<Rightarrow> string" where
  "job_name mem n = (case mem n of None \<Rightarrow> [] | Some t \<Rightarrow> tn_name t)"

definition JobNodeNodeCompare :: "nodes \<Rightarrow> nat \<Rightarrow> nat \<Rightarrow> int" where
  "JobNodeNodeCompare mem node1 node2 = strcmp (job_name mem node1) (job_name mem node2)"

definition JobNodeKeyCompare :: "nodes \<Rightarrow> nat \<Rightarrow> string \<Rightarrow> int" where
  "JobNodeKeyCompare mem node1 key = strcmp (job_name mem node1) key"

definition JobNodeGetKeyHasCode :: "string \<Rightarrow> int" where
  "JobNodeGetKeyHasCode key = foldl (\<lambda>code c. code + (int (ascii c) - 65)) 0 key"

definition JobNodeGetNodeHasCode :: "nodes \<Rightarrow> nat \<Rightarrow> int" where
  "JobNodeGetNodeHasCode mem node = foldl (\<lambda>code c. code + (int (ascii c) - 65)) 0 (job_name mem node)"

definition job_info :: "(nodes, string) HashInfo" where
  "job_info = \<lparr>hi_nodeCompare = JobNodeNodeCompare, hi_keyCompare = JobNodeKeyCompare, hi_nodeHash = JobNodeGetNodeHasCode,
     hi_keyHash = JobNodeGetKeyHasCode, hi_maxBucket = 64\<rparr>"

definition TriggerHeadSetDefault :: TriggerHeader where
  "TriggerHeadSetDefault = \<lparr>th_triggerList = [], th_triggerCount = 0, th_cmdNodeCount = 0\<rparr>"

text \<open>The functions that a header holds depend on its type only; they are dispatched on the type below.\<close>

definition InitTriggerHead :: "TriggerWorkSpace \<Rightarrow> TriggerWorkSpace" where
  "InitTriggerHead ws =
     (case OH_HashMapCreate (tw_tableId ws) (Some job_info) of (tableId, hashMap, ret) \<Rightarrow>
        if ret \<noteq> 0 then ws
        else ws\<lparr>tw_tableId := tableId, tw_hashMap := hashMap, tw_triggerHead := replicate TRIGGER_MAX TriggerHeadSetDefault\<rparr>)"

subsection \<open>Commands\<close>

definition AddCommand :: "TriggerNode \<Rightarrow> nat \<Rightarrow> string option \<Rightarrow> nat option \<Rightarrow> TriggerNode \<times> int" where
  "AddCommand trigger cmdKeyIndex content cfgContext =
     (trigger\<lparr>tn_cmds := tn_cmds trigger @
        [\<lparr>cn_cfgContext = (case cfgContext of None \<Rightarrow> INIT_CONTEXT_MAIN | Some c \<Rightarrow> c), cn_cmdKeyIndex = cmdKeyIndex,
          cn_content = (case content of None \<Rightarrow> [] | Some c \<Rightarrow> c)\<rparr>]\<rparr>, 0)"

text \<open>A command is known by its position.\<close>

definition GetNextCmdNode :: "TriggerNode \<Rightarrow> nat option \<Rightarrow> nat option" where
  "GetNextCmdNode trigger cmd =
     (let i = (case cmd of None \<Rightarrow> 0 | Some i \<Rightarrow> i + 1) in if i < length (tn_cmds trigger) then Some i else None)"

subsection \<open>Adding triggers\<close>

abbreviation (input) trigger_cache_size :: nat where "trigger_cache_size \<equiv> 96 + 4096"

definition CopyCondition :: "TriggerNode \<Rightarrow> string option \<Rightarrow> (TriggerNode \<times> int) exec" where
  "CopyCondition node condition =
     (case condition of
        None \<Rightarrow> Some (node, 0)
      | Some c \<Rightarrow>
          if c = [] then Some (node, 0)
          else do {
            (cond, ret) \<leftarrow> ConvertInfixToPrefix c trigger_cache_size;
            if ret \<noteq> 0 then Some (node, - 1) else Some (node\<lparr>tn_condition := Some cond\<rparr>, 0)
          })"

text \<open>A node as \<^verbatim>\<open>calloc\<close> returns it.\<close>

definition zero_node :: TriggerNode where
  "zero_node = \<lparr>tn_flags = 0, tn_type = 0, tn_condition = None, tn_name = [], tn_cmds = [], tn_item = False,
     tn_watchId = 0, tn_timeout = 0, tn_waitId = 0\<rparr>"

text \<open>The workspace and the new node; the address is used up also when the node is freed again.\<close>

definition AddTriggerNode :: "TriggerWorkSpace \<Rightarrow> nat \<Rightarrow> string option \<Rightarrow> (TriggerWorkSpace \<times> ptr) exec" where
  "AddTriggerNode ws type condition =
     (let n = tw_next ws; ws = ws\<lparr>tw_next := n + 1\<rparr> in do {
        (node, ret) \<leftarrow> CopyCondition zero_node condition;
        if ret \<noteq> 0 then Some (ws, NULL)
        else
          (let node = node\<lparr>tn_type := type, tn_flags := 0\<rparr>;
               ws = put_node ws n node;
               ws = ws\<lparr>tw_hashHeap := (tw_hashHeap ws)(n \<mapsto> NULL)\<rparr>;
               ws = upd_head ws type (\<lambda>h. h\<lparr>th_triggerList := th_triggerList h @ [n], th_triggerCount := th_triggerCount h + 1\<rparr>)
           in Some (ws, Ref n))
      })"

definition AddJobNode :: "TriggerWorkSpace \<Rightarrow> nat \<Rightarrow> string \<Rightarrow> (TriggerWorkSpace \<times> int) exec" where
  "AddJobNode ws n name = do {
     node \<leftarrow> node_at ws n;
     let ws = put_node ws n (node\<lparr>tn_name := name, tn_cmds := []\<rparr>);
     (h, tab, ret) \<leftarrow> OH_HashMapAdd (tw_nodes ws) (tw_hashHeap ws) (tw_hashMap ws) (Ref n);
     Some (ws\<lparr>tw_hashHeap := h, tw_hashMap := tab\<rparr>, if ret = 0 then 0 else - 1)
   }"

subsection \<open>The queue of triggers to execute\<close>

definition ExecuteQueuePush :: "TriggerExecuteQueue \<Rightarrow> ptr \<Rightarrow> TriggerExecuteQueue exec" where
  "ExecuteQueuePush q trigger =
     (let index = eq_endIndex q mod eq_queueCount q in
      if index < length (eq_executeQueue q)
      then Some (q\<lparr>eq_endIndex := u32 (eq_endIndex q + 1), eq_executeQueue := (eq_executeQueue q)[index := trigger]\<rparr>)
      else None)"

function ExecuteQueuePop :: "TriggerExecuteQueue \<Rightarrow> (TriggerExecuteQueue \<times> ptr) exec" where
  "ExecuteQueuePop q =
     (if eq_endIndex q \<le> eq_startIndex q then Some (q, NULL)
      else
        (let currIndex = eq_startIndex q mod eq_queueCount q in
         if currIndex < length (eq_executeQueue q) then
           (let trigger = eq_executeQueue q ! currIndex;
                q = q\<lparr>eq_executeQueue := (eq_executeQueue q)[currIndex := NULL], eq_startIndex := eq_startIndex q + 1\<rparr>
            in if trigger = NULL then ExecuteQueuePop q else Some (q, trigger))
         else None))"
  by pat_completeness auto
termination
  by (relation "measure (\<lambda>q. eq_endIndex q - eq_startIndex q)") (auto simp: Let_def)

declare ExecuteQueuePop.simps [simp del]

text \<open>The loop of \<^verbatim>\<open>DelJobTrigger_\<close> that takes a trigger out of the queue; its index is not reduced to the size of the
  queue.\<close>

function clear_queued :: "nat \<Rightarrow> nat \<Rightarrow> ptr list \<Rightarrow> ptr \<Rightarrow> ptr list exec" where
  "clear_queued i endIndex queue trigger =
     (if i < endIndex then
        (if i < length queue then
           (if queue ! i = trigger then Some (queue[i := NULL]) else clear_queued (i + 1) endIndex queue trigger)
         else None)
      else Some queue)"
  by pat_completeness auto
termination
  by (relation "measure (\<lambda>(i, e, _). e - i)") auto

declare clear_queued.simps [simp del]

subsection \<open>Deleting triggers\<close>

text \<open>\<^verbatim>\<open>OH_ListRemove\<close> on the list of a header.\<close>

definition unlist :: "TriggerWorkSpace \<Rightarrow> nat \<Rightarrow> nat \<Rightarrow> TriggerWorkSpace" where
  "unlist ws type n = upd_head ws type (\<lambda>h. h\<lparr>th_triggerList := remove1 n (th_triggerList h), th_triggerCount := th_triggerCount h - 1\<rparr>)"

definition DelJobTrigger :: "TriggerWorkSpace \<Rightarrow> nat \<Rightarrow> TriggerWorkSpace exec" where
  "DelJobTrigger ws n = do {
     node \<leftarrow> node_at ws n;
     case GetTriggerHeader ws (int (tn_type node)) of
       None \<Rightarrow> Some ws
     | Some _ \<Rightarrow>
        (let ws = upd_head ws (tn_type node) (\<lambda>h. h\<lparr>th_cmdNodeCount := th_cmdNodeCount h - of_nat (length (tn_cmds node))\<rparr>);
             ws = put_node ws n (node\<lparr>tn_condition := None, tn_cmds := []\<rparr>);
             ws = unlist ws (tn_type node) n
         in do {
           (h, tab) \<leftarrow> OH_HashMapRemove (tw_nodes ws) (tw_hashHeap ws) (tw_hashMap ws) (tn_name node);
           let ws = ws\<lparr>tw_hashHeap := h, tw_hashMap := tab\<rparr>;
           if \<not> TRIGGER_IN_QUEUE node then Some (free_trigger ws n)
           else do {
             let q = tw_executeQueue ws;
             queue \<leftarrow> clear_queued (eq_startIndex q) (eq_endIndex q) (eq_executeQueue q) (Ref n);
             Some (free_trigger (ws\<lparr>tw_executeQueue := q\<lparr>eq_executeQueue := queue\<rparr>\<rparr>) n)
           }
         })
   }"

text \<open>The links of an \<^verbatim>\<open>item\<close> that was never added are zero; removing it follows them.\<close>

definition remove_item :: "TriggerWorkSpace \<Rightarrow> nat \<Rightarrow> TriggerWorkSpace exec" where
  "remove_item ws n = do {
     node \<leftarrow> node_at ws n;
     if tn_item node then Some (ws\<lparr>tw_watchers := \<lambda>w. remove1 n (tw_watchers ws w)\<rparr>) else None
   }"

definition DelWatchTrigger_node :: "TriggerWorkSpace \<Rightarrow> nat \<Rightarrow> TriggerWorkSpace exec" where
  "DelWatchTrigger_node ws n = do {
     node \<leftarrow> node_at ws n;
     case GetTriggerHeader ws (int (tn_type node)) of
       None \<Rightarrow> Some ws
     | Some _ \<Rightarrow> do {
         let ws = unlist ws (tn_type node) n;
         ws \<leftarrow> (if tn_type node = TRIGGER_PARAM_WAIT \<or> tn_type node = TRIGGER_PARAM_WATCH then remove_item ws n else Some ws);
         Some (free_trigger ws n)
       }
   }"

text \<open>The header of a waiter or watcher has \<^verbatim>\<open>DelWatchTrigger_\<close>, the others \<^verbatim>\<open>DelJobTrigger_\<close>.\<close>

definition delTrigger :: "nat \<Rightarrow> TriggerWorkSpace \<Rightarrow> nat \<Rightarrow> TriggerWorkSpace exec" where
  "delTrigger type =
     (if type = TRIGGER_PARAM_WAIT \<or> type = TRIGGER_PARAM_WATCH then DelWatchTrigger_node else DelJobTrigger)"

definition FreeTrigger :: "TriggerWorkSpace \<Rightarrow> nat \<Rightarrow> TriggerWorkSpace exec" where
  "FreeTrigger ws n = do {
     node \<leftarrow> node_at ws n;
     case GetTriggerHeader ws (int (tn_type node)) of
       None \<Rightarrow> Some ws
     | Some _ \<Rightarrow> delTrigger (tn_type node) ws n
   }"

text \<open>The node behind another in a list; \<open>None\<close> for the end of the list.\<close>

fun successor :: "nat list \<Rightarrow> nat \<Rightarrow> nat option" where
  "successor (x # y # zs) n = (if x = n then Some y else successor (y # zs) n)"
| "successor _ n = None"

definition GetNextTrigger :: "TriggerWorkSpace \<Rightarrow> nat \<Rightarrow> ptr \<Rightarrow> ptr exec" where
  "GetNextTrigger ws type cur =
     (let xs = th_triggerList (tw_triggerHead ws ! type) in
      case cur of
        NULL \<Rightarrow> Some (case xs of [] \<Rightarrow> NULL | x # _ \<Rightarrow> Ref x)
      | Ref n \<Rightarrow> if n \<in> set xs then Some (case successor xs n of None \<Rightarrow> NULL | Some m \<Rightarrow> Ref m) else None)"

partial_function (option) ClearTrigger_loop :: "TriggerWorkSpace \<Rightarrow> nat \<Rightarrow> ptr \<Rightarrow> TriggerWorkSpace exec" where
  "ClearTrigger_loop ws type trigger =
     (case trigger of
        NULL \<Rightarrow> Some ws
      | Ref n \<Rightarrow> do {
          next_trigger \<leftarrow> GetNextTrigger ws type trigger;
          ws \<leftarrow> FreeTrigger ws n;
          ClearTrigger_loop ws type next_trigger
        })"

definition ClearTrigger :: "TriggerWorkSpace \<Rightarrow> int \<Rightarrow> TriggerWorkSpace exec" where
  "ClearTrigger ws type =
     (case GetTriggerHeader ws type of
        None \<Rightarrow> Some ws
      | Some _ \<Rightarrow> do {
          trigger \<leftarrow> GetNextTrigger ws (nat type) NULL;
          ws \<leftarrow> ClearTrigger_loop ws (nat type) trigger;
          Some (upd_head ws (nat type) (\<lambda>h. h\<lparr>th_triggerList := []\<rparr>))
        })"

subsection \<open>Jobs, waiters and watchers\<close>

definition AddJobTrigger :: "TriggerWorkSpace \<Rightarrow> nat \<Rightarrow> string option \<Rightarrow> string \<Rightarrow> (TriggerWorkSpace \<times> ptr) exec" where
  "AddJobTrigger ws type condition name =
     (if \<not> type \<le> TRIGGER_UNKNOW then Some (ws, NULL)
      else do {
        (ws, p) \<leftarrow> AddTriggerNode ws type condition;
        case p of
          NULL \<Rightarrow> Some (ws, NULL)
        | Ref n \<Rightarrow> do {
            (ws, ret) \<leftarrow> AddJobNode ws n name;
            if ret \<noteq> 0 then do { ws \<leftarrow> FreeTrigger ws n; Some (ws, NULL) }
            else if type = TRIGGER_BOOT then do {
              node \<leftarrow> node_at ws n;
              let node = TRIGGER_SET_FLAG node TRIGGER_FLAGS_ONCE;
              let node = (if \<not> strncmp_eq ''boot-service:'' name 13 then TRIGGER_SET_FLAG node TRIGGER_FLAGS_SUBTRIGGER else node);
              Some (put_node ws n node, Ref n)
            } else Some (ws, Ref n)
          }
      })"

definition GetTriggerByName :: "TriggerWorkSpace \<Rightarrow> string \<Rightarrow> ptr exec" where
  "GetTriggerByName ws triggerName = OH_HashMapGet (tw_nodes ws) (tw_hashHeap ws) (tw_hashMap ws) triggerName"

text \<open>The header of a job type has \<^verbatim>\<open>AddJobTrigger_\<close>.\<close>

definition UpdateJobTrigger :: "TriggerWorkSpace \<Rightarrow> int \<Rightarrow> string option \<Rightarrow> string \<Rightarrow> (TriggerWorkSpace \<times> ptr) exec" where
  "UpdateJobTrigger ws type condition name =
     (if \<not> type \<le> int TRIGGER_UNKNOW then Some (ws, NULL)
      else case GetTriggerHeader ws type of
        None \<Rightarrow> Some (ws, NULL)
      | Some _ \<Rightarrow> do {
          p \<leftarrow> GetTriggerByName ws name;
          case p of
            NULL \<Rightarrow> AddJobTrigger ws (nat type) condition name
          | Ref n \<Rightarrow> do {
              node \<leftarrow> node_at ws n;
              if tn_condition node = None \<and> condition \<noteq> None then do {
                (node, ret) \<leftarrow> CopyCondition node condition;
                let ws = put_node ws n node;
                if ret \<noteq> 0 then do { ws \<leftarrow> FreeTrigger ws n; Some (ws, NULL) } else Some (ws, Ref n)
              } else Some (ws, Ref n)
            }
        })"

text \<open>What a client sends with a waiter or watcher; \<^verbatim>\<open>ei_watcher\<close> is the user data of its connection.\<close>

record TriggerExtInfo =
  ei_type :: nat
  ei_watcher :: "nat option"
  ei_watchId :: nat
  ei_timeout :: nat
  ei_waitId :: nat

definition AddWatchNode :: "TriggerWorkSpace \<Rightarrow> nat \<Rightarrow> TriggerExtInfo \<Rightarrow> (TriggerWorkSpace \<times> int) exec" where
  "AddWatchNode ws n extInfo =
     (case ei_watcher extInfo of
        None \<Rightarrow> Some (ws, - 1)
      | Some w \<Rightarrow> do {
          node \<leftarrow> node_at ws n;
          let node = (if ei_type extInfo = TRIGGER_PARAM_WAIT
                      then node\<lparr>tn_item := True, tn_timeout := ei_timeout extInfo, tn_waitId := ei_waitId extInfo\<rparr>
                      else node\<lparr>tn_item := True, tn_watchId := ei_watchId extInfo\<rparr>);
          let ws = put_node ws n node;
          Some (ws\<lparr>tw_watchers := (tw_watchers ws)(w := tw_watchers ws w @ [n])\<rparr>, 0)
        })"

definition AddWatchTrigger :: "TriggerWorkSpace \<Rightarrow> string option \<Rightarrow> TriggerExtInfo \<Rightarrow> (TriggerWorkSpace \<times> ptr) exec" where
  "AddWatchTrigger ws condition extInfo =
     (if ei_type extInfo \<noteq> TRIGGER_PARAM_WATCH \<and> ei_type extInfo \<noteq> TRIGGER_PARAM_WAIT then Some (ws, NULL)
      else do {
        (ws, p) \<leftarrow> AddTriggerNode ws (ei_type extInfo) condition;
        case p of
          NULL \<Rightarrow> Some (ws, NULL)
        | Ref n \<Rightarrow> do {
            (ws, ret) \<leftarrow> AddWatchNode ws n extInfo;
            if ret \<noteq> 0 then do { ws \<leftarrow> FreeTrigger ws n; Some (ws, NULL) }
            else if ei_type extInfo = TRIGGER_PARAM_WAIT then do {
              node \<leftarrow> node_at ws n;
              Some (put_node ws n (TRIGGER_SET_FLAG node TRIGGER_FLAGS_ONCE), Ref n)
            } else Some (ws, Ref n)
          }
      })"

text \<open>The difference of two unsigned numbers as \<^verbatim>\<open>int32_t\<close> is zero when they are equal.\<close>

definition CompareData :: "TriggerNode \<Rightarrow> nat \<Rightarrow> int" where
  "CompareData trigger data =
     (if tn_type trigger = TRIGGER_PARAM_WAIT then sint (of_nat (tn_waitId trigger) - of_nat data :: 32 word)
      else if tn_type trigger = TRIGGER_PARAM_WATCH then sint (of_nat (tn_watchId trigger) - of_nat data :: 32 word)
      else - 1)"

partial_function (option) DelWatchTrigger_loop :: "TriggerWorkSpace \<Rightarrow> nat \<Rightarrow> nat \<Rightarrow> ptr \<Rightarrow> TriggerWorkSpace exec" where
  "DelWatchTrigger_loop ws type data trigger =
     (case trigger of
        NULL \<Rightarrow> Some ws
      | Ref n \<Rightarrow> do {
          node \<leftarrow> node_at ws n;
          if CompareData node data = 0 then delTrigger type ws n
          else do { trigger \<leftarrow> GetNextTrigger ws type trigger; DelWatchTrigger_loop ws type data trigger }
        })"

definition DelWatchTrigger :: "TriggerWorkSpace \<Rightarrow> int \<Rightarrow> nat \<Rightarrow> TriggerWorkSpace exec" where
  "DelWatchTrigger ws type data =
     (case GetTriggerHeader ws type of
        None \<Rightarrow> Some ws
      | Some _ \<Rightarrow> do { trigger \<leftarrow> GetNextTrigger ws (nat type) NULL; DelWatchTrigger_loop ws (nat type) data trigger })"

fun ClearWatchTrigger_loop :: "TriggerWorkSpace \<Rightarrow> int \<Rightarrow> nat list \<Rightarrow> TriggerWorkSpace exec" where
  "ClearWatchTrigger_loop ws type [] = Some ws"
| "ClearWatchTrigger_loop ws type (n # rest) =
     (if type \<noteq> int TRIGGER_PARAM_WAIT \<and> type \<noteq> int TRIGGER_PARAM_WATCH then Some ws
      else do {
        node \<leftarrow> node_at ws n;
        if type \<noteq> int (tn_type node) then Some ws
        else do { ws \<leftarrow> FreeTrigger ws n; ClearWatchTrigger_loop ws type rest }
      })"

text \<open>The link to the next item is read before the trigger is freed; freeing a trigger unlinks its own item only.\<close>

definition ClearWatchTrigger :: "TriggerWorkSpace \<Rightarrow> nat \<Rightarrow> int \<Rightarrow> TriggerWorkSpace exec" where
  "ClearWatchTrigger ws watcher type =
     (case GetTriggerHeader ws type of
        None \<Rightarrow> Some ws
      | Some _ \<Rightarrow> ClearWatchTrigger_loop ws type (tw_watchers ws watcher))"

subsection \<open>Names and conditions\<close>

definition GetTriggerCondition :: "TriggerNode \<Rightarrow> string" where
  "GetTriggerCondition trigger = (case tn_condition trigger of None \<Rightarrow> [] | Some c \<Rightarrow> c)"

definition GetBootCondition :: "TriggerNode \<Rightarrow> string" where
  "GetBootCondition trigger = (if tn_type trigger \<noteq> TRIGGER_BOOT then [] else tn_name trigger)"

definition GetJobName :: "TriggerNode \<Rightarrow> string" where
  "GetJobName trigger = (if \<not> tn_type trigger \<le> TRIGGER_UNKNOW then [] else tn_name trigger)"

definition GetWatchName :: "TriggerNode \<Rightarrow> string" where
  "GetWatchName trigger =
     (if \<not> (tn_type trigger < TRIGGER_MAX \<and> tn_type trigger > TRIGGER_UNKNOW) then []
      else case tn_condition trigger of None \<Rightarrow> [] | Some c \<Rightarrow> c)"

text \<open>The dispatch on the functions that \<^verbatim>\<open>InitTriggerHead\<close> stores.\<close>

definition getCondition :: "nat \<Rightarrow> TriggerNode \<Rightarrow> string" where
  "getCondition type = (if type = TRIGGER_BOOT then GetBootCondition else GetTriggerCondition)"

definition GetTriggerName :: "TriggerWorkSpace \<Rightarrow> TriggerNode \<Rightarrow> string" where
  "GetTriggerName ws trigger =
     (case GetTriggerHeader ws (int (tn_type trigger)) of
        None \<Rightarrow> []
      | Some _ \<Rightarrow> if tn_type trigger = TRIGGER_PARAM_WAIT \<or> tn_type trigger = TRIGGER_PARAM_WATCH then GetWatchName trigger
                 else GetJobName trigger)"

definition CheckBootCondition :: "string \<Rightarrow> string \<Rightarrow> nat \<Rightarrow> int" where
  "CheckBootCondition condition content contentSize = (if strncmp_eq condition content contentSize then 1 else 0)"

definition CheckWatchCondition :: "string \<Rightarrow> string \<Rightarrow> nat \<Rightarrow> int" where
  "CheckWatchCondition condition content contentSize = (if strncmp_eq condition content (length condition) then 1 else 0)"

definition CheckParamCondition ::
  "bool \<Rightarrow> ParamWorkSpace \<Rightarrow> LogicData LogicCalculator \<Rightarrow> string \<Rightarrow> (LogicData LogicCalculator \<times> int) exec" where
  "CheckParamCondition musl pw calculator condition =
     (case lc_inputName calculator of
        None \<Rightarrow> ComputeCondition musl pw calculator condition
      | Some name \<Rightarrow>
          if \<not> CheckMatchSubCondition condition name (length name) then Some (calculator, 0)
          else ComputeCondition musl pw calculator condition)"

definition CheckUnknowCondition ::
  "bool \<Rightarrow> ParamWorkSpace \<Rightarrow> LogicData LogicCalculator \<Rightarrow> string \<Rightarrow> string \<Rightarrow> (LogicData LogicCalculator \<times> int) exec" where
  "CheckUnknowCondition musl pw calculator condition content =
     (if content = condition then Some (calculator, 1) else ComputeCondition musl pw calculator condition)"

definition checkCondition ::
  "nat \<Rightarrow> bool \<Rightarrow> ParamWorkSpace \<Rightarrow> LogicData LogicCalculator \<Rightarrow> string \<Rightarrow> string \<Rightarrow> nat \<Rightarrow> (LogicData LogicCalculator \<times> int) exec" where
  "checkCondition type musl pw calculator condition content contentSize =
     (if type = TRIGGER_BOOT then Some (calculator, CheckBootCondition condition content contentSize)
      else if type = TRIGGER_PARAM_WATCH then Some (calculator, CheckWatchCondition condition content contentSize)
      else if type = TRIGGER_UNKNOW then CheckUnknowCondition musl pw calculator condition content
      else CheckParamCondition musl pw calculator condition)"

partial_function (option) CheckAndMarkTrigger_loop :: "TriggerWorkSpace \<Rightarrow> nat \<Rightarrow> string \<Rightarrow> ptr \<Rightarrow> int \<Rightarrow> (TriggerWorkSpace \<times> int) exec" where
  "CheckAndMarkTrigger_loop ws type name trigger ret =
     (case trigger of
        NULL \<Rightarrow> Some (ws, ret)
      | Ref n \<Rightarrow> do {
          node \<leftarrow> node_at ws n;
          next_trigger \<leftarrow> GetNextTrigger ws type trigger;
          if CheckMatchSubCondition (getCondition type node) name (length name) then
            CheckAndMarkTrigger_loop (put_node ws n (TRIGGER_SET_FLAG node TRIGGER_FLAGS_RELATED)) type name next_trigger 1
          else CheckAndMarkTrigger_loop ws type name next_trigger ret
        })"

definition CheckAndMarkTrigger_head :: "TriggerWorkSpace \<Rightarrow> int \<Rightarrow> string \<Rightarrow> (TriggerWorkSpace \<times> int) exec" where
  "CheckAndMarkTrigger_head ws type name =
     (case GetTriggerHeader ws type of
        None \<Rightarrow> Some (ws, 0)
      | Some _ \<Rightarrow> do { trigger \<leftarrow> GetNextTrigger ws (nat type) NULL; CheckAndMarkTrigger_loop ws (nat type) name trigger 0 })"

end
