(* ===== verification/Trigger_Processor.thy ===== *)
theory Trigger_Processor
  imports Trigger_Manager
begin

text \<open>
  The execution of triggers (\<^verbatim>\<open>trigger_processor.c\<close>, with the matching of \<^verbatim>\<open>trigger_manager.c\<close>): events are matched
  against the triggers of a kind, jobs that match are queued and executed by running their commands, waiters and watchers
  are notified at once. The commands of init and the notification of clients are arguments that may change the whole state.
\<close>

subsection \<open>The state of init\<close>

text \<open>The trigger workspace, the parameters, the events that were sent to the event loop and the rest of the process.\<close>

record 'e InitState =
  is_triggers :: TriggerWorkSpace
  is_params :: ParamWorkSpace
  is_events :: "(nat \<times> string) list"
  is_eventHandle :: bool
  is_env :: 'e

type_synonym 'e action = "'e InitState \<Rightarrow> 'e InitState exec"

text \<open>\<^verbatim>\<open>doCmd\<close> stands for \<^verbatim>\<open>DoCmdByIndex\<close>, \<^verbatim>\<open>notify\<close> for the function that \<^verbatim>\<open>param_service.c\<close> registers for waiters and watchers
  with \<^verbatim>\<open>RegisterTriggerExec\<close>, \<^verbatim>\<open>musl\<close> for the build with the C library's own parameter area.\<close>

record 'e Runner =
  rn_musl :: bool
  rn_doCmd :: "CommandNode \<Rightarrow> 'e action"
  rn_notify :: "nat \<Rightarrow> string option \<Rightarrow> nat \<Rightarrow> 'e action"

definition state_node :: "'e InitState \<Rightarrow> nat \<Rightarrow> TriggerNode exec" where
  "state_node s n = node_at (is_triggers s) n"

definition state_put :: "'e InitState \<Rightarrow> nat \<Rightarrow> TriggerNode \<Rightarrow> 'e InitState" where
  "state_put s n t = s\<lparr>is_triggers := put_node (is_triggers s) n t\<rparr>"

definition state_push :: "'e InitState \<Rightarrow> nat \<Rightarrow> 'e InitState exec" where
  "state_push s n = do {
     q \<leftarrow> ExecuteQueuePush (tw_executeQueue (is_triggers s)) (Ref n);
     Some (s\<lparr>is_triggers := (is_triggers s)\<lparr>tw_executeQueue := q\<rparr>\<rparr>)
   }"

definition state_free :: "'e InitState \<Rightarrow> nat \<Rightarrow> 'e InitState exec" where
  "state_free s n = do { ws \<leftarrow> FreeTrigger (is_triggers s) n; Some (s\<lparr>is_triggers := ws\<rparr>) }"

subsection \<open>Execution of one trigger\<close>

partial_function (option) DoTriggerExecute_loop :: "'e Runner \<Rightarrow> nat \<Rightarrow> nat option \<Rightarrow> 'e InitState \<Rightarrow> 'e InitState exec" where
  "DoTriggerExecute_loop rn n cmd s =
     (case cmd of
        None \<Rightarrow> Some s
      | Some i \<Rightarrow> do {
          node \<leftarrow> state_node s n;
          s \<leftarrow> rn_doCmd rn (tn_cmds node ! i) s;
          node \<leftarrow> state_node s n;
          DoTriggerExecute_loop rn n (GetNextCmdNode node (Some i)) s
        })"

definition DoTriggerExecute :: "'e Runner \<Rightarrow> nat \<Rightarrow> 'e action" where
  "DoTriggerExecute rn n s = do {
     node \<leftarrow> state_node s n;
     if \<not> tn_type node \<le> TRIGGER_UNKNOW then Some s
     else DoTriggerExecute_loop rn n (GetNextCmdNode node None) s
   }"

text \<open>The function that is registered for a type.\<close>

definition executeTrigger :: "'e Runner \<Rightarrow> nat \<Rightarrow> nat \<Rightarrow> string option \<Rightarrow> nat \<Rightarrow> 'e action" where
  "executeTrigger rn type n content len =
     (if type \<le> TRIGGER_UNKNOW then DoTriggerExecute rn n else rn_notify rn n content len)"

definition DoTriggerCheckResult :: "nat \<Rightarrow> string \<Rightarrow> nat \<Rightarrow> 'e action" where
  "DoTriggerCheckResult n content len s = do {
     node \<leftarrow> state_node s n;
     if TRIGGER_IN_QUEUE node then Some s
     else state_push (state_put s n (TRIGGER_SET_FLAG node TRIGGER_FLAGS_QUEUE)) n
   }"

text \<open>What both ways of execution do at the end: the mark of the queue is taken away and a trigger that runs once is freed.\<close>

definition clear_queue_flag :: "nat \<Rightarrow> 'e action" where
  "clear_queue_flag n s = do { node \<leftarrow> state_node s n; Some (state_put s n (TRIGGER_CLEAR_FLAG node TRIGGER_FLAGS_QUEUE)) }"

definition free_if_once :: "nat \<Rightarrow> 'e action" where
  "free_if_once n s = do {
     node \<leftarrow> state_node s n;
     if TRIGGER_TEST_FLAG node TRIGGER_FLAGS_ONCE then state_free s n else Some s
   }"

definition ExecuteTriggerImmediately :: "'e Runner \<Rightarrow> nat \<Rightarrow> string \<Rightarrow> nat \<Rightarrow> 'e action" where
  "ExecuteTriggerImmediately rn n content len s = do {
     node \<leftarrow> state_node s n;
     case GetTriggerHeader (is_triggers s) (int (tn_type node)) of
       None \<Rightarrow> Some s
     | Some _ \<Rightarrow> do {
         s \<leftarrow> executeTrigger rn (tn_type node) n (Some content) len s;
         s \<leftarrow> clear_queue_flag n s;
         free_if_once n s
       }
   }"

subsection \<open>Matching\<close>

partial_function (option) ExecTriggerMatch_loop ::
  "'e Runner \<Rightarrow> (nat \<Rightarrow> string \<Rightarrow> nat \<Rightarrow> 'e action) \<Rightarrow> nat \<Rightarrow> string \<Rightarrow> nat \<Rightarrow> ptr \<Rightarrow> LogicData LogicCalculator \<Rightarrow>
   'e InitState \<Rightarrow> 'e InitState exec" where
  "ExecTriggerMatch_loop rn triggerCheckDone type content contentSize trigger calculator s =
     (case trigger of
        NULL \<Rightarrow> Some s
      | Ref n \<Rightarrow> do {
          next_trigger \<leftarrow> GetNextTrigger (is_triggers s) type trigger;
          node \<leftarrow> state_node s n;
          (calculator, ret) \<leftarrow>
            checkCondition type (rn_musl rn) (is_params s) calculator (getCondition type node) content contentSize;
          s \<leftarrow> (if ret = 1 then triggerCheckDone n content contentSize s else Some s);
          ExecTriggerMatch_loop rn triggerCheckDone type content contentSize next_trigger calculator s
        })"

definition ExecTriggerMatch ::
  "'e Runner \<Rightarrow> (nat \<Rightarrow> string \<Rightarrow> nat \<Rightarrow> 'e action) \<Rightarrow> nat \<Rightarrow> LogicData LogicCalculator \<Rightarrow> string \<Rightarrow> nat \<Rightarrow> 'e action" where
  "ExecTriggerMatch rn triggerCheckDone type calculator content contentSize s = do {
     trigger \<leftarrow> GetNextTrigger (is_triggers s) type NULL;
     ExecTriggerMatch_loop rn triggerCheckDone type content contentSize trigger calculator s
   }"

text \<open>A calculator whose fields are zero, and a cell of its stack.\<close>

definition zero_calculator :: "LogicData LogicCalculator" where
  "zero_calculator = \<lparr>lc_triggerContent = [], lc_dataNumber = 0, lc_endIndex = 0, lc_dataUnit = 0, lc_conditionName = [],
     lc_conditionContent = [], lc_inputName = None, lc_inputContent = None, lc_readContent = [], lc_data = []\<rparr>"

definition zero_data :: LogicData where
  "zero_data = \<lparr>ld_flags = 0, ld_startIndex = 0, ld_endIndex = 0\<rparr>"

text \<open>The matching functions return the state and the return value of \<^verbatim>\<open>checkTriggerMatch\<close>.\<close>

definition CheckBootMatch ::
  "'e Runner \<Rightarrow> (nat \<Rightarrow> string \<Rightarrow> nat \<Rightarrow> 'e action) \<Rightarrow> nat \<Rightarrow> LogicData LogicCalculator \<Rightarrow> string \<Rightarrow> nat \<Rightarrow> 'e InitState \<Rightarrow> ('e InitState \<times> int) exec" where
  "CheckBootMatch rn triggerCheckDone type calculator content contentSize s =
     (if \<not> (type = TRIGGER_BOOT \<or> type = TRIGGER_PARAM_WATCH) then Some (s, - 1)
      else do { s \<leftarrow> ExecTriggerMatch rn triggerCheckDone type calculator content contentSize s; Some (s, 0) })"

definition CheckParamMatch ::
  "'e Runner \<Rightarrow> (nat \<Rightarrow> string \<Rightarrow> nat \<Rightarrow> 'e action) \<Rightarrow> nat \<Rightarrow> LogicData LogicCalculator \<Rightarrow> string \<Rightarrow> nat \<Rightarrow> 'e InitState \<Rightarrow> ('e InitState \<times> int) exec" where
  "CheckParamMatch rn triggerCheckDone type calculator content contentSize s =
     (if \<not> (type = TRIGGER_PARAM \<or> type = TRIGGER_PARAM_WAIT) then Some (s, - 1)
      else
        (let calculator = fst (CalculatorInit zero_data calculator MAX_CONDITION_NUMBER sizeof_LogicData) in do {
           (name, ret) \<leftarrow> GetValueFromContent content contentSize 0 SUPPORT_DATA_BUFFER_MAX;
           if ret \<noteq> 0 then Some (s, - 1)
           else do {
             (val, ret) \<leftarrow> GetValueFromContent content contentSize (length name + 1) SUPPORT_DATA_BUFFER_MAX;
             if ret \<noteq> 0 then Some (s, - 1)
             else do {
               s \<leftarrow> ExecTriggerMatch rn triggerCheckDone type
                      (calculator\<lparr>lc_inputName := Some name, lc_inputContent := Some val\<rparr>) content contentSize s;
               Some (s, 0)
             }
           }
         }))"

text \<open>The copy needs the buffer of 128 bytes; one that fills it leaves no terminator for the \<^verbatim>\<open>strlen\<close> that follows.\<close>

definition CheckUnknowMatch ::
  "'e Runner \<Rightarrow> (nat \<Rightarrow> string \<Rightarrow> nat \<Rightarrow> 'e action) \<Rightarrow> nat \<Rightarrow> LogicData LogicCalculator \<Rightarrow> string \<Rightarrow> nat \<Rightarrow> 'e InitState \<Rightarrow> ('e InitState \<times> int) exec" where
  "CheckUnknowMatch rn triggerCheckDone type calculator content contentSize s =
     (if type \<noteq> TRIGGER_UNKNOW then Some (s, - 1)
      else if contentSize > MAX_TRIGGER_NAME_LEN then Some (s, - 1)
      else if contentSize = MAX_TRIGGER_NAME_LEN \<or> contentSize > length content + 1 then None
      else
        (let calculator = fst (CalculatorInit zero_data calculator MAX_CONDITION_NUMBER sizeof_LogicData) in do {
           s \<leftarrow> ExecTriggerMatch rn triggerCheckDone type
                  (calculator\<lparr>lc_triggerContent := take contentSize content, lc_inputName := None, lc_inputContent := None\<rparr>)
                  content contentSize s;
           Some (s, 0)
         }))"

definition checkTriggerMatch ::
  "'e Runner \<Rightarrow> (nat \<Rightarrow> string \<Rightarrow> nat \<Rightarrow> 'e action) \<Rightarrow> nat \<Rightarrow> LogicData LogicCalculator \<Rightarrow> string \<Rightarrow> nat \<Rightarrow> 'e InitState \<Rightarrow> ('e InitState \<times> int) exec" where
  "checkTriggerMatch rn triggerCheckDone type =
     (if type = TRIGGER_BOOT \<or> type = TRIGGER_PARAM_WATCH then CheckBootMatch rn triggerCheckDone type
      else if type = TRIGGER_UNKNOW then CheckUnknowMatch rn triggerCheckDone type
      else CheckParamMatch rn triggerCheckDone type)"

definition CheckTrigger ::
  "'e Runner \<Rightarrow> (nat \<Rightarrow> string \<Rightarrow> nat \<Rightarrow> 'e action) \<Rightarrow> int \<Rightarrow> string \<Rightarrow> nat \<Rightarrow> 'e InitState \<Rightarrow> ('e InitState \<times> int) exec" where
  "CheckTrigger rn triggerCheckDone type content contentSize s =
     (case GetTriggerHeader (is_triggers s) type of
        None \<Rightarrow> Some (s, 0)
      | Some _ \<Rightarrow> checkTriggerMatch rn triggerCheckDone (nat type) zero_calculator content contentSize s)"

subsection \<open>The execute queue\<close>

definition run_subtriggers :: "'e Runner \<Rightarrow> nat \<Rightarrow> 'e action" where
  "run_subtriggers rn n s = do {
     node \<leftarrow> state_node s n;
     if TRIGGER_TEST_FLAG node TRIGGER_FLAGS_SUBTRIGGER then
       (let condition = getCondition (tn_type node) node in do {
          (s, _) \<leftarrow> CheckTrigger rn (ExecuteTriggerImmediately rn) (int TRIGGER_UNKNOW) condition (length condition) s;
          Some s
        })
     else Some s
   }"

definition StartTriggerExecute :: "'e Runner \<Rightarrow> nat \<Rightarrow> 'e action" where
  "StartTriggerExecute rn n s = do {
     node \<leftarrow> state_node s n;
     case GetTriggerHeader (is_triggers s) (int (tn_type node)) of
       None \<Rightarrow> Some s
     | Some _ \<Rightarrow> do {
         s \<leftarrow> executeTrigger rn (tn_type node) n None 0 s;
         s \<leftarrow> clear_queue_flag n s;
         s \<leftarrow> run_subtriggers rn n s;
         free_if_once n s
       }
   }"

definition state_pop :: "'e InitState \<Rightarrow> ('e InitState \<times> ptr) exec" where
  "state_pop s = do {
     (q, trigger) \<leftarrow> ExecuteQueuePop (tw_executeQueue (is_triggers s));
     Some (s\<lparr>is_triggers := (is_triggers s)\<lparr>tw_executeQueue := q\<rparr>\<rparr>, trigger)
   }"

text \<open>\<^verbatim>\<open>bootStateChange\<close> is told when a trigger starts and ends.\<close>

definition notify_boot :: "(nat \<Rightarrow> string \<Rightarrow> 'e action) option \<Rightarrow> nat \<Rightarrow> string \<Rightarrow> 'e action" where
  "notify_boot bootStateChange start name s = (case bootStateChange of None \<Rightarrow> Some s | Some f \<Rightarrow> f start name s)"

function ExecuteQueueWork_loop ::
  "'e Runner \<Rightarrow> nat \<Rightarrow> (nat \<Rightarrow> string \<Rightarrow> 'e action) option \<Rightarrow> nat \<Rightarrow> ptr \<Rightarrow> 'e InitState \<Rightarrow> 'e InitState exec" where
  "ExecuteQueueWork_loop rn maxCount bootStateChange executeCount trigger s =
     (case trigger of
        NULL \<Rightarrow> Some s
      | Ref n \<Rightarrow> do {
          node \<leftarrow> state_node s n;
          let triggerName = GetTriggerName (is_triggers s) node;
          if length triggerName \<ge> 256 then Some s
          else do {
            s \<leftarrow> notify_boot bootStateChange 0 triggerName s;
            s \<leftarrow> StartTriggerExecute rn n s;
            s \<leftarrow> notify_boot bootStateChange 1 triggerName s;
            let executeCount = executeCount + 1;
            if executeCount > maxCount then Some s
            else do {
              (s, trigger) \<leftarrow> state_pop s;
              ExecuteQueueWork_loop rn maxCount bootStateChange executeCount trigger s
            }
          }
        })"
  by pat_completeness auto
termination
  by (relation "measure (\<lambda>(_, maxCount, _, executeCount, _). maxCount + 1 - executeCount)") auto

declare ExecuteQueueWork_loop.simps [simp del]

definition ExecuteQueueWork :: "'e Runner \<Rightarrow> nat \<Rightarrow> (nat \<Rightarrow> string \<Rightarrow> 'e action) option \<Rightarrow> 'e action" where
  "ExecuteQueueWork rn maxCount bootStateChange s = do {
     (s, trigger) \<leftarrow> state_pop s;
     ExecuteQueueWork_loop rn maxCount bootStateChange 0 trigger s
   }"

abbreviation (input) MAX_TRIGGER_COUNT_RUN_ONCE :: nat where "MAX_TRIGGER_COUNT_RUN_ONCE \<equiv> 20"
abbreviation (input) EVENT_TRIGGER_PARAM :: nat where "EVENT_TRIGGER_PARAM \<equiv> 0"
abbreviation (input) EVENT_TRIGGER_BOOT :: nat where "EVENT_TRIGGER_BOOT \<equiv> 1"
abbreviation (input) EVENT_TRIGGER_PARAM_WAIT :: nat where "EVENT_TRIGGER_PARAM_WAIT \<equiv> 2"
abbreviation (input) EVENT_TRIGGER_PARAM_WATCH :: nat where "EVENT_TRIGGER_PARAM_WATCH \<equiv> 3"

definition ProcessBeforeEvent :: "'e Runner \<Rightarrow> (nat \<Rightarrow> string \<Rightarrow> 'e action) option \<Rightarrow> nat \<Rightarrow> string \<Rightarrow> nat \<Rightarrow> 'e action" where
  "ProcessBeforeEvent rn bootStateChange eventId content len s =
     (if eventId = EVENT_TRIGGER_PARAM then do {
        (s, _) \<leftarrow> CheckTrigger rn DoTriggerCheckResult (int TRIGGER_PARAM) content len s;
        ExecuteQueueWork rn MAX_TRIGGER_COUNT_RUN_ONCE None s
      } else if eventId = EVENT_TRIGGER_BOOT then do {
        s \<leftarrow> notify_boot bootStateChange 0 content s;
        (s, _) \<leftarrow> CheckTrigger rn DoTriggerCheckResult (int TRIGGER_BOOT) content len s;
        s \<leftarrow> ExecuteQueueWork rn 1 None s;
        s \<leftarrow> notify_boot bootStateChange 1 content s;
        ExecuteQueueWork rn MAX_TRIGGER_COUNT_RUN_ONCE bootStateChange s
      } else if eventId = EVENT_TRIGGER_PARAM_WAIT then do {
        (s, _) \<leftarrow> CheckTrigger rn (ExecuteTriggerImmediately rn) (int TRIGGER_PARAM_WAIT) content len s;
        Some s
      } else if eventId = EVENT_TRIGGER_PARAM_WATCH then do {
        (s, _) \<leftarrow> CheckTrigger rn (ExecuteTriggerImmediately rn) (int TRIGGER_PARAM_WATCH) content len s;
        Some s
      } else Some s)"

subsection \<open>Events\<close>

abbreviation (input) RECV_BUFFER_MAX :: nat where "RECV_BUFFER_MAX \<equiv> 5 * 1024"

definition ParamEventSend :: "'e InitState \<Rightarrow> nat \<Rightarrow> string \<Rightarrow> nat \<Rightarrow> 'e InitState \<times> int" where
  "ParamEventSend s eventId content len =
     (if \<not> is_eventHandle s then (s, - 1)
      else if \<not> len \<le> RECV_BUFFER_MAX then (s, - 1)
      else (s\<lparr>is_events := is_events s @ [(eventId, take len content)]\<rparr>, 0))"

definition SendTriggerEvent :: "'e InitState \<Rightarrow> nat \<Rightarrow> string \<Rightarrow> nat \<Rightarrow> 'e InitState" where
  "SendTriggerEvent s type content contentLen = fst (ParamEventSend s type content contentLen)"

text \<open>\<^verbatim>\<open>sprintf_s\<close> gets one byte less than the buffer, which is still enough for the text and its terminator.\<close>

definition PostParamTrigger :: "'e InitState \<Rightarrow> nat \<Rightarrow> string \<Rightarrow> string \<Rightarrow> 'e InitState" where
  "PostParamTrigger s type name val =
     (let bufferSize = u32 (length name + length val + 1 + 1 + 1) in
      if \<not> bufferSize < PARAM_CONST_VALUE_LEN_MAX + PARAM_NAME_LEN_MAX + 1 + 1 + 1 then s
      else
        (let buffer = name @ ''='' @ val in
         if \<not> length buffer < bufferSize - 1 then s else SendTriggerEvent s type buffer (length buffer)))"

definition PostTrigger :: "'e InitState \<Rightarrow> nat \<Rightarrow> string \<Rightarrow> nat \<Rightarrow> 'e InitState" where
  "PostTrigger s type content contentLen = (if \<not> contentLen > 0 then s else SendTriggerEvent s type content contentLen)"

subsection \<open>Jobs of the configuration\<close>

definition triggerTypeStr :: "string list" where
  "triggerTypeStr = [''pre-init'', ''boot'', ''early-init'', ''init'', ''late-init'', ''post-init'', ''fs'', ''early-fs'',
     ''post-fs'', ''late-fs'', ''early-boot'', ''post-fs-data'', ''reboot'', ''suspend'']"

definition GetTriggerType :: "string \<Rightarrow> nat" where
  "GetTriggerType type =
     (if strncmp_eq ''param:'' type 6 then TRIGGER_PARAM
      else if strncmp_eq ''boot-service:'' type 13 then TRIGGER_BOOT
      else if type \<in> set triggerTypeStr then TRIGGER_BOOT else TRIGGER_UNKNOW)"

definition GetCmdStart :: "string \<Rightarrow> string option" where
  "GetCmdStart cmdContent =
     (case dropWhile isspace cmdContent of
        [] \<Rightarrow> Some []
      | c # cs \<Rightarrow> if c = CHR ''#'' then None else Some (c # cs))"

text \<open>The names of the commands in the order of their index; \<^verbatim>\<open>plugin\<close> is \<^verbatim>\<open>PluginGetCmdIndex\<close>.\<close>

record CmdTables =
  ct_commCmds :: "string list"
  ct_cmds :: "string list"
  ct_plugin :: "string \<Rightarrow> (string \<times> nat) option"

fun match_table :: "string list \<Rightarrow> nat \<Rightarrow> string \<Rightarrow> (string \<times> nat) option" where
  "match_table [] i startCmd = None"
| "match_table (name # names) i startCmd =
     (if strncmp_eq startCmd name (length name) then Some (name, i) else match_table names (i + 1) startCmd)"

definition GetMatchCmd :: "CmdTables \<Rightarrow> string \<Rightarrow> (string \<times> nat) option" where
  "GetMatchCmd ct cmdStr =
     (case GetCmdStart cmdStr of
        None \<Rightarrow> None
      | Some startCmd \<Rightarrow>
         (case match_table (ct_commCmds ct) 0 startCmd of
            Some r \<Rightarrow> Some r
          | None \<Rightarrow>
             (case match_table (ct_cmds ct) (length (ct_commCmds ct)) startCmd of
                Some r \<Rightarrow> Some r
              | None \<Rightarrow> ct_plugin ct startCmd)))"

definition GetCommandInfo :: "CmdTables \<Rightarrow> string \<Rightarrow> (nat \<times> string option) option" where
  "GetCommandInfo ct cmdLine =
     (case GetMatchCmd ct cmdLine of
        None \<Rightarrow> None
      | Some (matchCmd, cmdKeyIndex) \<Rightarrow>
          Some (cmdKeyIndex, map_option (\<lambda>str. dropWhile isspace (drop (length matchCmd) str)) (strstr cmdLine matchCmd)))"

text \<open>A command is added to a job and counted.\<close>

definition add_counted :: "TriggerWorkSpace \<Rightarrow> nat \<Rightarrow> nat \<Rightarrow> nat \<Rightarrow> string option \<Rightarrow> nat option \<Rightarrow> TriggerWorkSpace exec" where
  "add_counted ws type n cmdKeyIndex content cfgContext = do {
     node \<leftarrow> node_at ws n;
     let (node, ret) = AddCommand node cmdKeyIndex content cfgContext;
     let ws = put_node ws n node;
     Some (if ret \<noteq> 0 then ws else upd_head ws type (\<lambda>h. h\<lparr>th_cmdNodeCount := th_cmdNodeCount h + 1\<rparr>))
   }"

text \<open>The members of a job in the configuration: \<^verbatim>\<open>name\<close>, \<^verbatim>\<open>condition\<close> and \<^verbatim>\<open>cmds\<close>, which may be absent or of another type. A line of
  \<^verbatim>\<open>cmds\<close> that is not a string is \<open>None\<close>.\<close>

record TriggerItem =
  ti_name :: "string option"
  ti_condition :: "string option"
  ti_cmds :: "string option list option"

abbreviation (input) TRIGGER_MAX_CMD :: nat where "TRIGGER_MAX_CMD \<equiv> 4096"

fun add_commands :: "CmdTables \<Rightarrow> TriggerWorkSpace \<Rightarrow> nat \<Rightarrow> nat \<Rightarrow> nat option \<Rightarrow> string option list \<Rightarrow> TriggerWorkSpace exec" where
  "add_commands ct ws type n cfgContext [] = Some ws"
| "add_commands ct ws type n cfgContext (line # rest) =
     (case line of
        None \<Rightarrow> add_commands ct ws type n cfgContext rest
      | Some cmdLineStr \<Rightarrow>
         (case GetCommandInfo ct cmdLineStr of
            None \<Rightarrow> add_commands ct ws type n cfgContext rest
          | Some (cmdKeyIndex, content) \<Rightarrow> do {
              ws \<leftarrow> add_counted ws type n cmdKeyIndex content cfgContext;
              add_commands ct ws type n cfgContext rest
            }))"

definition ParseTrigger ::
  "CmdTables \<Rightarrow> TriggerWorkSpace \<Rightarrow> TriggerItem \<Rightarrow> (string \<Rightarrow> int) option \<Rightarrow> nat option \<Rightarrow> (TriggerWorkSpace \<times> int) exec" where
  "ParseTrigger ct ws triggerItem checkJobValid cfgContext =
     (case ti_name triggerItem of
        None \<Rightarrow> Some (ws, - 1)
      | Some name \<Rightarrow>
         (let type = GetTriggerType name in
          if type \<noteq> TRIGGER_BOOT \<and> (case checkJobValid of None \<Rightarrow> False | Some f \<Rightarrow> f name \<noteq> 0) then Some (ws, 0)
          else do {
            (ws, p) \<leftarrow> UpdateJobTrigger ws (int type) (ti_condition triggerItem) name;
            case p of
              NULL \<Rightarrow> Some (ws, - 1)
            | Ref n \<Rightarrow>
               (case ti_cmds triggerItem of
                  None \<Rightarrow> Some (ws, 0)
                | Some lines \<Rightarrow>
                    if \<not> length lines > 0 then Some (ws, - 1)
                    else do {
                      ws \<leftarrow> add_commands ct ws type n cfgContext (take TRIGGER_MAX_CMD lines);
                      Some (ws, 0)
                    })
          }))"

text \<open>\<^verbatim>\<open>hook\<close> is \<^verbatim>\<open>ParseJobHookExecute\<close>.\<close>

fun ParseTriggerConfig_loop ::
  "CmdTables \<Rightarrow> (TriggerItem \<Rightarrow> 'e action) \<Rightarrow> (string \<Rightarrow> int) option \<Rightarrow> nat option \<Rightarrow> TriggerItem list \<Rightarrow> 'e InitState \<Rightarrow> 'e InitState exec" where
  "ParseTriggerConfig_loop ct hook checkJobValid cfgContext [] s = Some s"
| "ParseTriggerConfig_loop ct hook checkJobValid cfgContext (item # items) s = do {
     (ws, _) \<leftarrow> ParseTrigger ct (is_triggers s) item checkJobValid cfgContext;
     s \<leftarrow> hook item (s\<lparr>is_triggers := ws\<rparr>);
     ParseTriggerConfig_loop ct hook checkJobValid cfgContext items s
   }"

definition ParseTriggerConfig ::
  "CmdTables \<Rightarrow> (TriggerItem \<Rightarrow> 'e action) \<Rightarrow> TriggerItem list option \<Rightarrow> (string \<Rightarrow> int) option \<Rightarrow> nat option \<Rightarrow>
   'e InitState \<Rightarrow> ('e InitState \<times> int) exec" where
  "ParseTriggerConfig ct hook triggers checkJobValid cfgContext s =
     (if \<not> is_eventHandle s then Some (s, - 1)
      else case triggers of
        None \<Rightarrow> Some (s, 0)
      | Some items \<Rightarrow>
          if \<not> length items > 0 then Some (s, - 1)
          else do {
            s \<leftarrow> ParseTriggerConfig_loop ct hook checkJobValid cfgContext (take TRIGGER_MAX_CMD items) s;
            Some (s, 0)
          })"

definition CheckAndMarkTrigger :: "'e InitState \<Rightarrow> int \<Rightarrow> string \<Rightarrow> ('e InitState \<times> int) exec" where
  "CheckAndMarkTrigger s type name =
     (case GetTriggerHeader (is_triggers s) type of
        None \<Rightarrow> Some (s, 0)
      | Some _ \<Rightarrow> do {
          (ws, ret) \<leftarrow> CheckAndMarkTrigger_head (is_triggers s) type name;
          Some (s\<lparr>is_triggers := ws\<rparr>, ret)
        })"

definition AddCompleteJob :: "CmdTables \<Rightarrow> 'e InitState \<Rightarrow> string \<Rightarrow> string option \<Rightarrow> string \<Rightarrow> ('e InitState \<times> int) exec" where
  "AddCompleteJob ct s name condition cmdContent =
     (if \<not> is_eventHandle s then Some (s, - 1)
      else
        (let type = GetTriggerType name in do {
           (ws, p) \<leftarrow> UpdateJobTrigger (is_triggers s) (int type) condition name;
           let s = s\<lparr>is_triggers := ws\<rparr>;
           case p of
             NULL \<Rightarrow> Some (s, - 1)
           | Ref n \<Rightarrow>
              (case GetCommandInfo ct cmdContent of
                 None \<Rightarrow> Some (s, - 1)
               | Some (cmdKeyIndex, content) \<Rightarrow> do {
                   ws \<leftarrow> add_counted ws type n cmdKeyIndex content None;
                   Some (s\<lparr>is_triggers := ws\<rparr>, 0)
                 })
         }))"

subsection \<open>The life of the workspace\<close>

definition InitTriggerWorkSpace :: "'e action" where
  "InitTriggerWorkSpace s =
     (if is_eventHandle s then Some s
      else
        Some (s\<lparr>is_eventHandle := True,
          is_triggers := InitTriggerHead ((is_triggers s)\<lparr>tw_executeQueue :=
            \<lparr>eq_queueCount = TRIGGER_EXECUTE_QUEUE, eq_startIndex = 0, eq_endIndex = 0,
             eq_executeQueue = replicate TRIGGER_EXECUTE_QUEUE NULL\<rparr>\<rparr>)\<rparr>))"

fun clear_heads :: "nat list \<Rightarrow> TriggerWorkSpace \<Rightarrow> TriggerWorkSpace exec" where
  "clear_heads [] ws = Some ws"
| "clear_heads (i # is) ws = do { ws \<leftarrow> ClearTrigger ws (int i); clear_heads is ws }"

definition JobNodeFree :: "nat \<Rightarrow> HashHeap \<times> TriggerWorkSpace \<Rightarrow> (HashHeap \<times> TriggerWorkSpace) exec" where
  "JobNodeFree node = (\<lambda>(h, ws). do { ws \<leftarrow> FreeTrigger (ws\<lparr>tw_hashHeap := h\<rparr>) node; Some (tw_hashHeap ws, ws) })"

definition CloseTriggerWorkSpace :: "'e action" where
  "CloseTriggerWorkSpace s = do {
     ws \<leftarrow> clear_heads [0..<TRIGGER_MAX] (is_triggers s);
     (h, ws) \<leftarrow> OH_HashMapDestory (tw_hashMap ws) (Some JobNodeFree) (tw_hashHeap ws, ws);
     Some (s\<lparr>is_triggers := ws\<lparr>tw_hashHeap := h, tw_hashMap := None,
            tw_executeQueue := (tw_executeQueue ws)\<lparr>eq_executeQueue := []\<rparr>\<rparr>, is_eventHandle := False\<rparr>)
   }"

definition DoTriggerExec :: "string \<Rightarrow> 'e action" where
  "DoTriggerExec triggerName s =
     (if \<not> is_eventHandle s then Some s
      else do {
        p \<leftarrow> GetTriggerByName (is_triggers s) triggerName;
        case p of
          NULL \<Rightarrow> Some s
        | Ref n \<Rightarrow> do {
            node \<leftarrow> state_node s n;
            if \<not> TRIGGER_IN_QUEUE node then state_push (state_put s n (TRIGGER_SET_FLAG node TRIGGER_FLAGS_QUEUE)) n
            else Some s
          }
      })"

text \<open>\<^verbatim>\<open>shut\<close> runs the hooks of \<^verbatim>\<open>INIT_SHUT_DETECTOR\<close>.\<close>

definition DoJobExecNow :: "'e Runner \<Rightarrow> 'e action \<Rightarrow> string \<Rightarrow> 'e action" where
  "DoJobExecNow rn shut triggerName s =
     (if \<not> is_eventHandle s then Some s
      else do {
        p \<leftarrow> GetTriggerByName (is_triggers s) triggerName;
        case p of
          NULL \<Rightarrow> Some s
        | Ref n \<Rightarrow> do {
            s \<leftarrow> (if strncmp_eq triggerName ''reboot'' 6 then shut s else Some s);
            StartTriggerExecute rn n s
          }
      })"

partial_function (option) CheckWatchTriggerTimeout_loop :: "'e Runner \<Rightarrow> ptr \<Rightarrow> int \<Rightarrow> 'e InitState \<Rightarrow> ('e InitState \<times> int) exec" where
  "CheckWatchTriggerTimeout_loop rn node hasNode s =
     (case node of
        NULL \<Rightarrow> Some (s, hasNode)
      | Ref n \<Rightarrow> do {
          next_node \<leftarrow> GetNextTrigger (is_triggers s) TRIGGER_PARAM_WAIT node;
          t \<leftarrow> state_node s n;
          s \<leftarrow> (if tn_timeout t > 0 then Some (state_put s n (t\<lparr>tn_timeout := tn_timeout t - 1\<rparr>))
                else do { s \<leftarrow> executeTrigger rn TRIGGER_PARAM_WAIT n None 0 s; state_free s n });
          CheckWatchTriggerTimeout_loop rn next_node 1 s
        })"

definition CheckWatchTriggerTimeout :: "'e Runner \<Rightarrow> 'e InitState \<Rightarrow> ('e InitState \<times> int) exec" where
  "CheckWatchTriggerTimeout rn s = do {
     node \<leftarrow> GetNextTrigger (is_triggers s) TRIGGER_PARAM_WAIT NULL;
     CheckWatchTriggerTimeout_loop rn node 0 s
   }"

end
