(* ===== verification/Trigger_Queue.thy ===== *)
theory Trigger_Queue
  imports Trigger_Processor
begin

text \<open>
  The execute queue of triggers: a ring buffer that behaves as a queue as long as it is not full, and the loop that takes a
  deleted trigger out of it.
\<close>

subsection \<open>What a bounded queue promises\<close>

locale fifo_queue =
  fixes wf :: "'q \<Rightarrow> bool" and contents :: "'q \<Rightarrow> 'a list" and room :: "'q \<Rightarrow> nat"
    and push :: "'q \<Rightarrow> 'a \<Rightarrow> 'q option" and pop :: "'q \<Rightarrow> ('q \<times> 'a option) option"
  assumes push_law: "wf q \<Longrightarrow> room q > 0 \<Longrightarrow>
      \<exists>q'. push q x = Some q' \<and> wf q' \<and> contents q' = contents q @ [x] \<and> room q = Suc (room q')"
    and pop_law: "wf q \<Longrightarrow> \<exists>q'. pop q = Some (q', case contents q of [] \<Rightarrow> None | x # _ \<Rightarrow> Some x) \<and> wf q' \<and>
      contents q' = tl (contents q) \<and> room q \<le> room q'"
begin

fun push_all :: "'q \<Rightarrow> 'a list \<Rightarrow> 'q option" where
  "push_all q [] = Some q"
| "push_all q (x # xs) = do { q \<leftarrow> push q x; push_all q xs }"

fun pops :: "nat \<Rightarrow> 'q \<Rightarrow> ('a option) list option" where
  "pops 0 q = Some []"
| "pops (Suc k) q = do { (q, x) \<leftarrow> pop q; xs \<leftarrow> pops k q; Some (x # xs) }"

lemma push_all_law:
  "wf q \<Longrightarrow> length xs \<le> room q \<Longrightarrow>
    \<exists>q'. push_all q xs = Some q' \<and> wf q' \<and> contents q' = contents q @ xs \<and> room q = room q' + length xs"
proof (induction xs arbitrary: q)
  case (Cons x xs)
  then obtain q1 where "push q x = Some q1" "wf q1" "contents q1 = contents q @ [x]" "room q = Suc (room q1)"
    using push_law [of q x] by auto
  with Cons.IH [of q1] Cons.prems show ?case by auto
qed simp

lemma pops_law:
  "wf q \<Longrightarrow> pops k q = Some (map Some (take k (contents q)) @ replicate (k - length (contents q)) None)"
proof (induction k arbitrary: q)
  case (Suc k)
  then obtain q1 where "pop q = Some (q1, case contents q of [] \<Rightarrow> None | x # _ \<Rightarrow> Some x)" "wf q1" "contents q1 = tl (contents q)"
    using pop_law [of q] by auto
  with Suc.IH [of q1] show ?case by (cases "contents q") auto
qed simp

lemma fifo:
  assumes "wf q" "length xs \<le> room q"
  shows "\<exists>q'. push_all q xs = Some q' \<and> pops (length (contents q @ xs)) q' = Some (map Some (contents q @ xs))"
  using push_all_law [OF assms] pops_law by auto

end

subsection \<open>The ring buffer\<close>

definition queue_wf :: "TriggerExecuteQueue \<Rightarrow> bool" where
  "queue_wf q = (eq_queueCount q = TRIGGER_EXECUTE_QUEUE \<and> length (eq_executeQueue q) = TRIGGER_EXECUTE_QUEUE \<and>
     eq_startIndex q \<le> eq_endIndex q \<and> eq_endIndex q \<le> eq_startIndex q + TRIGGER_EXECUTE_QUEUE \<and> eq_endIndex q < 4294967296)"

definition ref_option :: "ptr \<Rightarrow> nat option" where
  "ref_option p = (case p of NULL \<Rightarrow> None | Ref n \<Rightarrow> Some n)"

lemma ref_option_simps [simp]: "ref_option NULL = None" "ref_option (Ref n) = Some n"
  by (simp_all add: ref_option_def)

definition queued :: "TriggerExecuteQueue \<Rightarrow> nat list" where
  "queued q = List.map_filter ref_option (map (\<lambda>i. eq_executeQueue q ! (i mod TRIGGER_EXECUTE_QUEUE)) [eq_startIndex q..<eq_endIndex q])"

text \<open>The entries that can still be pushed; the indices are never reduced, so they end with the range of 32 bits.\<close>

definition queue_room :: "TriggerExecuteQueue \<Rightarrow> nat" where
  "queue_room q = min (TRIGGER_EXECUTE_QUEUE - (eq_endIndex q - eq_startIndex q)) (4294967295 - eq_endIndex q)"

definition queue_pop :: "TriggerExecuteQueue \<Rightarrow> (TriggerExecuteQueue \<times> nat option) exec" where
  "queue_pop q = do { (q, p) \<leftarrow> ExecuteQueuePop q; Some (q, ref_option p) }"

lemma mod_range_neq:
  fixes i e :: nat
  assumes "i < e" "e < i + 64"
  shows "i mod 64 \<noteq> e mod 64"
proof
  assume "i mod 64 = e mod 64"
  then have "(e - i) mod 64 = 0" using assms(1) by (simp add: mod_eq_dvd_iff_nat [symmetric])
  with assms show False by auto
qed

definition slots :: "ptr list \<Rightarrow> nat \<Rightarrow> nat \<Rightarrow> nat list" where
  "slots queue a b = List.map_filter ref_option (map (\<lambda>i. queue ! (i mod TRIGGER_EXECUTE_QUEUE)) [a..<b])"

lemma queued_slots: "queued q = slots (eq_executeQueue q) (eq_startIndex q) (eq_endIndex q)"
  by (simp add: queued_def slots_def)

lemma slots_cong:
  assumes "\<And>i. a \<le> i \<Longrightarrow> i < b \<Longrightarrow> queue' ! (i mod 64) = queue ! (i mod 64)"
  shows "slots queue' a b = slots queue a b"
proof -
  have "map (\<lambda>i. queue' ! (i mod 64)) [a..<b] = map (\<lambda>i. queue ! (i mod 64)) [a..<b]" using assms by (intro map_cong) auto
  then show ?thesis unfolding slots_def by metis
qed

lemma slots_first: "a < b \<Longrightarrow> slots queue a b = (case queue ! (a mod 64) of NULL \<Rightarrow> [] | Ref n \<Rightarrow> [n]) @ slots queue (a + 1) b"
  by (simp add: slots_def upt_conv_Cons map_filter_simps split: ptr.splits)

lemma slots_last: "a \<le> b \<Longrightarrow> queue ! (b mod 64) = Ref n \<Longrightarrow> slots queue a (b + 1) = slots queue a b @ [n]"
  by (simp add: slots_def map_filter_def)

lemma ExecuteQueuePush_law:
  assumes "queue_wf q" "queue_room q > 0"
  shows "\<exists>q'. ExecuteQueuePush q (Ref n) = Some q' \<and> queue_wf q' \<and> queued q' = queued q @ [n] \<and> queue_room q = Suc (queue_room q')"
proof -
  let ?i = "eq_endIndex q mod 64"
  let ?q = "q\<lparr>eq_endIndex := eq_endIndex q + 1, eq_executeQueue := (eq_executeQueue q)[?i := Ref n]\<rparr>"
  have b: "eq_endIndex q < eq_startIndex q + 64" "eq_endIndex q + 1 < 4294967296" "eq_startIndex q \<le> eq_endIndex q"
    "length (eq_executeQueue q) = 64" "eq_queueCount q = 64"
    using assms by (auto simp: queue_wf_def queue_room_def)
  have "?i < 64" by simp
  with b have push: "ExecuteQueuePush q (Ref n) = Some ?q" by (simp add: ExecuteQueuePush_def Let_def)
  have "slots (eq_executeQueue ?q) (eq_startIndex q) (eq_endIndex q) = queued q"
    unfolding queued_slots
  proof (rule slots_cong)
    fix i assume "eq_startIndex q \<le> i" "i < eq_endIndex q"
    with mod_range_neq [of i "eq_endIndex q"] b(1) show "eq_executeQueue ?q ! (i mod 64) = eq_executeQueue q ! (i mod 64)" by auto
  qed
  moreover have "eq_executeQueue ?q ! ?i = Ref n" using b(4) by simp
  ultimately have "queued ?q = queued q @ [n]" using slots_last [OF b(3), of "eq_executeQueue ?q" n] by (simp add: queued_slots)
  moreover have "queue_wf ?q" using b by (simp add: queue_wf_def)
  moreover have "queue_room q = Suc (queue_room ?q)" using b by (simp add: queue_room_def)
  ultimately show ?thesis using push by auto
qed

lemma ExecuteQueuePop_law:
  assumes "queue_wf q"
  shows "\<exists>q'. queue_pop q = Some (q', case queued q of [] \<Rightarrow> None | x # _ \<Rightarrow> Some x) \<and> queue_wf q' \<and> queued q' = tl (queued q) \<and>
    queue_room q \<le> queue_room q'"
  using assms
proof (induction q rule: ExecuteQueuePop.induct)
  case (1 q)
  let ?i = "eq_startIndex q mod 64"
  let ?p = "eq_executeQueue q ! ?i"
  let ?q = "q\<lparr>eq_executeQueue := (eq_executeQueue q)[?i := NULL], eq_startIndex := eq_startIndex q + 1\<rparr>"
  show ?case
  proof (cases "eq_endIndex q \<le> eq_startIndex q")
    case True
    then show ?thesis using 1(2) by (simp add: queue_pop_def ExecuteQueuePop.simps [of q] queued_def map_filter_simps)
  next
    case False
    have b: "eq_startIndex q < eq_endIndex q" "eq_endIndex q \<le> eq_startIndex q + 64" "eq_endIndex q < 4294967296"
      "length (eq_executeQueue q) = 64" "eq_queueCount q = 64" using 1(2) False by (auto simp: queue_wf_def)
    have wf: "queue_wf ?q" "queue_room q \<le> queue_room ?q" using b by (simp_all add: queue_wf_def queue_room_def)
    have "slots (eq_executeQueue ?q) (eq_startIndex q + 1) (eq_endIndex q) = slots (eq_executeQueue q) (eq_startIndex q + 1) (eq_endIndex q)"
    proof (rule slots_cong)
      fix i assume "eq_startIndex q + 1 \<le> i" "i < eq_endIndex q"
      with mod_range_neq [of "eq_startIndex q" i] b(2) show "eq_executeQueue ?q ! (i mod 64) = eq_executeQueue q ! (i mod 64)" by auto
    qed
    then have split: "queued q = (case ?p of NULL \<Rightarrow> [] | Ref n \<Rightarrow> [n]) @ queued ?q"
      using slots_first [OF b(1), of "eq_executeQueue q"] by (simp add: queued_slots)
    have step: "ExecuteQueuePop q = (if ?p = NULL then ExecuteQueuePop ?q else Some (?q, ?p))"
      using False b by (subst ExecuteQueuePop.simps) (simp add: Let_def)
    show ?thesis
    proof (cases ?p)
      case NULL
      have "\<exists>q'. queue_pop ?q = Some (q', case queued ?q of [] \<Rightarrow> None | x # _ \<Rightarrow> Some x) \<and> queue_wf q' \<and> queued q' = tl (queued ?q) \<and>
          queue_room ?q \<le> queue_room q'"
        using 1(1) [of ?i ?p ?q] False b wf(1) NULL by simp
      with step split NULL wf(2) show ?thesis by (auto simp: queue_pop_def)
    next
      case (Ref n)
      with step split wf show ?thesis by (auto simp: queue_pop_def)
    qed
  qed
qed

interpretation eq: fifo_queue queue_wf queued queue_room "\<lambda>q n. ExecuteQueuePush q (Ref n)" queue_pop
  by unfold_locales (use ExecuteQueuePush_law ExecuteQueuePop_law in auto)

subsection \<open>Pushing and popping\<close>

fun push_triggers :: "TriggerExecuteQueue \<Rightarrow> nat list \<Rightarrow> TriggerExecuteQueue exec" where
  "push_triggers q [] = Some q"
| "push_triggers q (n # ns) = do { q \<leftarrow> ExecuteQueuePush q (Ref n); push_triggers q ns }"

fun pop_triggers :: "nat \<Rightarrow> TriggerExecuteQueue \<Rightarrow> ptr list exec" where
  "pop_triggers 0 q = Some []"
| "pop_triggers (Suc k) q = do { (q, p) \<leftarrow> ExecuteQueuePop q; ps \<leftarrow> pop_triggers k q; Some (p # ps) }"

lemma push_triggers_eq: "push_triggers q ns = eq.push_all q ns"
  by (induction ns arbitrary: q) simp_all

lemma pop_triggers_eq: "map_option (map ref_option) (pop_triggers k q) = eq.pops k q"
proof (induction k arbitrary: q)
  case (Suc k)
  show ?case
  proof (cases "ExecuteQueuePop q")
    case (Some r)
    then obtain q' p where r: "ExecuteQueuePop q = Some (q', p)" by (cases r) auto
    then have "queue_pop q = Some (q', ref_option p)" by (simp add: queue_pop_def)
    with Suc.IH [of q', symmetric] r show ?thesis by (cases "pop_triggers k q'") simp_all
  next
    case None
    then have "queue_pop q = None" by (simp add: queue_pop_def)
    with None show ?thesis by simp
  qed
qed simp

lemma map_ref_option: "map ref_option ps = map Some ns \<Longrightarrow> ps = map Ref ns"
proof (induction ps arbitrary: ns)
  case (Cons p ps)
  then show ?case by (cases ns; cases p) auto
qed simp

text \<open>C19: The execute queue is first in, first out: whatever is pushed while there is room is popped in the same order behind the
  triggers that waited before, over any number of turns around the ring buffer.\<close>

theorem ExecuteQueue_fifo:
  assumes "queue_wf q" "length ns \<le> queue_room q"
  shows "\<exists>q'. push_triggers q ns = Some q' \<and> pop_triggers (length (queued q @ ns)) q' = Some (map Ref (queued q @ ns))"
proof -
  obtain q' where q': "push_triggers q ns = Some q'" "eq.pops (length (queued q @ ns)) q' = Some (map Some (queued q @ ns))"
    using eq.fifo [OF assms] by (auto simp: push_triggers_eq)
  then obtain ps where "pop_triggers (length (queued q @ ns)) q' = Some ps" "map ref_option ps = map Some (queued q @ ns)"
    using pop_triggers_eq [of "length (queued q @ ns)" q'] by auto
  with q'(1) map_ref_option show ?thesis by blast
qed

text \<open>A ring that has turned: 126 triggers were taken before, two wait.\<close>

definition turned_queue :: TriggerExecuteQueue where
  "turned_queue = \<lparr>eq_queueCount = 64, eq_startIndex = 126, eq_endIndex = 128,
     eq_executeQueue = (replicate 64 NULL)[62 := Ref 3, 63 := Ref 4]\<rparr>"

lemma turned_queue_state: "queue_wf turned_queue" "queued turned_queue = [3, 4]" "queue_room turned_queue = 62"
proof -
  show "queue_wf turned_queue" "queue_room turned_queue = 62" by (simp_all add: turned_queue_def queue_wf_def queue_room_def)
  have "[126..<128] = [126, 127 :: nat]" by (simp add: upt_rec_numeral)
  then show "queued turned_queue = [3, 4]" by (simp add: turned_queue_def queued_def map_filter_def)
qed

theorem ExecuteQueue_fifo_witness:
  "queue_wf turned_queue \<and> (\<exists>q'. push_triggers turned_queue [5, 6] = Some q' \<and> pop_triggers 4 q' = Some [Ref 3, Ref 4, Ref 5, Ref 6])"
  using ExecuteQueue_fifo [of turned_queue "[5, 6]"] by (simp add: turned_queue_state eval_nat_numeral)

subsection \<open>Deleting a trigger that waits\<close>

text \<open>C36: Deleting a job that waits in the queue reads the queue outside its array as soon as 64 triggers have been executed: the
  loop that looks for the job does not reduce its index to the size of the ring.\<close>

theorem FreeTrigger_beyond_queue:
  assumes "tw_nodes ws n = Some node" "tn_type node \<le> TRIGGER_UNKNOW" "TRIGGER_IN_QUEUE node"
    and "queue_wf (tw_executeQueue ws)" "queued (tw_executeQueue ws) \<noteq> []" "eq_startIndex (tw_executeQueue ws) \<ge> 64"
  shows "FreeTrigger ws n = None"
proof -
  let ?q = "tw_executeQueue ws"
  have "eq_startIndex ?q < eq_endIndex ?q"
    using assms(4,5) by (cases "eq_startIndex ?q < eq_endIndex ?q") (auto simp: queued_def map_filter_def)
  then have "clear_queued (eq_startIndex ?q) (eq_endIndex ?q) (eq_executeQueue ?q) (Ref n) = None"
    using assms(4,6) by (subst clear_queued.simps) (simp add: queue_wf_def)
  then show ?thesis
    using assms(1-3)
    by (simp add: FreeTrigger_def node_at_def GetTriggerHeader_def delTrigger_def DelJobTrigger_def Let_def upd_head_def put_node_def
        unlist_def bind_eq_None_conv split_beta)
qed

definition demo_queued :: TriggerWorkSpace where
  "demo_queued = \<lparr>tw_executeQueue = turned_queue, tw_triggerHead = (replicate 5 TriggerHeadSetDefault)[0 := \<lparr>th_triggerList = [3],
     th_triggerCount = 1, th_cmdNodeCount = 0\<rparr>], tw_hashMap = None, tw_hashHeap = [3 \<mapsto> NULL],
     tw_nodes = [3 \<mapsto> zero_node\<lparr>tn_flags := 5, tn_name := ''init''\<rparr>], tw_watchers = \<lambda>_. [], tw_next = 5, tw_tableId = 1\<rparr>"

theorem FreeTrigger_beyond_queue_witness:
  "queue_wf turned_queue \<and> tw_nodes demo_queued 3 = Some (zero_node\<lparr>tn_flags := 5, tn_name := ''init''\<rparr>) \<and> FreeTrigger demo_queued 3 = None"
proof -
  let ?n = "zero_node\<lparr>tn_flags := 5, tn_name := ''init''\<rparr>"
  have "tw_nodes demo_queued 3 = Some ?n" "tw_executeQueue demo_queued = turned_queue" by (simp_all add: demo_queued_def)
  moreover have "tn_type ?n \<le> TRIGGER_UNKNOW" by (simp add: zero_node_def)
  moreover have "TRIGGER_IN_QUEUE ?n" by (simp add: TRIGGER_IN_QUEUE_def TRIGGER_TEST_FLAG_def)
  moreover have "eq_startIndex turned_queue \<ge> 64" by (simp add: turned_queue_def)
  ultimately show ?thesis using FreeTrigger_beyond_queue [of demo_queued 3 ?n] turned_queue_state by simp
qed

end
