(* ===== verification/Trigger_Condition.thy ===== *)
theory Trigger_Condition
  imports Trigger_Checker
begin

text \<open>
  Conversion and evaluation together compute the value of a condition. Conditions are trees of comparisons with
  \<open>&&\<close> and \<open>||\<close>, where \<open>&&\<close> binds stronger; they are printed with the parentheses that this precedence needs.
\<close>

subsection \<open>Conditions and their meaning\<close>

datatype expr = Atom string string | And expr expr | Or expr expr

text \<open>Level 0: anything; level 1: no \<open>||\<close> outside parentheses; level 2: only comparisons outside parentheses.\<close>

fun cond_text :: "nat \<Rightarrow> expr \<Rightarrow> string" where
  "cond_text l (Atom n v) = n @ ''='' @ v"
| "cond_text l (And a b) =
     (if l \<le> 1 then cond_text 2 a @ '' && '' @ cond_text 1 b
      else ''('' @ cond_text 2 a @ '' && '' @ cond_text 1 b @ '')'')"
| "cond_text l (Or a b) =
     (if l = 0 then cond_text 0 a @ '' || '' @ cond_text 1 b
      else ''('' @ cond_text 0 a @ '' || '' @ cond_text 1 b @ '')'')"

text \<open>A comparison holds if the parameter has a value that matches the pattern.\<close>

fun holds :: "(string \<Rightarrow> string option) \<Rightarrow> expr \<Rightarrow> bool" where
  "holds vals (Atom n v) =
     (case vals n of None \<Rightarrow> False | Some x \<Rightarrow> length x < SUPPORT_DATA_BUFFER_MAX \<and> CompareValue v x = 1)"
| "holds vals (And a b) = (holds vals a \<and> holds vals b)"
| "holds vals (Or a b) = (holds vals a \<or> holds vals b)"

fun operators :: "expr \<Rightarrow> nat" where
  "operators (Atom n v) = 0"
| "operators (And a b) = operators a + operators b + 1"
| "operators (Or a b) = operators a + operators b + 1"

definition plain_char :: "char \<Rightarrow> bool" where
  "plain_char c = (\<not> isspace c \<and> c \<notin> set ''()|&='' \<and> c \<noteq> CHR 0x00)"

fun plain :: "expr \<Rightarrow> bool" where
  "plain (Atom n v) = (n \<noteq> [] \<and> length n < SUPPORT_DATA_BUFFER_MAX \<and> length v < SUPPORT_DATA_BUFFER_MAX \<and>
     list_all plain_char n \<and> list_all plain_char v)"
| "plain (And a b) = (plain a \<and> plain b)"
| "plain (Or a b) = (plain a \<and> plain b)"

subsection \<open>What the conversion writes\<close>

definition flushed :: "string \<Rightarrow> string" where
  "flushed ops = concat (map (\<lambda>c. [CHR '' '', c, CHR '' '']) ops)"

text \<open>The operators left on the calculator, the last pushed first.\<close>

fun pending :: "nat \<Rightarrow> expr \<Rightarrow> string" where
  "pending l (Atom n v) = []"
| "pending l (And a b) = (if l \<le> 1 then pending 1 b @ ''&'' else [])"
| "pending l (Or a b) = (if l = 0 then pending 1 b @ ''|'' else [])"

fun written :: "nat \<Rightarrow> expr \<Rightarrow> string" where
  "written l (Atom n v) = n @ ''='' @ v"
| "written l (And a b) = written 2 a @ ''   '' @ written 1 b @ (if l \<le> 1 then [] else flushed (pending 1 b @ ''&''))"
| "written l (Or a b) = written 0 a @ ''  '' @ flushed (pending 0 a) @ '' '' @ written 1 b @
     (if l = 0 then [] else flushed (pending 1 b @ ''|''))"

definition postfix_text :: "expr \<Rightarrow> string" where
  "postfix_text e = written 0 e @ flushed (pending 0 e)"

lemma flushed_simps [simp]: "flushed [] = []" "flushed (c # cs) = CHR '' '' # c # CHR '' '' # flushed cs"
  "flushed (xs @ ys) = flushed xs @ flushed ys"
  by (simp_all add: flushed_def)

lemma flushed_length [simp]: "length (flushed cs) = 3 * length cs"
  by (induction cs) simp_all

lemma pending_ops: "set (pending l e) \<subseteq> set ''|&''"
  by (induction l e rule: pending.induct) auto

lemma pending_length: "length (pending l e) \<le> operators e"
  by (induction l e rule: pending.induct) auto

lemma cond_length: "4 * operators e \<le> length (cond_text l e)"
  by (induction l e rule: cond_text.induct) auto

lemma written_length: "length (written l e) + 3 * length (pending l e) \<le> length (cond_text l e) + 2 * operators e"
  by (induction l e rule: cond_text.induct) auto

lemma postfix_length: "length (postfix_text e) \<le> 2 * length (cond_text 0 e)"
  using written_length [of 0 e] cond_length [of e 0] by (simp add: postfix_text_def)

subsection \<open>The calculator as a stack\<close>

definition stack_of :: "'a LogicCalculator \<Rightarrow> 'a list \<Rightarrow> bool" where
  "stack_of c S = (length (lc_data c) = lc_dataNumber c \<and> lc_endIndex c = length S \<and> length S \<le> lc_dataNumber c \<and>
     take (length S) (lc_data c) = rev S)"

lemma stack_push:
  assumes "stack_of c S" "length S < lc_dataNumber c"
  shows "snd (CalculatorPush c x) = 0" "stack_of (fst (CalculatorPush c x)) (x # S)"
    "lc_dataNumber (fst (CalculatorPush c x)) = lc_dataNumber c"
  using assms by (auto simp: stack_of_def CalculatorPush_def take_Suc_conv_app_nth)

lemma stack_pop:
  assumes "stack_of c (x # S)" "length S + 1 < lc_dataNumber c"
  shows "snd (CalculatorPop c) = Some x" "stack_of (fst (CalculatorPop c)) S"
    "lc_dataNumber (fst (CalculatorPop c)) = lc_dataNumber c"
proof -
  have "take (Suc (length S)) (lc_data c) = rev S @ [x]" using assms(1) by (simp add: stack_of_def)
  then have "lc_data c ! length S = x" "take (length S) (lc_data c) = rev S"
    using assms by (simp_all add: stack_of_def take_Suc_conv_app_nth)
  then show "snd (CalculatorPop c) = Some x" "stack_of (fst (CalculatorPop c)) S"
      "lc_dataNumber (fst (CalculatorPop c)) = lc_dataNumber c"
    using assms by (simp_all add: stack_of_def CalculatorPop_def)
qed

text \<open>The calculator of the conversion.\<close>

definition op_stack :: "char LogicCalculator \<Rightarrow> string \<Rightarrow> bool" where
  "op_stack c S = (stack_of c S \<and> lc_dataNumber c = MAX_CALC_PARAM \<and> lc_dataUnit c = 1)"

lemma op_push: "op_stack c S \<Longrightarrow> length S < 99 \<Longrightarrow> \<exists>c'. CalculatorPushChar c x = (c', 0) \<and> op_stack c' (x # S)"
  using stack_push [of c S x]
  by (auto simp: op_stack_def CalculatorPushChar_def CalculatorPush_def stack_of_def split: if_splits)

lemma op_pop: "op_stack c (x # S) \<Longrightarrow> length S < 99 \<Longrightarrow> \<exists>c'. CalculatorPopChar c e = (c', x, 0) \<and> op_stack c' S"
  using stack_pop [of c x S]
  by (auto simp: op_stack_def CalculatorPopChar_def CalculatorPop_def stack_of_def split: if_splits)

lemma op_length: "op_stack c S \<Longrightarrow> CalculatorLength c = length S"
  by (simp add: op_stack_def stack_of_def CalculatorLength_def)


subsection \<open>Conversion\<close>

text \<open>The loop goes on behind the text \<open>x\<close>: the calculator holds \<open>S'\<close> and \<open>u\<close> has been written.\<close>

definition converts :: "nat \<Rightarrow> string \<Rightarrow> string \<Rightarrow> string \<Rightarrow> string \<Rightarrow> bool" where
  "converts N x S S' u = (\<forall>rest c out e. op_stack c S \<longrightarrow> length (out @ u) < N \<longrightarrow>
     (\<exists>c' e'. op_stack c' S' \<and>
       ConvertInfixToPrefix_loop (x @ rest) N c out e = ConvertInfixToPrefix_loop rest N c' (out @ u) e'))"

lemma convertsD: "converts N x S S' u \<Longrightarrow> op_stack c S \<Longrightarrow> length (out @ u) < N \<Longrightarrow>
    \<exists>c' e'. op_stack c' S' \<and> ConvertInfixToPrefix_loop (x @ rest) N c out e = ConvertInfixToPrefix_loop rest N c' (out @ u) e'"
  by (simp add: converts_def)

lemma converts_append:
  assumes "converts N x S S' u" "converts N y S' S'' w"
  shows "converts N (x @ y) S S'' (u @ w)"
  unfolding converts_def
proof (intro allI impI)
  fix rest c out e assume c: "op_stack c S" and len: "length (out @ u @ w) < N"
  obtain c1 e1 where 1: "op_stack c1 S'"
    "ConvertInfixToPrefix_loop (x @ (y @ rest)) N c out e = ConvertInfixToPrefix_loop (y @ rest) N c1 (out @ u) e1"
    using convertsD [OF assms(1) c, of out "y @ rest" e] len by auto
  obtain c2 e2 where "op_stack c2 S''"
    "ConvertInfixToPrefix_loop (y @ rest) N c1 (out @ u) e1 = ConvertInfixToPrefix_loop rest N c2 ((out @ u) @ w) e2"
    using convertsD [OF assms(2) 1(1), of "out @ u" rest e1] len by auto
  with 1 show "\<exists>c' e'. op_stack c' S'' \<and>
      ConvertInfixToPrefix_loop ((x @ y) @ rest) N c out e = ConvertInfixToPrefix_loop rest N c' (out @ u @ w) e'"
    by auto
qed

lemma converts_nil: "converts N [] S S []"
  by (auto simp: converts_def)

lemma converts_char: "c \<notin> set ''()|&'' \<Longrightarrow> converts N [c] S S [c]"
  by (auto simp: converts_def prefix_put_def)

lemma converts_text: "list_all (\<lambda>c. c \<notin> set ''()|&'') x \<Longrightarrow> converts N x S S x"
proof (induction x)
  case (Cons c x)
  then show ?case using converts_append [OF converts_char [of c N S], of x S x] by simp
qed (simp add: converts_nil)

lemma converts_and: "length S < 99 \<Longrightarrow> converts N ''&&'' S (CHR ''&'' # S) '' ''"
  unfolding converts_def
proof (intro allI impI)
  fix rest c e and out :: string assume a: "length S < 99" "op_stack c S" "length (out @ '' '') < N"
  from op_push [OF a(2,1)] obtain c' where "CalculatorPushChar c (CHR ''&'') = (c', 0)" "op_stack c' (CHR ''&'' # S)" by blast
  with a(3) show "\<exists>c' e'. op_stack c' (CHR ''&'' # S) \<and>
      ConvertInfixToPrefix_loop (''&&'' @ rest) N c out e = ConvertInfixToPrefix_loop rest N c' (out @ '' '') e'"
    by (auto simp: prefix_put_def)
qed

lemma converts_open: "length S < 99 \<Longrightarrow> converts N ''('' S (CHR ''('' # S) []"
  unfolding converts_def
proof (intro allI impI)
  fix rest c e and out :: string assume a: "length S < 99" "op_stack c S" "length (out @ []) < N"
  from op_push [OF a(2,1)] obtain c' where "CalculatorPushChar c (CHR ''('') = (c', 0)" "op_stack c' (CHR ''('' # S)" by blast
  with a(3) show "\<exists>c' e'. op_stack c' (CHR ''('' # S) \<and>
      ConvertInfixToPrefix_loop (''('' @ rest) N c out e = ConvertInfixToPrefix_loop rest N c' (out @ []) e'"
    by auto
qed

text \<open>A closing parenthesis writes the operators above the opening one.\<close>

lemma close_paren_run:
  assumes "op_stack c (tl (ops @ CHR ''('' # S))" "e = hd (ops @ CHR ''('' # S)" "CHR ''('' \<notin> set ops"
    and "length ops + length S < 99" "length (out @ flushed ops) < N"
  shows "\<exists>c'. close_paren c out N e = (c', out @ flushed ops, CHR ''('', 0) \<and> op_stack c' S"
  using assms
proof (induction ops arbitrary: c out e)
  case (Cons x ops)
  let ?r = "ops @ CHR ''('' # S"
  have "op_stack c (hd ?r # tl ?r)" using Cons.prems(1) by (cases ops) auto
  from op_pop [OF this, of e] Cons.prems(4) obtain c' where
    c': "CalculatorPopChar c e = (c', hd ?r, 0)" "op_stack c' (tl ?r)" by (cases ops) auto
  from Cons.IH [OF c'(2) refl, of "out @ [CHR '' '', x, CHR '' '']"] Cons.prems(2-5) c'(1) show ?case
    by (subst close_paren.simps) (auto simp: PrefixAdd_def)
qed (simp add: close_paren.simps)

lemma converts_close:
  assumes "CHR ''('' \<notin> set ops" "length ops + length S < 99"
  shows "converts N '')'' (ops @ CHR ''('' # S) S (flushed ops)"
  unfolding converts_def
proof (intro allI impI)
  fix rest c e and out :: string assume a: "op_stack c (ops @ CHR ''('' # S)" "length (out @ flushed ops) < N"
  let ?r = "ops @ CHR ''('' # S"
  have "op_stack c (hd ?r # tl ?r)" using a(1) by (cases ops) auto
  from op_pop [OF this, of e] assms(2) obtain c1 where
    c1: "CalculatorPopChar c e = (c1, hd ?r, 0)" "op_stack c1 (tl ?r)" by (cases ops) auto
  from close_paren_run [OF c1(2) refl assms a(2)] obtain c' where
    "close_paren c1 out N (hd ?r) = (c', out @ flushed ops, CHR ''('', 0)" "op_stack c' S" by blast
  with c1 a(2) show "\<exists>c' e'. op_stack c' S \<and>
      ConvertInfixToPrefix_loop ('')'' @ rest) N c out e = ConvertInfixToPrefix_loop rest N c' (out @ flushed ops) e'"
    by auto
qed

text \<open>\<open>||\<close> writes the operators above the next parenthesis.\<close>

lemma HandleOperationOr_run:
  assumes "op_stack c (ops @ S)" "ops @ S \<noteq> []" "CHR ''('' \<notin> set ops" "S = [] \<or> hd S = CHR ''(''"
    and "length ops + length S < 99" "length (out @ flushed ops) < N"
  shows "\<exists>c'. HandleOperationOr_loop c out N e = (c', out @ flushed ops, 0) \<and> op_stack c' S"
  using assms
proof (induction ops arbitrary: c out e)
  case Nil
  then obtain S' where S: "S = CHR ''('' # S'" by (cases S) auto
  from op_pop [of c "CHR ''(''" S' e] Nil S obtain c1 where
    c1: "CalculatorPopChar c e = (c1, CHR ''('', 0)" "op_stack c1 S'" by auto
  from op_push [OF c1(2), of "CHR ''(''"] Nil S obtain c2 where
    "CalculatorPushChar c1 (CHR ''('') = (c2, 0)" "op_stack c2 S" by auto
  with c1 show ?case by (subst HandleOperationOr_loop.simps) simp
next
  case (Cons x ops)
  from op_pop [of c x "ops @ S" e] Cons.prems obtain c1 where
    c1: "CalculatorPopChar c e = (c1, x, 0)" "op_stack c1 (ops @ S)" by auto
  show ?case
  proof (cases "ops @ S = []")
    case True
    with c1 Cons.prems op_length [OF c1(2)] show ?thesis
      by (subst HandleOperationOr_loop.simps) (auto simp: PrefixAdd_def)
  next
    case False
    with Cons.IH [OF c1(2), of "out @ [CHR '' '', x, CHR '' '']" x] Cons.prems c1(1) op_length [OF c1(2)] show ?thesis
      by (subst HandleOperationOr_loop.simps) (auto simp: PrefixAdd_def)
  qed
qed

lemma converts_or:
  assumes "CHR ''('' \<notin> set ops" "S = [] \<or> hd S = CHR ''(''" "length ops + length S < 99"
  shows "converts N ''||'' (ops @ S) (CHR ''|'' # S) ('' '' @ flushed ops)"
  unfolding converts_def
proof (intro allI impI)
  fix rest c e and out :: string assume a: "op_stack c (ops @ S)" "length (out @ '' '' @ flushed ops) < N"
  obtain c1 where c1: "HandleOperationOr c out N = Some (fst (CalculatorPushChar c1 (CHR ''|'')), out @ '' '' @ flushed ops, 0)"
      "op_stack c1 S"
  proof (cases "ops @ S = []")
    case True
    with a op_length [OF a(1)] show ?thesis by (intro that [of c]) (auto simp: HandleOperationOr_def prefix_put_def)
  next
    case False
    from HandleOperationOr_run [OF a(1) False assms, of "out @ '' ''" N "CHR 0x00"] a(2) obtain c' where
      "HandleOperationOr_loop c (out @ '' '') N (CHR 0x00) = (c', out @ '' '' @ flushed ops, 0)" "op_stack c' S" by auto
    with False a op_length [OF a(1)] show ?thesis by (intro that [of c']) (auto simp: HandleOperationOr_def prefix_put_def)
  qed
  from op_push [OF c1(2), of "CHR ''|''"] assms(3) obtain c2 where
    "CalculatorPushChar c1 (CHR ''|'') = (c2, 0)" "op_stack c2 (CHR ''|'' # S)" by auto
  with c1(1) a(2) show "\<exists>c' e'. op_stack c' (CHR ''|'' # S) \<and>
      ConvertInfixToPrefix_loop (''||'' @ rest) N c out e = ConvertInfixToPrefix_loop rest N c' (out @ '' '' @ flushed ops) e'"
    by auto
qed


lemma no_paren: "CHR ''('' \<notin> set (pending l e)"
  using pending_ops [of l e] by auto

lemma plain_text: "list_all plain_char x \<Longrightarrow> list_all (\<lambda>c. c \<notin> set ''()|&'') x"
  by (auto simp: list_all_iff plain_char_def)

lemma converts_blank: "converts N '' '' S S '' ''"
  by (rule converts_char) simp

lemma converts_And:
  assumes a: "converts N (cond_text 2 a) S S (written 2 a)"
    and b: "converts N (cond_text 1 b) (CHR ''&'' # S) (pending 1 b @ CHR ''&'' # S) (written 1 b)"
    and S: "length S < 99"
  shows "converts N (cond_text 2 a @ '' && '' @ cond_text 1 b) S ((pending 1 b @ ''&'') @ S) (written 2 a @ ''   '' @ written 1 b)"
  using converts_append [OF converts_append [OF converts_append [OF converts_append
      [OF a converts_blank] converts_and [OF S]] converts_blank] b] by simp

lemma converts_Or:
  assumes a: "converts N (cond_text 0 a) S (pending 0 a @ S) (written 0 a)"
    and b: "converts N (cond_text 1 b) (CHR ''|'' # S) (pending 1 b @ CHR ''|'' # S) (written 1 b)"
    and S: "S = [] \<or> hd S = CHR ''(''" "operators a + length S < 99"
  shows "converts N (cond_text 0 a @ '' || '' @ cond_text 1 b) S ((pending 1 b @ ''|'') @ S)
    (written 0 a @ ''  '' @ flushed (pending 0 a) @ '' '' @ written 1 b)"
proof -
  have "length (pending 0 a) + length S < 99" using S(2) pending_length [of 0 a] by simp
  from converts_append [OF converts_append [OF converts_append [OF converts_append
      [OF a converts_blank] converts_or [OF no_paren S(1) this]] converts_blank] b] show ?thesis by simp
qed

lemma converts_parens:
  assumes "converts N x (CHR ''('' # S) (ops @ CHR ''('' # S) u" "CHR ''('' \<notin> set ops" "length ops + length S < 99"
  shows "converts N (''('' @ x @ '')'') S S (u @ flushed ops)"
  using converts_append [OF converts_open [of S N] converts_append [OF assms(1) converts_close [OF assms(2,3)]]] assms(3)
  by simp

lemma converts_expr:
  assumes "plain e" "length S + 2 * operators e < 99" "l = 0 \<longrightarrow> S = [] \<or> hd S = CHR ''(''" "l \<le> 2"
  shows "converts N (cond_text l e) S (pending l e @ S) (written l e)"
  using assms
proof (induction e arbitrary: l S)
  case (Atom n v)
  then have "list_all (\<lambda>c. c \<notin> set ''()|&'') (n @ ''='' @ v)" using plain_text by (simp add: list_all_append)
  from converts_text [OF this] show ?case by simp
next
  case (And a b)
  have body: "converts N (cond_text 2 a @ '' && '' @ cond_text 1 b) S ((pending 1 b @ ''&'') @ S) (written 2 a @ ''   '' @ written 1 b)"
    if "length S + 2 * (operators a + operators b) + 1 < 99" for S
  proof (rule converts_And)
    show "converts N (cond_text 2 a) S S (written 2 a)"
      using And.IH(1) [of S 2] And.prems(1) that by (cases a) auto
    show "converts N (cond_text 1 b) (CHR ''&'' # S) (pending 1 b @ CHR ''&'' # S) (written 1 b)"
      using And.IH(2) [of "CHR ''&'' # S" 1] And.prems(1) that by simp
  qed (use that in simp)
  show ?case
  proof (cases "l \<le> 1")
    case True
    with body [of S] And.prems(2) show ?thesis by simp
  next
    case False
    have "length (pending 1 b @ ''&'') + length S < 99" using pending_length [of 1 b] And.prems(2) by simp
    with False converts_parens [OF body [of "CHR ''('' # S"], unfolded append_assoc] And.prems(2) no_paren [of 1 b] show ?thesis by simp
  qed
next
  case (Or a b)
  have body: "converts N (cond_text 0 a @ '' || '' @ cond_text 1 b) S ((pending 1 b @ ''|'') @ S)
      (written 0 a @ ''  '' @ flushed (pending 0 a) @ '' '' @ written 1 b)"
    if "length S + 2 * (operators a + operators b) + 1 < 99" "S = [] \<or> hd S = CHR ''(''" for S
  proof (rule converts_Or)
    show "converts N (cond_text 0 a) S (pending 0 a @ S) (written 0 a)"
      using Or.IH(1) [of S 0] Or.prems(1) that by simp
    show "converts N (cond_text 1 b) (CHR ''|'' # S) (pending 1 b @ CHR ''|'' # S) (written 1 b)"
      using Or.IH(2) [of "CHR ''|'' # S" 1] Or.prems(1) that by simp
  qed (use that in simp_all)
  show ?case
  proof (cases "l = 0")
    case True
    with body [of S] Or.prems show ?thesis by simp
  next
    case False
    have "length (pending 1 b @ ''|'') + length S < 99" using pending_length [of 1 b] Or.prems(2) by simp
    with False converts_parens [OF body [of "CHR ''('' # S"], unfolded append_assoc] Or.prems(2) no_paren [of 1 b] show ?thesis by simp
  qed
qed

lemma flush_operators_run:
  assumes "op_stack c ops" "length ops < 99" "length (out @ flushed ops) < N"
  shows "flush_operators c out N e = (out @ flushed ops, 0)"
  using assms
proof (induction ops arbitrary: c out e)
  case Nil
  with op_length [OF Nil(1)] show ?case by (simp add: flush_operators.simps)
next
  case (Cons x ops)
  from op_pop [OF Cons.prems(1), of e] Cons.prems(2) obtain c' where
    c': "CalculatorPopChar c e = (c', x, 0)" "op_stack c' ops" by auto
  from Cons.IH [OF c'(2), of "out @ [CHR '' '', x, CHR '' '']" x] c'(1) Cons.prems op_length [OF Cons.prems(1)] show ?case
    by (subst flush_operators.simps) (simp add: PrefixAdd_def)
qed

lemma ConvertInfixToPrefix_postfix:
  assumes "plain e" "2 * operators e < 99" "2 * length (cond_text 0 e) < N"
  shows "ConvertInfixToPrefix (cond_text 0 e) N = Some (postfix_text e, 0)"
proof -
  let ?c = "fst (CalculatorInit (CHR 0x00) fresh_calculator MAX_CALC_PARAM 1)"
  have c: "op_stack ?c []" by (simp add: op_stack_def stack_of_def CalculatorInit_def)
  have len: "length (written 0 e @ flushed (pending 0 e)) < N"
    using assms(3) postfix_length [of e] unfolding postfix_text_def by linarith
  from convertsD [OF converts_expr [OF assms(1), of "[]" 0 N] c, of "[]" "[]" "CHR 0x00"] assms(2) len obtain c' e' where
    c': "op_stack c' (pending 0 e)"
      "ConvertInfixToPrefix_loop (cond_text 0 e) N ?c [] (CHR 0x00) = Some (c', written 0 e, e', True)" by auto
  have "flush_operators c' (written 0 e) N e' = (postfix_text e, 0)"
    unfolding postfix_text_def using pending_length [of 0 e] assms(2) len by (intro flush_operators_run [OF c'(1)]) simp_all
  with c'(2) len show ?thesis
    by (simp add: ConvertInfixToPrefix_def CalculatorInit_def prefix_put_def postfix_text_def)
qed


subsection \<open>Operands\<close>

lemma strstr_eq: "CHR ''='' \<notin> set n \<Longrightarrow> strstr (n @ CHR ''='' # r) ''='' = Some (CHR ''='' # r)"
  by (induction n) auto

lemma GetValueFromContent_run:
  assumes "CHR ''='' \<notin> set x" "length val + length x < k"
    and "length p + length x = m \<or> length p + length x < m \<and> take 1 r = ''=''"
  shows "GetValueFromContent_loop (p @ x @ r) m (length p) k val = Some (val @ x, 0)"
  using assms
proof (induction x arbitrary: p val)
  case Nil
  then show ?case
    by (subst GetValueFromContent_loop.simps) (auto simp: char_at_def nth_append hd_conv_nth take_Suc split: if_splits)
next
  case (Cons c x)
  from Cons.IH [of "val @ [c]" "p @ [c]"] Cons.prems show ?case
    by (subst GetValueFromContent_loop.simps) (auto simp: char_at_def nth_append)
qed

definition same_stack :: "'a LogicCalculator \<Rightarrow> 'a LogicCalculator \<Rightarrow> bool" where
  "same_stack c c' = (lc_data c' = lc_data c \<and> lc_endIndex c' = lc_endIndex c \<and> lc_dataNumber c' = lc_dataNumber c)"

text \<open>An entry of the calculator computes to a truth value.\<close>

definition entry_value_is :: "bool \<Rightarrow> ParamWorkSpace \<Rightarrow> string \<Rightarrow> LogicData \<Rightarrow> bool \<Rightarrow> bool" where
  "entry_value_is musl pw condition d b = (\<forall>c. \<exists>c'. same_stack c c' \<and>
     ComputeSubCondition musl pw c d condition = Some (c', if b then 1 else 0))"

lemma entry_flag: "entry_value_is musl pw condition (d\<lparr>ld_flags := if b then LOGIC_DATA_FLAGS_TRUE else 0\<rparr>) b"
  by (auto simp: entry_value_is_def ComputeSubCondition_def LOGIC_DATA_TEST_FLAG_def same_stack_def)

text \<open>init reads every parameter.\<close>

definition privileged :: "ParamWorkSpace \<Rightarrow> bool" where
  "privileged pw = (pw_inv pw \<and> pw_checkParamPermission pw \<and> uc_uid (sl_cred (pw_securityLabel pw)) = 0)"

lemma privileged_read:
  "privileged pw \<Longrightarrow> SystemReadParam musl pw name True len = Some (read_result (space_params pw name) len)"
  using CheckParamPermission_root SystemReadParam_result
  by (simp add: privileged_def GetParamSecurityLabel_def)

lemma CompareValue_01: "CompareValue v x \<noteq> 1 \<Longrightarrow> CompareValue v x = 0"
  by (auto simp: CompareValue_def split: option.splits if_splits)

lemma entry_atom:
  assumes "plain (Atom n v)" "privileged pw"
    and cond: "condition = pre @ n @ ''='' @ v @ post" and post: "post = [] \<or> hd post = CHR '' ''"
  shows "entry_value_is musl pw condition
    \<lparr>ld_flags = LOGIC_DATA_FLAGS_ORIGINAL, ld_startIndex = length pre, ld_endIndex = length pre + (length n + 1 + length v)\<rparr>
    (holds (space_params pw) (Atom n v))"
proof -
  have no_eq: "CHR ''='' \<notin> set n" "CHR ''='' \<notin> set v" and no_nul: "CHR 0x00 \<notin> set n" "CHR 0x00 \<notin> set v"
    and len: "length n < 128" "length v < 128" "n \<noteq> []"
    using assms(1) by (auto simp: list_all_iff plain_char_def)
  let ?operand = "n @ ''='' @ v @ post"
  have at: "strstr_at condition (length pre) ''='' = Some (length pre + length n)"
    using strstr_eq [OF no_eq(1), of "v @ post"] by (simp add: strstr_at_def cond)
  have name: "GetValueFromContent ?operand (length n + 1 + length v) 0 128 = Some (n, 0)"
    using GetValueFromContent_run [OF no_eq(1), of "[]" 128 "[]" "length n + 1 + length v" "''='' @ v @ post"] len no_nul
    by (simp add: GetValueFromContent_def takeWhile_eq_all_conv) blast
  have content: "GetValueFromContent ?operand (length n + 1 + length v) (length n + 1) 128 = Some (v, 0)"
    using GetValueFromContent_run [OF no_eq(2), of "[]" 128 "n @ ''=''" "length n + 1 + length v" post] len no_nul
    by (simp add: GetValueFromContent_def takeWhile_eq_all_conv) blast
  show ?thesis
    unfolding entry_value_is_def
  proof
    fix c :: "LogicData LogicCalculator"
    have d: "drop (length pre) condition = ?operand" by (simp add: cond)
    show "\<exists>c'. same_stack c c' \<and> ComputeSubCondition musl pw c
        \<lparr>ld_flags = LOGIC_DATA_FLAGS_ORIGINAL, ld_startIndex = length pre, ld_endIndex = length pre + (length n + 1 + length v)\<rparr>
        condition = Some (c', if holds (space_params pw) (Atom n v) then 1 else 0)"
      using at name content len privileged_read [OF assms(2), of musl n 128]
      by (cases "space_params pw n")
        (simp_all add: ComputeSubCondition_def LOGIC_DATA_TEST_FLAG_def d read_result_def same_stack_def Let_def CompareValue_01)
  qed
qed


subsection \<open>Evaluation\<close>

datatype tok = Opd string string | Op char

text \<open>A text with the given operands and operators; every operand is followed by a blank.\<close>

inductive renders :: "tok list \<Rightarrow> string \<Rightarrow> bool" where
  nil: "renders [] []"
| blank: "renders ts u \<Longrightarrow> renders ts (CHR '' '' # u)"
| op: "renders ts u \<Longrightarrow> c \<in> set ''|&'' \<Longrightarrow> renders (Op c # ts) (c # u)"
| opd: "renders ts (CHR '' '' # u) \<Longrightarrow> plain (Atom n v) \<Longrightarrow> renders (Opd n v # ts) (n @ ''='' @ v @ CHR '' '' # u)"

fun postfix :: "expr \<Rightarrow> tok list" where
  "postfix (Atom n v) = [Opd n v]"
| "postfix (And a b) = postfix a @ postfix b @ [Op (CHR ''&'')]"
| "postfix (Or a b) = postfix a @ postfix b @ [Op (CHR ''|'')]"

fun run :: "(string \<Rightarrow> string option) \<Rightarrow> tok list \<Rightarrow> bool list \<Rightarrow> bool list option" where
  "run vals [] bs = Some bs"
| "run vals (Opd n v # ts) bs = run vals ts (holds vals (Atom n v) # bs)"
| "run vals (Op c # ts) (y # x # bs) = run vals ts ((if c = CHR ''|'' then x \<or> y else x \<and> y) # bs)"
| "run vals (Op c # ts) bs = None"

lemma run_append: "run vals ts bs = Some bs' \<Longrightarrow> run vals (ts @ us) bs = run vals us bs'"
  by (induction vals ts bs rule: run.induct) auto

lemma run_postfix: "run vals (postfix e) bs = Some (holds vals e # bs)"
  by (induction e arbitrary: bs) (auto simp: run_append)

text \<open>The operators of a level that is not closed come last.\<close>

lemma renders_flushed: "renders ts w \<Longrightarrow> set ops \<subseteq> set ''|&'' \<Longrightarrow> renders (map Op ops @ ts) (flushed ops @ w)"
  by (induction ops) (auto intro!: blank op)

fun early :: "nat \<Rightarrow> expr \<Rightarrow> tok list" where
  "early l (Atom n v) = [Opd n v]"
| "early l (And a b) = postfix a @ early 1 b @ (if l \<le> 1 then [] else map Op (pending 1 b @ ''&''))"
| "early l (Or a b) = postfix a @ early 1 b @ (if l = 0 then [] else map Op (pending 1 b @ ''|''))"

lemma early_pending: "early l e @ map Op (pending l e) = postfix e"
proof (induction e arbitrary: l)
  case (And a b)
  show ?case by (simp flip: And.IH(2) [of 1])
next
  case (Or a b)
  show ?case by (simp flip: Or.IH(2) [of 1])
qed simp

lemma early_2: "early 2 e = postfix e"
  using early_pending [of 2 e] by (cases e) simp_all

lemma flushed_blank: "\<exists>w'. flushed ops @ CHR '' '' # w = CHR '' '' # w'"
  by (cases ops) simp_all

text \<open>The text of an operand and the operators after it.\<close>

lemma renders_last:
  assumes "renders ts (CHR '' '' # w)" "set ops \<subseteq> set ''|&''"
    and b: "\<And>ts w. renders ts (CHR '' '' # w) \<Longrightarrow> renders (early 1 b @ ts) (written 1 b @ CHR '' '' # w)"
  shows "renders (early 1 b @ map Op ops @ ts) (written 1 b @ flushed ops @ CHR '' '' # w)"
proof -
  obtain w' where "flushed ops @ CHR '' '' # w = CHR '' '' # w'" using flushed_blank by blast
  with b [of "map Op ops @ ts" w'] renders_flushed [OF assms(1,2)] show ?thesis by simp
qed

lemma renders_written:
  assumes "plain e" "renders ts (CHR '' '' # w)"
  shows "renders (early l e @ ts) (written l e @ CHR '' '' # w)"
  using assms
proof (induction e arbitrary: l ts w)
  case (Atom n v)
  then show ?case using opd [of ts w n v] by simp
next
  case (And a b)
  let ?o = "if l \<le> 1 then [] else pending 1 b @ ''&''"
  have "set ?o \<subseteq> set ''|&''" using pending_ops [of 1 b] by auto
  from renders_last [OF And.prems(2) this And.IH(2)] And.prems(1)
  have "renders (early 1 b @ map Op ?o @ ts) (CHR '' '' # CHR '' '' # written 1 b @ flushed ?o @ CHR '' '' # w)"
    by (auto intro!: blank)
  from And.IH(1) [OF _ blank [OF this], of 2] And.prems(1) show ?case by (auto simp: early_2)
next
  case (Or a b)
  let ?o = "if l = 0 then [] else pending 1 b @ ''|''"
  have "set ?o \<subseteq> set ''|&''" using pending_ops [of 1 b] by auto
  from renders_last [OF Or.prems(2) this Or.IH(2)] Or.prems(1)
  have "renders (early 1 b @ map Op ?o @ ts) (CHR '' '' # written 1 b @ flushed ?o @ CHR '' '' # w)"
    by (auto intro!: blank)
  from blank [OF blank [OF renders_flushed [OF this pending_ops [of 0 a]]]]
  have "renders (map Op (pending 0 a) @ early 1 b @ map Op ?o @ ts)
      (CHR '' '' # CHR '' '' # flushed (pending 0 a) @ CHR '' '' # written 1 b @ flushed ?o @ CHR '' '' # w)" .
  from Or.IH(1) [OF _ this, of 0] Or.prems(1) show ?case
    by (cases "l = 0") (simp_all flip: early_pending [of 0 a])
qed

lemma renders_postfix:
  assumes "plain e" "operators e > 0"
  shows "renders (postfix e) (postfix_text e)"
proof -
  have "pending 0 e \<noteq> []" using assms(2) by (cases e) simp_all
  then obtain x ops where o: "pending 0 e = x # ops" by (auto simp: neq_Nil_conv)
  have "renders (map Op (pending 0 e)) (flushed (pending 0 e))"
    using renders_flushed [OF nil pending_ops [of 0 e]] by simp
  with renders_written [OF assms(1), of "map Op (pending 0 e)" _ 0] early_pending [of 0 e] show ?thesis
    by (simp add: postfix_text_def o)
qed


text \<open>The values of the entries on the calculator.\<close>

definition value_stack :: "bool \<Rightarrow> ParamWorkSpace \<Rightarrow> string \<Rightarrow> nat \<Rightarrow> LogicData LogicCalculator \<Rightarrow> bool list \<Rightarrow> bool" where
  "value_stack musl pw condition D c bs = (lc_dataNumber c = D \<and>
     (\<exists>S. stack_of c S \<and> list_all2 (entry_value_is musl pw condition) S bs))"

lemma value_push:
  assumes "value_stack musl pw condition D c bs" "entry_value_is musl pw condition d b" "length bs < D"
  shows "\<exists>c'. CalculatorPush c d = (c', 0) \<and> value_stack musl pw condition D c' (b # bs)"
proof -
  from assms(1) obtain S where S: "stack_of c S" "list_all2 (entry_value_is musl pw condition) S bs" "lc_dataNumber c = D"
    by (auto simp: value_stack_def)
  note p = stack_push [OF S(1), of d] S(3) list_all2_lengthD [OF S(2)] assms(3)
  show ?thesis
    by (rule exI [of _ "fst (CalculatorPush c d)"])
      (use p S(2) assms(2) in \<open>auto simp: value_stack_def prod_eq_iff intro!: exI [of _ "d # S"]\<close>)
qed

lemma value_pop:
  assumes "value_stack musl pw condition D c (b # bs)" "length bs + 1 < D"
  shows "\<exists>c' d. CalculatorPop c = (c', Some d) \<and> entry_value_is musl pw condition d b \<and> value_stack musl pw condition D c' bs"
proof -
  from assms(1) obtain d S where S: "stack_of c (d # S)" "list_all2 (entry_value_is musl pw condition) S bs"
      "entry_value_is musl pw condition d b" "lc_dataNumber c = D"
    by (auto simp: value_stack_def list_all2_Cons2)
  note p = stack_pop [OF S(1)] S(4) list_all2_lengthD [OF S(2)] assms(2)
  show ?thesis
    by (rule exI [of _ "fst (CalculatorPop c)"], rule exI [of _ d])
      (use p S(2,3) in \<open>auto simp: value_stack_def prod_eq_iff intro!: exI [of _ S]\<close>)
qed

lemma value_sub:
  assumes "value_stack musl pw condition D c bs" "entry_value_is musl pw condition d b"
  shows "\<exists>c'. ComputeSubCondition musl pw c d condition = Some (c', if b then 1 else 0) \<and> value_stack musl pw condition D c' bs"
proof -
  from assms(2) obtain c' where "same_stack c c'" "ComputeSubCondition musl pw c d condition = Some (c', if b then 1 else 0)"
    unfolding entry_value_is_def by blast
  then show ?thesis using assms(1) by (auto simp: value_stack_def stack_of_def same_stack_def)
qed

lemma compute_operator_run:
  assumes "value_stack musl pw condition D c (y # x # bs)" "length bs + 2 < D" "op \<in> set ''|&''"
  shows "\<exists>c'. compute_operator musl pw condition op c = Some (c', 0) \<and>
    value_stack musl pw condition D c' ((if op = CHR ''|'' then x \<or> y else x \<and> y) # bs)"
proof -
  from value_pop [OF assms(1)] assms(2) obtain c1 d2 where
    1: "CalculatorPop c = (c1, Some d2)" "entry_value_is musl pw condition d2 y" "value_stack musl pw condition D c1 (x # bs)" by auto
  from value_pop [OF 1(3)] assms(2) obtain c2 d1 where
    2: "CalculatorPop c1 = (c2, Some d1)" "entry_value_is musl pw condition d1 x" "value_stack musl pw condition D c2 bs" by auto
  from value_sub [OF 2(3,2)] obtain c3 where
    3: "ComputeSubCondition musl pw c2 d1 condition = Some (c3, if x then 1 else 0)" "value_stack musl pw condition D c3 bs" by auto
  from value_sub [OF 3(2) 1(2)] obtain c4 where
    4: "ComputeSubCondition musl pw c3 d2 condition = Some (c4, if y then 1 else 0)" "value_stack musl pw condition D c4 bs" by auto
  let ?b = "if op = CHR ''|'' then x \<or> y else x \<and> y"
  let ?d = "d1\<lparr>ld_flags := if ?b then LOGIC_DATA_FLAGS_TRUE else 0\<rparr>"
  let ?c = "if op = CHR ''|'' \<and> x \<or> op \<noteq> CHR ''|'' \<and> \<not> x then c3 else c4"
  have "value_stack musl pw condition D ?c bs" using 3(2) 4(2) by simp
  from value_push [OF this entry_flag [where d = d1 and b = ?b]] assms(2) obtain c' where
    "CalculatorPush ?c ?d = (c', 0)" "value_stack musl pw condition D c' (?b # bs)" by auto
  moreover have "compute_operator musl pw condition op c = Some (CalculatorPush ?c ?d)"
    using 1 2 3 4 assms(3) by (auto simp: compute_operator_def Let_def)
  ultimately show ?thesis by auto
qed

lemma scan_operand:
  assumes "condition = pre @ x @ w" "list_all (\<lambda>c. plain_char c \<or> c = CHR ''='') x"
  shows "ComputeCondition_loop musl pw condition (length pre) start nop c =
    ComputeCondition_loop musl pw condition (length pre + length x) start nop c"
  using assms
proof (induction x arbitrary: pre)
  case (Cons a x)
  have "condition ! length pre = a" "length pre < length condition" using Cons.prems(1) by simp_all
  moreover have "\<not> isspace a \<and> a \<noteq> CHR ''|'' \<and> a \<noteq> CHR ''&''" using Cons.prems(2) by (auto simp: plain_char_def isspace_def ascii_def)
  ultimately have "ComputeCondition_loop musl pw condition (length pre) start nop c =
      ComputeCondition_loop musl pw condition (length pre + 1) start nop c"
    by (subst ComputeCondition_loop.simps) simp
  with Cons.IH [of "pre @ [a]"] Cons.prems show ?case by simp
qed simp

lemma skip_blank:
  assumes "condition = pre @ CHR '' '' # w"
  shows "ComputeCondition_loop musl pw condition (length pre) (length pre) nop c =
    ComputeCondition_loop musl pw condition (length pre + 1) (length pre + 1) nop c"
  using assms by (subst ComputeCondition_loop.simps) (simp add: isspace_def ascii_def)

definition only_operands :: "tok list \<Rightarrow> bool" where
  "only_operands = list_all (\<lambda>t. case t of Opd _ _ \<Rightarrow> True | Op _ \<Rightarrow> False)"

fun operands :: "tok list \<Rightarrow> nat" where
  "operands [] = 0"
| "operands (Opd n v # ts) = operands ts + 1"
| "operands (Op c # ts) = operands ts"

lemma operands_append [simp]: "operands (ts @ us) = operands ts + operands us"
  by (induction ts rule: operands.induct) simp_all

lemma operands_postfix: "operands (postfix e) = operators e + 1"
  by (induction e) simp_all

lemma ComputeCondition_loop_run:
  assumes "renders ts u" "condition = pre @ u" "value_stack musl pw condition D c bs" "privileged pw"
    and "run (space_params pw) ts bs = Some bs'" "length bs + operands ts < D"
  shows "\<exists>c' start. ComputeCondition_loop musl pw condition (length pre) (length pre) nop c =
      Some (c', start, nop \<and> only_operands ts, True) \<and> value_stack musl pw condition D c' bs'"
  using assms
proof (induction arbitrary: pre c bs nop)
  case nil
  then show ?case by (auto simp: ComputeCondition_loop.simps only_operands_def)
next
  case (blank ts u)
  from blank.IH [of "pre @ '' ''"] blank.prems skip_blank [OF blank.prems(1)] show ?case by simp
next
  case (op ts u a)
  obtain y x bs1 where bs: "bs = y # x # bs1" using op.prems(4) by (cases bs rule: remdups_adj.cases) auto
  let ?b = "if a = CHR ''|'' then x \<or> y else x \<and> y"
  from compute_operator_run [OF op.prems(2) [unfolded bs] _ op.hyps(2)] op.prems(5) bs obtain c1 where
    c1: "compute_operator musl pw condition a c = Some (c1, 0)" "value_stack musl pw condition D c1 (?b # bs1)" by auto
  have "ComputeCondition_loop musl pw condition (length pre) (length pre) nop c =
      ComputeCondition_loop musl pw condition (length pre + 1) (length pre + 1) False c1"
    using op.prems(1) op.hyps(2) c1(1) by (subst ComputeCondition_loop.simps) auto
  with op.IH [of "pre @ [a]" c1 "?b # bs1" False] op.prems c1(2) bs show ?case by (simp add: only_operands_def)
next
  case (opd ts u n v)
  let ?x = "n @ ''='' @ v" and ?i = "length pre" and ?j = "length pre + (length n + 1 + length v)"
  let ?d = "\<lparr>ld_flags = LOGIC_DATA_FLAGS_ORIGINAL, ld_startIndex = ?i, ld_endIndex = ?j\<rparr>"
  let ?b = "holds (space_params pw) (Atom n v)"
  have "entry_value_is musl pw condition ?d ?b"
    using entry_atom [OF opd.hyps(2) opd.prems(3), of condition pre "CHR '' '' # u"] opd.prems(1) by simp
  from value_push [OF opd.prems(2) this] opd.prems(5) obtain c1 where
    c1: "CalculatorPush c ?d = (c1, 0)" "value_stack musl pw condition D c1 (?b # bs)" by auto
  have "list_all (\<lambda>c. plain_char c \<or> c = CHR ''='') ?x" using opd.hyps(2) by (auto simp: list_all_iff)
  from scan_operand [OF _ this, of condition pre "CHR '' '' # u"] opd.prems(1)
  have "ComputeCondition_loop musl pw condition ?i ?i nop c = ComputeCondition_loop musl pw condition ?j ?i nop c" by simp
  also have "\<dots> = ComputeCondition_loop musl pw condition (?j + 1) (?j + 1) nop c1"
    using opd.prems(1) c1(1) by (subst ComputeCondition_loop.simps) (simp add: nth_append isspace_def ascii_def)
  also have "\<dots> = ComputeCondition_loop musl pw condition (length (pre @ ?x)) (length (pre @ ?x)) nop c1"
    using skip_blank [of condition "pre @ ?x" u] opd.prems(1) by simp
  finally show ?case using opd.IH [of "pre @ ?x" c1 "?b # bs" nop] opd.prems c1(2) by (simp add: only_operands_def)
qed


subsection \<open>No write outside the buffer\<close>

lemma PrefixAdd_cases:
  assumes "PrefixAdd out N op = (out', ret)" "length out < N"
  shows "length out' < N" "ret = 0 \<Longrightarrow> N - length out' < N - length out"
  using assms by (auto simp: PrefixAdd_def split: if_splits)

lemma HandleOperationOr_bound: "length out < N \<Longrightarrow> HandleOperationOr_loop c out N e = (c', out', ret) \<Longrightarrow> length out' < N"
proof (induction "N - length out" arbitrary: c out e rule: less_induct)
  case less
  from less.prems show ?case
    by (subst (asm) HandleOperationOr_loop.simps)
      (auto split: prod.splits if_splits dest: PrefixAdd_cases [OF _ less.prems(1)]
        intro: less.hyps less.prems(1) PrefixAdd_cases [OF _ less.prems(1)])
qed

lemma close_paren_bound: "length out < N \<Longrightarrow> close_paren c out N e = (c', out', e', ret) \<Longrightarrow> length out' < N"
proof (induction "N - length out" arbitrary: c out e rule: less_induct)
  case less
  from less.prems show ?case
    by (subst (asm) close_paren.simps)
      (auto split: prod.splits if_splits intro: less.hyps less.prems(1) PrefixAdd_cases [OF _ less.prems(1)])
qed

lemma flush_operators_bound: "length out < N \<Longrightarrow> flush_operators c out N e = (out', ret) \<Longrightarrow> length out' < N"
proof (induction "N - length out" arbitrary: c out e rule: less_induct)
  case less
  from less.prems show ?case
    by (subst (asm) flush_operators.simps)
      (auto split: prod.splits if_splits intro: less.hyps less.prems(1) PrefixAdd_cases [OF _ less.prems(1)])
qed

definition in_buffer :: "nat \<Rightarrow> (char LogicCalculator \<times> string \<times> char \<times> bool) exec \<Rightarrow> bool" where
  "in_buffer N r = (case r of None \<Rightarrow> False | Some (c, out, e, b) \<Rightarrow> b \<longrightarrow> length out < N)"

lemma in_buffer_Some [simp]: "in_buffer N (Some (c, out, e, b)) \<longleftrightarrow> (b \<longrightarrow> length out < N)"
  by (simp add: in_buffer_def)

lemma ConvertInfixToPrefix_loop_bound: "length out < N \<Longrightarrow> in_buffer N (ConvertInfixToPrefix_loop cs N c out e)"
proof (induction cs arbitrary: c out e rule: length_induct)
  case (1 cs)
  note len = 1(2)
  show ?case
  proof (cases cs)
    case (Cons a cs')
    have IH: "in_buffer N (ConvertInfixToPrefix_loop cs1 N c out e)" if "length cs1 \<le> length cs'" "length out < N" for cs1 c out e
      using 1(1) that Cons by auto
    obtain c1 e1 r1 where p: "CalculatorPopChar c e = (c1, e1, r1)" by (cases "CalculatorPopChar c e")
    obtain c2 out2 e2 r2 where q: "close_paren c1 out N e1 = (c2, out2, e2, r2)" by (cases "close_paren c1 out N e1")
    obtain c3 out3 r3 where h: "HandleOperationOr c out N = Some (c3, out3, r3)"
      using len by (cases "HandleOperationOr_loop c (out @ '' '') N (CHR 0x00)") (force simp: HandleOperationOr_def prefix_put_def)
    show ?thesis using len p q h IH by (simp add: Cons prefix_put_def Let_def)
  qed (use len in simp)
qed

subsection \<open>The properties\<close>

lemma ConvertInfixToPrefix_bounded:
  assumes "prefixLen > 0"
  shows "\<exists>out ret. ConvertInfixToPrefix condition prefixLen = Some (out, ret) \<and> (ret = 0 \<longrightarrow> length out < prefixLen)"
proof -
  obtain c' out' e' b where l: "ConvertInfixToPrefix_loop condition prefixLen
      (fst (CalculatorInit (CHR 0x00) fresh_calculator MAX_CALC_PARAM 1)) [] (CHR 0x00) = Some (c', out', e', b)"
      "b \<longrightarrow> length out' < prefixLen"
    using ConvertInfixToPrefix_loop_bound [of "[]" prefixLen condition
      "fst (CalculatorInit (CHR 0x00) fresh_calculator MAX_CALC_PARAM 1)" "CHR 0x00"] assms
    by (auto simp: in_buffer_def split: option.splits)
  obtain out ret where f: "flush_operators c' out' prefixLen e' = (out, ret)" by (cases "flush_operators c' out' prefixLen e'")
  show ?thesis using l f flush_operators_bound [OF _ f]
    by (cases b) (auto simp: ConvertInfixToPrefix_def CalculatorInit_def prefix_put_def)
qed

text \<open>C13: The conversion of any condition returns, and writes nothing outside the buffer, whatever its parentheses
  and operators are. A condition it accepts fits the buffer with its terminator.\<close>

theorem ConvertInfixToPrefix_in_bounds:
  assumes "prefixLen > 0"
  shows "\<exists>out ret. ConvertInfixToPrefix condition prefixLen = Some (out, ret) \<and> (ret = 0 \<longrightarrow> length out < prefixLen)"
  using assms by (rule ConvertInfixToPrefix_bounded)

theorem ConvertInfixToPrefix_in_bounds_witness:
  "(8 :: nat) > 0 \<and> (\<exists>out ret. ConvertInfixToPrefix ''a))||&&(b'' 8 = Some (out, ret) \<and> (ret = 0 \<longrightarrow> length out < 8))"
  using ConvertInfixToPrefix_in_bounds [of 8 "''a))||&&(b''"] by simp

text \<open>The calculator with the stack of a trigger's condition.\<close>

definition ready :: "LogicData LogicCalculator \<Rightarrow> bool" where
  "ready c = (lc_dataNumber c = 64 \<and> length (lc_data c) = 64)"

lemma value_stack_ready: "value_stack musl pw condition 64 c bs \<Longrightarrow> ready c"
  by (auto simp: value_stack_def stack_of_def ready_def)

lemma ComputeCondition_holds:
  assumes "plain e" "2 * operators e < 99" "privileged pw" "ready calculator"
  shows "\<exists>c'. ComputeCondition musl pw calculator (postfix_text e) = Some (c', if holds (space_params pw) e then 1 else 0) \<and> ready c'"
proof -
  let ?out = "postfix_text e"
  have c: "value_stack musl pw ?out 64 (CalculatorClear calculator) []"
    using assms(4) by (auto simp: ready_def CalculatorClear_def value_stack_def stack_of_def)
  show ?thesis
  proof (cases "operators e = 0")
    case True
    then obtain n v where e: "e = Atom n v" by (cases e) auto
    have "list_all (\<lambda>c. plain_char c \<or> c = CHR ''='') (n @ ''='' @ v)" using assms(1) e by (auto simp: list_all_iff)
    from scan_operand [OF _ this, of ?out "[]" "[]"]
    have "ComputeCondition_loop musl pw ?out 0 0 True (CalculatorClear calculator) = Some (CalculatorClear calculator, 0, True, True)"
      by (simp add: e postfix_text_def ComputeCondition_loop.simps)
    moreover have v: "entry_value_is musl pw ?out \<lparr>ld_flags = LOGIC_DATA_FLAGS_ORIGINAL, ld_startIndex = 0, ld_endIndex = length ?out\<rparr>
        (holds (space_params pw) e)"
      using entry_atom [of n v pw ?out "[]" "[]" musl] assms(1,3) e by (simp add: postfix_text_def)
    ultimately show ?thesis using value_sub [OF c v] value_stack_ready by (auto simp: ComputeCondition_def)
  next
    case False
    have no: "\<not> only_operands (postfix e)" using False by (cases e) (auto simp: only_operands_def)
    from ComputeCondition_loop_run [OF renders_postfix [OF assms(1)], of ?out "[]" musl pw 64 "CalculatorClear calculator" "[]"
        "[holds (space_params pw) e]" True] False c assms(2,3) run_postfix [of "space_params pw" e "[]"] no
    obtain c1 start where 1: "ComputeCondition_loop musl pw ?out 0 0 True (CalculatorClear calculator) = Some (c1, start, False, True)"
        "value_stack musl pw ?out 64 c1 [holds (space_params pw) e]"
      by (auto simp: operands_postfix)
    from value_pop [OF 1(2)] obtain c2 d where
      2: "CalculatorPop c1 = (c2, Some d)" "entry_value_is musl pw ?out d (holds (space_params pw) e)" "value_stack musl pw ?out 64 c2 []"
      by auto
    from value_sub [OF 2(3,2)] 1(1) 2(1) value_stack_ready show ?thesis by (auto simp: ComputeCondition_def)
  qed
qed

text \<open>The name of the parameter that changed stays while conditions are evaluated.\<close>

definition input_is :: "string option \<Rightarrow> ('a LogicCalculator \<times> 'b) exec \<Rightarrow> bool" where
  "input_is i r = (\<forall>c x. r = Some (c, x) \<longrightarrow> lc_inputName c = i)"

lemma input_is_bind: "(\<And>x. m = Some x \<Longrightarrow> input_is i (f x)) \<Longrightarrow> input_is i (m \<bind> f)"
  by (cases m) (simp_all add: input_is_def)

lemma input_is_Some [simp]: "input_is i (Some (c, x)) \<longleftrightarrow> lc_inputName c = i"
  by (simp add: input_is_def)

lemma input_is_None [simp]: "input_is i None"
  by (simp add: input_is_def)

lemma ComputeSubCondition_input: "lc_inputName c = i \<Longrightarrow> input_is i (ComputeSubCondition musl pw c d condition)"
  unfolding ComputeSubCondition_def Let_def by (auto intro!: input_is_bind split: prod.split option.split)

lemma calculator_input [simp]: "lc_inputName (fst (CalculatorPop c)) = lc_inputName c" "lc_inputName (fst (CalculatorPush c d)) = lc_inputName c"
  "lc_inputName (CalculatorClear c) = lc_inputName c"
  by (simp_all add: CalculatorPop_def CalculatorPush_def CalculatorClear_def)

lemma input_is_step:
  "input_is i m \<Longrightarrow> (\<And>c x. lc_inputName c = i \<Longrightarrow> input_is i (f c x)) \<Longrightarrow> input_is i (m \<bind> (\<lambda>(c, x). f c x))"
  by (cases m) (auto simp: input_is_def, metis)

lemma input_is_if: "(b \<Longrightarrow> input_is i x) \<Longrightarrow> (\<not> b \<Longrightarrow> input_is i y) \<Longrightarrow> input_is i (if b then x else y)"
  by simp

lemma input_is_push: "lc_inputName c = i \<Longrightarrow> input_is i (Some (CalculatorPush c d))"
  using calculator_input(2) [of c d] by (cases "CalculatorPush c d") simp

lemma compute_operator_input:
  assumes "lc_inputName c = i"
  shows "input_is i (compute_operator musl pw condition op c)"
proof -
  obtain c1 d2 where 1: "CalculatorPop c = (c1, d2)" by (cases "CalculatorPop c")
  obtain c2 d1 where 2: "CalculatorPop c1 = (c2, d1)" by (cases "CalculatorPop c1")
  have c2: "lc_inputName c2 = i" using calculator_input(1) [of c] calculator_input(1) [of c1] 1 2 assms by simp
  show ?thesis
  proof (cases "d1 = None \<or> d2 = None")
    case True
    then show ?thesis using c2 by (auto simp: compute_operator_def 1 2 split: option.split)
  next
    case False
    then obtain x y where "d1 = Some x" "d2 = Some y" by auto
    with c2 show ?thesis
      unfolding compute_operator_def
      by (simp only: 1 2 Let_def prod.case option.case)
        (intro input_is_step input_is_if input_is_push ComputeSubCondition_input, simp_all)
  qed
qed

lemma ComputeCondition_loop_input:
  "lc_inputName c = i \<Longrightarrow> input_is i (ComputeCondition_loop musl pw condition j start nop c)"
proof (induction musl pw condition j start nop c rule: ComputeCondition_loop.induct)
  case (1 musl pw condition j start nop c)
  have op: "input_is i (compute_operator musl pw condition (condition ! j) c)" by (rule compute_operator_input [OF "1.prems"])
  let ?d = "\<lparr>ld_flags = LOGIC_DATA_FLAGS_ORIGINAL, ld_startIndex = start, ld_endIndex = j\<rparr>"
  obtain c1 r1 where p: "CalculatorPush c ?d = (c1, r1)" by (cases "CalculatorPush c ?d")
  have c1: "lc_inputName c1 = i" using calculator_input(2) [of c ?d] p "1.prems" by simp
  show ?case
  proof (cases "compute_operator musl pw condition (condition ! j) c")
    case None
    with p c1 "1.prems" "1.IH" show ?thesis by (subst ComputeCondition_loop.simps) (simp add: Let_def)
  next
    case (Some r)
    then obtain c2 r2 where r: "r = (c2, r2)" by (cases r)
    with op Some have c2: "lc_inputName c2 = i" by simp
    with p c1 "1.prems" "1.IH" Some r show ?thesis by (subst ComputeCondition_loop.simps) (simp add: Let_def)
  qed
qed

lemma ComputeCondition_input:
  assumes "ComputeCondition musl pw c condition = Some (c', x)"
  shows "lc_inputName c' = lc_inputName c"
proof -
  have "input_is (lc_inputName c) (ComputeCondition musl pw c condition)"
    unfolding ComputeCondition_def
  proof (rule input_is_step [OF ComputeCondition_loop_input])
    show "lc_inputName (CalculatorClear c) = lc_inputName c" by simp
    fix c1 :: "LogicData LogicCalculator" and x assume "lc_inputName c1 = lc_inputName c"
    moreover have "lc_inputName (fst (CalculatorPop c1)) = lc_inputName c1" by simp
    ultimately show "input_is (lc_inputName c) (case x of (start, noneOper, finished) \<Rightarrow>
       (if \<not> finished then Some (c1, - 1)
        else if noneOper then ComputeSubCondition musl pw c1
          \<lparr>ld_flags = LOGIC_DATA_FLAGS_ORIGINAL, ld_startIndex = start, ld_endIndex = length condition\<rparr> condition
        else let (calculator, data1) = CalculatorPop c1 in case data1 of None \<Rightarrow> Some (calculator, - 1)
          | Some data1 \<Rightarrow> ComputeSubCondition musl pw calculator data1 condition))"
      by (cases "CalculatorPop c1") (auto split: prod.split option.split intro!: ComputeSubCondition_input simp: Let_def)
  qed
  with assms show ?thesis by (simp add: input_is_def)
qed

text \<open>C12: Converting a condition and evaluating the result gives the truth value of the condition over the parameters,
  with \<open>&&\<close> binding stronger than \<open>||\<close> and parentheses as written. The limits are those of the two calculators and of
  the buffer: fewer than 50 operators, and a buffer of twice the length of the condition.\<close>

theorem condition_correct:
  assumes "plain e" and "2 * operators e < 99" and "2 * length (cond_text 0 e) < prefixLen"
    and "privileged pw"
    and "CalculatorInit \<lparr>ld_flags = 0, ld_startIndex = 0, ld_endIndex = 0\<rparr> c0 64 sizeof_LogicData = (calculator, 0)"
  shows "\<exists>out calculator'. ConvertInfixToPrefix (cond_text 0 e) prefixLen = Some (out, 0) \<and>
    ComputeCondition musl pw calculator out = Some (calculator', if holds (space_params pw) e then 1 else 0)"
proof -
  have "ready calculator" using assms(5) by (auto simp: CalculatorInit_def ready_def)
  from ComputeCondition_holds [OF assms(1,2,4) this] ConvertInfixToPrefix_postfix [OF assms(1-3)] show ?thesis by blast
qed

text \<open>A calculator as the trigger manager sets it up.\<close>

definition demo_calculator :: "string \<Rightarrow> LogicData LogicCalculator" where
  "demo_calculator content = \<lparr>lc_triggerContent = content, lc_dataNumber = 64, lc_endIndex = 0, lc_dataUnit = sizeof_LogicData,
     lc_conditionName = [], lc_conditionContent = [], lc_inputName = Some [], lc_inputContent = Some [], lc_readContent = [],
     lc_data = replicate 64 \<lparr>ld_flags = 0, ld_startIndex = 0, ld_endIndex = 0\<rparr>\<rparr>"

lemma demo_privileged: "privileged demo_pw"
  using demo_pw_inv(1) by (simp add: privileged_def demo_pw_def)

theorem condition_correct_witness:
  "space_params demo_pw ''a.b'' = Some ''v'' \<and>
   (\<exists>out calculator. ConvertInfixToPrefix ''a.b=v && (c=1 || a.b=*)'' 100 = Some (out, 0) \<and>
     ComputeCondition True demo_pw (demo_calculator []) out = Some (calculator, 1))"
proof -
  let ?e = "And (Atom ''a.b'' ''v'') (Or (Atom ''c'' ''1'') (Atom ''a.b'' ''*''))"
  have "plain ?e" "2 * operators ?e < 99" "2 * length (cond_text 0 ?e) < 100"
    by (simp_all add: plain_char_def isspace_def ascii_def)
  moreover have "CalculatorInit \<lparr>ld_flags = 0, ld_startIndex = 0, ld_endIndex = 0\<rparr> (demo_calculator []) 64 sizeof_LogicData =
      (demo_calculator [], 0)" by (simp add: CalculatorInit_def demo_calculator_def)
  moreover have "holds (space_params demo_pw) ?e"
    by (simp add: demo_pw_inv(2) CompareValue_def)
  ultimately show ?thesis using condition_correct [of ?e 100 demo_pw _ "demo_calculator []" True] demo_privileged demo_pw_inv(2)
    by simp
qed

text \<open>A trigger is only evaluated for a parameter that its condition compares: the name occurs in the condition at the
  start of an operand and an equals sign follows it.\<close>

theorem CheckMatchSubCondition_sound:
  assumes "CheckMatchSubCondition condition name (length name)"
  shows "\<exists>k. prefix (name @ ''='') (drop k condition) \<and> (k = 0 \<or> condition ! (k - 1) = CHR '' '')"
proof -
  have "CheckMatchSubCondition_loop condition input len t \<Longrightarrow> input = name \<Longrightarrow> len = length name \<Longrightarrow>
      (\<forall>k. t = Some k \<longrightarrow> prefix name (drop k condition)) \<Longrightarrow> ?thesis" for input len t
  proof (induction condition input len t rule: CheckMatchSubCondition_loop.induct)
    case (2 condition input len tmp)
    have at: "\<forall>k. strstr_at condition (tmp + 1) input = Some k \<longrightarrow> prefix name (drop k condition)"
      using 2(2-4) strstr_at_Some [of condition "tmp + 1" input] by (auto split: if_splits)
    show ?case
    proof (cases "tmp = 0 \<or> condition ! (tmp - 1) = CHR '' ''")
      case True
      from 2(2,4) have "tmp + length name < length condition" "condition ! (tmp + length name) = CHR ''=''"
        by (auto split: if_splits)
      moreover from 2(3,5) obtain w where "drop tmp condition = name @ w" by (auto simp: prefix_def)
      ultimately have "prefix (name @ ''='') (drop tmp condition)"
        by (cases w) (auto simp: nth_append dest: arg_cong [where f = length] arg_cong [where f = "\<lambda>x. x ! length name"])
      with True show ?thesis by blast
    next
      case False
      with 2 at show ?thesis by (auto split: if_splits)
    qed
  qed simp
  from this [OF assms [unfolded CheckMatchSubCondition_def] refl refl] show ?thesis
    using strstr_at_Some [of condition 0 name] by auto
qed

theorem CheckMatchSubCondition_sound_witness:
  "CheckMatchSubCondition ''a.b=v   c=1 & '' ''c'' 1 \<and>
   (\<exists>k. prefix (''c'' @ ''='') (drop k ''a.b=v   c=1 & '') \<and> (k = 0 \<or> ''a.b=v   c=1 & '' ! (k - 1) = CHR '' ''))"
proof -
  have "CheckMatchSubCondition ''a.b=v   c=1 & '' ''c'' (length ''c'')" by (simp add: CheckMatchSubCondition_def strstr_at_def)
  with CheckMatchSubCondition_sound [OF this] show ?thesis by simp
qed



text \<open>An operand without an equals sign is the name of the trigger only where a comparison follows it. As the last
  operand it is read as a parameter, and the same condition holds in one order and fails in the other.\<close>

theorem trigger_name_position:
  "map_option snd (ComputeCondition True demo_pw (demo_calculator ''boot'') ''boot   a.b=v & '') = Some 1 \<and>
   map_option snd (ComputeCondition True demo_pw (demo_calculator ''boot'') ''a.b=v   boot & '') = Some 0"
  by (simp add: ComputeCondition_def ComputeCondition_loop.simps demo_calculator_def CalculatorClear_def CalculatorPush_def
      CalculatorPop_def compute_operator_def ComputeSubCondition_def LOGIC_DATA_TEST_FLAG_def strstr_at_def isspace_def
      ascii_def strncmp_eq_def GetValueFromContent_def GetValueFromContent_loop.simps char_at_def CompareValue_def
      privileged_read [OF demo_privileged] read_result_def demo_pw_inv(2) Let_def)

end
