(* ===== verification/Trigger_Jobs.thy ===== *)
theory Trigger_Jobs
  imports Trigger_Queue Trigger_Condition
begin

text \<open>
  The registry of triggers: its invariant, and what adding, finding and freeing a trigger do. Jobs are found through the hash
  map, whose laws are those of \<^verbatim>\<open>hash_keys\<close> for the comparison and hash functions of jobs.
\<close>

subsection \<open>The hash functions of jobs\<close>

lemma strcmp_zero [simp]: "strcmp a b = 0 \<longleftrightarrow> a = b"
  by (induction a b rule: strcmp.induct) auto

text \<open>A name whose hash code is far from the limits of \<^verbatim>\<open>int\<close>.\<close>

definition good_name :: "string \<Rightarrow> bool" where
  "good_name name = (length name < 1000000)"

lemma JobNodeGetKeyHasCode_bounds:
  "- 65 * int (length k) \<le> JobNodeGetKeyHasCode k \<and> JobNodeGetKeyHasCode k \<le> 190 * int (length k)"
proof -
  have "a - 65 * int (length k) \<le> foldl (\<lambda>code c. code + (int (ascii c) - 65)) a k \<and>
      foldl (\<lambda>code c. code + (int (ascii c) - 65)) a k \<le> a + 190 * int (length k)" for a
  proof (induction k arbitrary: a)
    case (Cons c k)
    have "ascii c < 256" by (simp add: ascii_def)
    with Cons.IH [of "a + (int (ascii c) - 65)"] show ?case by auto
  qed simp
  from this [of 0] show ?thesis by (simp add: JobNodeGetKeyHasCode_def)
qed

interpretation jobs: hash_keys job_info job_name good_name
proof
  fix mem a b and k :: string
  show "hi_nodeCompare job_info mem a b = 0 \<longleftrightarrow> job_name mem a = job_name mem b" by (simp add: job_info_def JobNodeNodeCompare_def)
  show "hi_keyCompare job_info mem a k = 0 \<longleftrightarrow> job_name mem a = k" by (simp add: job_info_def JobNodeKeyCompare_def)
  show "hi_nodeHash job_info mem a = hi_keyHash job_info (job_name mem a)"
    by (simp add: job_info_def JobNodeGetNodeHasCode_def JobNodeGetKeyHasCode_def)
  show "hi_keyHash job_info k \<noteq> - 2147483648" if "good_name k"
    using that JobNodeGetKeyHasCode_bounds [of k] by (simp add: job_info_def good_name_def)
  show "hi_maxBucket job_info > 0" by (simp add: job_info_def)
qed

subsection \<open>The invariant\<close>

definition head_list :: "TriggerWorkSpace \<Rightarrow> nat \<Rightarrow> nat list" where
  "head_list ws type = th_triggerList (tw_triggerHead ws ! type)"

definition node_type :: "nodes \<Rightarrow> nat \<Rightarrow> nat option" where
  "node_type mem n = map_option tn_type (mem n)"

text \<open>Every list has exactly the nodes of its type, each once, and counts them.\<close>

definition lists_ok :: "TriggerWorkSpace \<Rightarrow> bool" where
  "lists_ok ws = (length (tw_triggerHead ws) = TRIGGER_MAX \<and>
     (\<forall>t < TRIGGER_MAX. distinct (head_list ws t) \<and> set (head_list ws t) = {n. node_type (tw_nodes ws) n = Some t} \<and>
        th_triggerCount (tw_triggerHead ws ! t) = of_nat (length (head_list ws t))) \<and>
     (\<forall>n t. node_type (tw_nodes ws) n = Some t \<longrightarrow> t < TRIGGER_MAX \<and> n < tw_next ws))"

text \<open>The hash map has exactly the jobs, under their names.\<close>

definition jobs_ok :: "TriggerWorkSpace \<Rightarrow> (string \<Rightarrow> nat option) \<Rightarrow> bool" where
  "jobs_ok ws m = ((\<exists>tab. tw_hashMap ws = Some tab \<and> jobs.table_map (tw_nodes ws) tab (tw_hashHeap ws) m) \<and>
     ran m = {n. \<exists>t \<le> TRIGGER_UNKNOW. node_type (tw_nodes ws) n = Some t} \<and> (\<forall>k \<in> dom m. good_name k) \<and> dom (tw_nodes ws) \<subseteq> dom (tw_hashHeap ws))"

text \<open>What waits in the queue is a job that is marked so, and waits once.\<close>

definition queue_ok :: "TriggerWorkSpace \<Rightarrow> bool" where
  "queue_ok ws = (queue_wf (tw_executeQueue ws) \<and> distinct (queued (tw_executeQueue ws)) \<and>
     (\<forall>n \<in> set (queued (tw_executeQueue ws)). \<exists>node. tw_nodes ws n = Some node \<and> tn_type node \<le> TRIGGER_UNKNOW \<and> TRIGGER_IN_QUEUE node))"

text \<open>The items of the clients are the waiters and watchers.\<close>

definition watch_ok :: "TriggerWorkSpace \<Rightarrow> bool" where
  "watch_ok ws = ((\<forall>n node. tw_nodes ws n = Some node \<longrightarrow> tn_type node > TRIGGER_UNKNOW \<longrightarrow> tn_item node) \<and>
     (\<forall>w. distinct (tw_watchers ws w) \<and> (\<forall>n \<in> set (tw_watchers ws w). \<exists>node. tw_nodes ws n = Some node \<and> tn_type node > TRIGGER_UNKNOW)))"

definition trigger_inv :: "TriggerWorkSpace \<Rightarrow> (string \<Rightarrow> nat option) \<Rightarrow> bool" where
  "trigger_inv ws m = (lists_ok ws \<and> jobs_ok ws m \<and> queue_ok ws \<and> watch_ok ws)"

lemma head_simps [simp]:
  "tw_nodes (upd_head ws t f) = tw_nodes ws" "tw_hashHeap (upd_head ws t f) = tw_hashHeap ws" "tw_hashMap (upd_head ws t f) = tw_hashMap ws"
  "tw_executeQueue (upd_head ws t f) = tw_executeQueue ws" "tw_watchers (upd_head ws t f) = tw_watchers ws" "tw_next (upd_head ws t f) = tw_next ws"
  "tw_triggerHead (put_node ws n node) = tw_triggerHead ws" "tw_hashHeap (put_node ws n node) = tw_hashHeap ws"
  "tw_hashMap (put_node ws n node) = tw_hashMap ws" "tw_executeQueue (put_node ws n node) = tw_executeQueue ws"
  "tw_watchers (put_node ws n node) = tw_watchers ws" "tw_next (put_node ws n node) = tw_next ws"
  "tw_nodes (put_node ws n node) = (tw_nodes ws)(n \<mapsto> node)"
  "tw_triggerHead (free_trigger ws n) = tw_triggerHead ws" "tw_hashHeap (free_trigger ws n) = (tw_hashHeap ws)(n := None)"
  "tw_hashMap (free_trigger ws n) = tw_hashMap ws" "tw_executeQueue (free_trigger ws n) = tw_executeQueue ws"
  "tw_watchers (free_trigger ws n) = tw_watchers ws" "tw_next (free_trigger ws n) = tw_next ws"
  "tw_nodes (free_trigger ws n) = (tw_nodes ws)(n := None)"
  by (simp_all add: upd_head_def put_node_def free_trigger_def)

lemma head_list_upd: "t < length (tw_triggerHead ws) \<Longrightarrow>
    tw_triggerHead (upd_head ws t f) ! u = (if u = t then f (tw_triggerHead ws ! t) else tw_triggerHead ws ! u)"
  "length (tw_triggerHead (upd_head ws t f)) = length (tw_triggerHead ws)"
  by (simp_all add: upd_head_def)

lemma node_type_upd [simp]: "node_type (mem(n := v)) a = (if a = n then map_option tn_type v else node_type mem a)"
  by (simp add: node_type_def)

lemma GetTriggerByName_map:
  "jobs_ok ws m \<Longrightarrow> good_name name \<Longrightarrow> GetTriggerByName ws name = Some (case m name of None \<Rightarrow> NULL | Some n \<Rightarrow> Ref n)"
  using jobs.OH_HashMapGet_map by (auto simp: jobs_ok_def GetTriggerByName_def)

lemma job_node:
  assumes "jobs_ok ws m" "m name = Some n"
  shows "\<exists>node. tw_nodes ws n = Some node \<and> tn_type node \<le> TRIGGER_UNKNOW \<and> tn_name node = name"
proof -
  have "n \<in> ran m" using assms(2) by (rule ranI)
  then obtain t where "t \<le> TRIGGER_UNKNOW" "node_type (tw_nodes ws) n = Some t" using assms(1) by (auto simp: jobs_ok_def)
  moreover have "job_name (tw_nodes ws) n = name" using assms jobs.table_map_key by (auto simp: jobs_ok_def)
  ultimately show ?thesis by (auto simp: node_type_def job_name_def)
qed

text \<open>Changing what a node holds, not its type, its name or its links.\<close>

lemma trigger_inv_put:
  assumes "trigger_inv ws m" "tw_nodes ws n = Some node" "tn_type node' = tn_type node" "tn_name node' = tn_name node" "tn_item node' = tn_item node"
    and "TRIGGER_IN_QUEUE node \<longrightarrow> TRIGGER_IN_QUEUE node' \<or> n \<notin> set (queued (tw_executeQueue ws))"
  shows "trigger_inv (put_node ws n node') m"
proof -
  have type: "node_type (tw_nodes (put_node ws n node')) = node_type (tw_nodes ws)" using assms(2,3) by (auto simp: node_type_def fun_eq_iff)
  have name: "job_name (tw_nodes (put_node ws n node')) = job_name (tw_nodes ws)" using assms(2,4) by (auto simp: job_name_def fun_eq_iff)
  have "lists_ok (put_node ws n node')" using assms(1) unfolding trigger_inv_def lists_ok_def type by (simp add: head_list_def)
  moreover have "jobs_ok (put_node ws n node') m"
  proof -
    obtain tab where t: "tw_hashMap ws = Some tab" "jobs.table_map (tw_nodes ws) tab (tw_hashHeap ws) m"
      using assms(1) by (auto simp: trigger_inv_def jobs_ok_def)
    have "jobs.table_map (tw_nodes (put_node ws n node')) tab (tw_hashHeap ws) m" by (rule jobs.table_map_cong [OF t(2)]) (use name in simp_all)
    with t(1) assms(1,2) show ?thesis unfolding trigger_inv_def jobs_ok_def type by auto
  qed
  moreover have "queue_ok (put_node ws n node')" using assms by (auto simp: trigger_inv_def queue_ok_def)
  moreover have "watch_ok (put_node ws n node')"
    unfolding watch_ok_def
  proof (intro conjI allI impI ballI)
    have w: "watch_ok ws" using assms(1) by (simp add: trigger_inv_def)
    fix a nd assume "tw_nodes (put_node ws n node') a = Some nd" "tn_type nd > TRIGGER_UNKNOW"
    with w assms(2,3,5) show "tn_item nd" by (auto simp: watch_ok_def split: if_splits)
  next
    have w: "watch_ok ws" using assms(1) by (simp add: trigger_inv_def)
    fix c show "distinct (tw_watchers (put_node ws n node') c)" using w by (simp add: watch_ok_def)
    fix a assume "a \<in> set (tw_watchers (put_node ws n node') c)"
    with w have "\<exists>nd. tw_nodes ws a = Some nd \<and> tn_type nd > TRIGGER_UNKNOW" by (simp add: watch_ok_def)
    with assms(2,3) show "\<exists>nd. tw_nodes (put_node ws n node') a = Some nd \<and> tn_type nd > TRIGGER_UNKNOW" by auto
  qed
  ultimately show ?thesis by (simp add: trigger_inv_def)
qed

subsection \<open>Adding a job\<close>

lemma CopyCondition_keeps:
  assumes "CopyCondition node c = Some (nd, r)"
  shows "tn_type nd = tn_type node" "tn_name nd = tn_name node" "tn_item nd = tn_item node" "tn_flags nd = tn_flags node" "tn_cmds nd = tn_cmds node"
  using assms by (auto simp: CopyCondition_def split: option.splits if_splits bind_splits)

text \<open>A node that is added to the list of its type.\<close>

definition with_node :: "TriggerWorkSpace \<Rightarrow> nat \<Rightarrow> TriggerNode \<Rightarrow> TriggerWorkSpace" where
  "with_node ws n node = upd_head (ws\<lparr>tw_next := n + 1, tw_nodes := (tw_nodes ws)(n \<mapsto> node), tw_hashHeap := (tw_hashHeap ws)(n \<mapsto> NULL)\<rparr>)
     (tn_type node) (\<lambda>h. h\<lparr>th_triggerList := th_triggerList h @ [n], th_triggerCount := th_triggerCount h + 1\<rparr>)"

lemma with_node_simps [simp]:
  "tw_nodes (with_node ws n node) = (tw_nodes ws)(n \<mapsto> node)" "tw_hashHeap (with_node ws n node) = (tw_hashHeap ws)(n \<mapsto> NULL)"
  "tw_hashMap (with_node ws n node) = tw_hashMap ws" "tw_executeQueue (with_node ws n node) = tw_executeQueue ws"
  "tw_watchers (with_node ws n node) = tw_watchers ws" "tw_next (with_node ws n node) = n + 1"
  by (simp_all add: with_node_def)

lemma AddTriggerNode_with:
  assumes "CopyCondition zero_node condition = Some (nd, 0)"
  shows "AddTriggerNode ws t condition = Some (with_node ws (tw_next ws) (nd\<lparr>tn_type := t, tn_flags := 0\<rparr>), Ref (tw_next ws))"
  using assms by (simp add: AddTriggerNode_def Let_def with_node_def put_node_def upd_head_def)

lemma with_node_put: "with_node ws n node\<lparr>tw_nodes := (tw_nodes ws)(n \<mapsto> node')\<rparr> = put_node (with_node ws n node) n node'"
  by (simp add: put_node_def)

lemma fresh_node:
  assumes "trigger_inv ws m"
  shows "tw_nodes ws (tw_next ws) = None" "tw_next ws \<notin> ran m" "tw_next ws \<notin> set (queued (tw_executeQueue ws))"
    "\<And>w. tw_next ws \<notin> set (tw_watchers ws w)"
proof -
  show n: "tw_nodes ws (tw_next ws) = None"
  proof (rule ccontr)
    assume "tw_nodes ws (tw_next ws) \<noteq> None"
    then obtain t where "node_type (tw_nodes ws) (tw_next ws) = Some t" by (auto simp: node_type_def)
    with assms show False unfolding trigger_inv_def lists_ok_def by blast
  qed
  then show "tw_next ws \<notin> ran m" using assms by (simp add: trigger_inv_def jobs_ok_def node_type_def)
  show "tw_next ws \<notin> set (queued (tw_executeQueue ws))" using assms n by (auto simp: trigger_inv_def queue_ok_def)
  show "tw_next ws \<notin> set (tw_watchers ws w)" for w using assms n unfolding trigger_inv_def watch_ok_def by (metis option.distinct(1))
qed

lemma lists_ok_with:
  assumes "trigger_inv ws m" "tn_type node < TRIGGER_MAX"
  shows "lists_ok (with_node ws (tw_next ws) node)"
proof -
  let ?n = "tw_next ws" and ?w = "with_node ws (tw_next ws) node"
  have L: "lists_ok ws" using assms(1) by (simp add: trigger_inv_def)
  have fresh: "node_type (tw_nodes ws) ?n = None" using fresh_node(1) [OF assms(1)] by (simp add: node_type_def)
  have head: "tw_triggerHead ?w ! u = (if u = tn_type node then (tw_triggerHead ws ! u)\<lparr>th_triggerList := head_list ws u @ [?n],
      th_triggerCount := th_triggerCount (tw_triggerHead ws ! u) + 1\<rparr> else tw_triggerHead ws ! u)" for u
    using L assms(2) by (simp add: lists_ok_def with_node_def head_list_upd head_list_def)
  show ?thesis
    unfolding lists_ok_def
  proof (intro conjI allI impI)
    show "length (tw_triggerHead ?w) = TRIGGER_MAX" using L by (simp add: lists_ok_def with_node_def head_list_upd)
    fix t assume t: "t < TRIGGER_MAX"
    have l: "distinct (head_list ws t)" "set (head_list ws t) = {n. node_type (tw_nodes ws) n = Some t}"
      "th_triggerCount (tw_triggerHead ws ! t) = of_nat (length (head_list ws t))" using L t by (simp_all add: lists_ok_def)
    have list: "head_list ?w t = (if t = tn_type node then head_list ws t @ [?n] else head_list ws t)"
      using head [of t] by (auto simp: head_list_def)
    show "distinct (head_list ?w t)" using l(1,2) fresh by (auto simp: list)
    show "set (head_list ?w t) = {n. node_type (tw_nodes ?w) n = Some t}" using l(2) fresh by (auto simp: list)
    show "th_triggerCount (tw_triggerHead ?w ! t) = of_nat (length (head_list ?w t))" using l(3) by (auto simp: list head)
  next
    fix a t assume a: "node_type (tw_nodes ?w) a = Some t"
    then show "t < TRIGGER_MAX" using L assms(2) by (auto simp: lists_ok_def split: if_splits)
    show "a < tw_next ?w" using L a by (auto simp: lists_ok_def less_SucI split: if_splits)
  qed
qed

lemma AddJobNode_inv:
  assumes inv: "trigger_inv ws m" and node: "tn_type node \<le> TRIGGER_UNKNOW" "tn_flags node = 0" and name: "good_name name" "m name = None"
  shows "\<exists>ws'. AddJobNode (with_node ws (tw_next ws) node) (tw_next ws) name = Some (ws', 0) \<and>
    tw_nodes ws' = (tw_nodes ws)(tw_next ws \<mapsto> node\<lparr>tn_name := name, tn_cmds := []\<rparr>) \<and> tw_executeQueue ws' = tw_executeQueue ws \<and>
    trigger_inv ws' (m(name \<mapsto> tw_next ws))"
proof -
  let ?n = "tw_next ws" and ?node = "node\<lparr>tn_name := name, tn_cmds := []\<rparr>"
  let ?w = "put_node (with_node ws ?n node) ?n ?node"
  note fresh = fresh_node [OF inv]
  obtain tab where t: "tw_hashMap ws = Some tab" "jobs.table_map (tw_nodes ws) tab (tw_hashHeap ws) m"
    and m: "ran m = {n. \<exists>t \<le> TRIGGER_UNKNOW. node_type (tw_nodes ws) n = Some t}" "\<forall>k \<in> dom m. good_name k" "dom (tw_nodes ws) \<subseteq> dom (tw_hashHeap ws)"
    using inv by (auto simp: trigger_inv_def jobs_ok_def)
  have "jobs.table_map (tw_nodes ?w) tab (tw_hashHeap ?w) m"
    by (rule jobs.table_map_cong [OF t(2)]) (use fresh(2) in \<open>auto simp: job_name_def\<close>)
  moreover have "job_name (tw_nodes ?w) ?n = name" by (simp add: job_name_def)
  ultimately obtain tab' h' where add: "OH_HashMapAdd (tw_nodes ?w) (tw_hashHeap ?w) (Some tab) (Ref ?n) = Some (h', Some tab', 0)"
      "jobs.table_map (tw_nodes ?w) tab' h' (m(name \<mapsto> ?n))" "\<forall>a. a \<noteq> ?n \<longrightarrow> h' a = tw_hashHeap ?w a" "h' ?n \<noteq> None"
    using jobs.OH_HashMapAdd_map [of "tw_nodes ?w" tab "tw_hashHeap ?w" m ?n] name fresh(2) by auto
  let ?w' = "?w\<lparr>tw_hashHeap := h', tw_hashMap := Some tab'\<rparr>"
  have run: "AddJobNode (with_node ws ?n node) ?n name = Some (?w', 0)"
    using add(1) t(1) by (simp add: AddJobNode_def node_at_def put_node_def)
  have "lists_ok ?w'" using lists_ok_with [OF inv, of ?node] node(1) by (simp add: lists_ok_def head_list_def put_node_def with_node_def upd_head_def)
  moreover have "jobs_ok ?w' (m(name \<mapsto> ?n))"
  proof -
    have "ran (m(name \<mapsto> ?n)) = insert ?n (ran m)" using name(2) by simp
    also have "\<dots> = {n. \<exists>t \<le> TRIGGER_UNKNOW. node_type (tw_nodes ?w) n = Some t}"
      using node(1) m(1) fresh(1) by (auto simp: node_type_def)
    finally have "ran (m(name \<mapsto> ?n)) = {n. \<exists>t \<le> TRIGGER_UNKNOW. node_type (tw_nodes ?w) n = Some t}" .
    moreover have "dom (tw_nodes ?w) \<subseteq> dom h'"
    proof
      fix a assume "a \<in> dom (tw_nodes ?w)"
      then show "a \<in> dom h'" using add(3,4) m(3) by (cases "a = ?n") auto
    qed
    ultimately show ?thesis using add(2) m(2) name(1) by (auto simp: jobs_ok_def)
  qed
  moreover have "queue_ok ?w'" using inv fresh(3) by (auto simp: trigger_inv_def queue_ok_def)
  moreover have "watch_ok ?w'"
  proof -
    have "watch_ok ws" using inv by (simp add: trigger_inv_def)
    then show ?thesis using node(1) fresh(4) unfolding watch_ok_def by (simp add: fun_upd_def) metis
  qed
  ultimately show ?thesis using run by (auto simp: trigger_inv_def)
qed

lemma AddJobTrigger_inv:
  assumes inv: "trigger_inv ws m" and t: "t \<le> TRIGGER_UNKNOW" and name: "good_name name" "m name = None"
    and cond: "CopyCondition zero_node condition = Some (nd, 0)"
  shows "\<exists>ws'. AddJobTrigger ws t condition name = Some (ws', Ref (tw_next ws)) \<and> trigger_inv ws' (m(name \<mapsto> tw_next ws)) \<and>
    tw_executeQueue ws' = tw_executeQueue ws \<and>
    tw_nodes ws' = (tw_nodes ws)(tw_next ws \<mapsto> nd\<lparr>tn_type := t, tn_name := name, tn_cmds := [], tn_flags :=
      if t \<noteq> TRIGGER_BOOT then 0 else if strncmp_eq ''boot-service:'' name 13 then TRIGGER_FLAGS_ONCE else TRIGGER_FLAGS_ONCE OR TRIGGER_FLAGS_SUBTRIGGER\<rparr>)"
proof -
  let ?n = "tw_next ws" and ?node = "nd\<lparr>tn_type := t, tn_flags := 0\<rparr>"
  from AddJobNode_inv [OF inv _ _ name, of ?node] t obtain ws1 where
    1: "AddJobNode (with_node ws ?n ?node) ?n name = Some (ws1, 0)"
      "tw_nodes ws1 = (tw_nodes ws)(?n \<mapsto> ?node\<lparr>tn_name := name, tn_cmds := []\<rparr>)" "tw_executeQueue ws1 = tw_executeQueue ws"
      "trigger_inv ws1 (m(name \<mapsto> ?n))" by auto
  let ?flags = "if t \<noteq> TRIGGER_BOOT then 0 else if strncmp_eq ''boot-service:'' name 13 then TRIGGER_FLAGS_ONCE else TRIGGER_FLAGS_ONCE OR TRIGGER_FLAGS_SUBTRIGGER"
  let ?new = "nd\<lparr>tn_type := t, tn_name := name, tn_cmds := [], tn_flags := ?flags\<rparr>"
  have put: "trigger_inv (put_node ws1 ?n ?new) (m(name \<mapsto> ?n))"
    by (rule trigger_inv_put [OF 1(4), of _ "?node\<lparr>tn_name := name, tn_cmds := []\<rparr>"])
      (use 1(2) in \<open>auto simp: TRIGGER_IN_QUEUE_def TRIGGER_TEST_FLAG_def\<close>)
  have "AddJobTrigger ws t condition name = Some (if t = TRIGGER_BOOT then put_node ws1 ?n ?new else ws1, Ref ?n)"
    using t AddTriggerNode_with [OF cond, of ws t] 1(1,2)
    by (simp add: AddJobTrigger_def node_at_def TRIGGER_SET_FLAG_def)
  with put 1 show ?thesis by (cases "t = TRIGGER_BOOT") auto
qed

subsection \<open>Freeing a trigger\<close>

lemma lists_ok_without:
  assumes L: "lists_ok ws" and t: "node_type (tw_nodes ws) n = Some t"
    and ws': "tw_nodes ws' = (tw_nodes ws)(n := None)" "tw_next ws' = tw_next ws" "length (tw_triggerHead ws') = length (tw_triggerHead ws)"
    and head: "\<And>u. u < TRIGGER_MAX \<Longrightarrow> head_list ws' u = (if u = t then remove1 n (head_list ws u) else head_list ws u)"
      "\<And>u. u < TRIGGER_MAX \<Longrightarrow> th_triggerCount (tw_triggerHead ws' ! u) =
        (if u = t then th_triggerCount (tw_triggerHead ws ! u) - 1 else th_triggerCount (tw_triggerHead ws ! u))"
  shows "lists_ok ws'"
  unfolding lists_ok_def
proof (intro conjI allI impI)
  show "length (tw_triggerHead ws') = TRIGGER_MAX" using L ws'(3) by (simp add: lists_ok_def)
  fix u assume u: "u < TRIGGER_MAX"
  have l: "distinct (head_list ws u)" "set (head_list ws u) = {n. node_type (tw_nodes ws) n = Some u}"
    "th_triggerCount (tw_triggerHead ws ! u) = of_nat (length (head_list ws u))" using L u by (simp_all add: lists_ok_def)
  show "distinct (head_list ws' u)" using l(1) head(1) [OF u] by (auto split: if_splits)
  show "set (head_list ws' u) = {n. node_type (tw_nodes ws') n = Some u}"
  proof (cases "u = t")
    case True
    then have "set (head_list ws' u) = set (head_list ws u) - {n}" using head(1) [OF u] l(1) by (metis set_remove1_eq)
    with l(2) show ?thesis unfolding ws'(1) by auto
  next
    case False
    then have "head_list ws' u = head_list ws u" using head(1) [OF u] by metis
    with l(2) t False show ?thesis unfolding ws'(1) by auto
  qed
  show "th_triggerCount (tw_triggerHead ws' ! u) = of_nat (length (head_list ws' u))"
  proof (cases "u = t")
    case True
    then have "n \<in> set (head_list ws u)" using l(2) t by simp
    then obtain k where "length (head_list ws u) = Suc k" by (cases "head_list ws u") auto
    with \<open>n \<in> set (head_list ws u)\<close> l(3) head [OF u] True show ?thesis by (simp add: length_remove1)
  qed (use l(3) head [OF u] in simp)
next
  fix a u assume "node_type (tw_nodes ws') a = Some u"
  then have "node_type (tw_nodes ws) a = Some u" using ws'(1) by (auto split: if_splits)
  with L show "u < TRIGGER_MAX" "a < tw_next ws'" using ws'(2) by (auto simp: lists_ok_def)
qed

text \<open>A node that does not wait in the queue is taken out.\<close>

lemma trigger_inv_without:
  assumes inv: "trigger_inv ws m" and node: "tw_nodes ws n = Some node" "n \<notin> set (queued (tw_executeQueue ws))"
    and ws': "tw_nodes ws' = (tw_nodes ws)(n := None)" "tw_executeQueue ws' = tw_executeQueue ws"
      "lists_ok ws'" "jobs_ok ws' m'" "tw_watchers ws' = (\<lambda>w. remove1 n (tw_watchers ws w))"
  shows "trigger_inv ws' m'"
proof -
  have "queue_ok ws'" using inv node ws'(1,2) by (auto simp: trigger_inv_def queue_ok_def)
  moreover have "watch_ok ws'"
  proof -
    have w: "watch_ok ws" using inv by (simp add: trigger_inv_def)
    show ?thesis
      unfolding watch_ok_def
    proof (intro conjI allI impI ballI)
      fix a nd assume "tw_nodes ws' a = Some nd" "tn_type nd > TRIGGER_UNKNOW"
      with w ws'(1) show "tn_item nd" by (auto simp: watch_ok_def split: if_splits)
    next
      fix c show "distinct (tw_watchers ws' c)" using w ws'(5) by (simp add: watch_ok_def)
      fix a assume "a \<in> set (tw_watchers ws' c)"
      moreover have "distinct (tw_watchers ws c)" using w by (simp add: watch_ok_def)
      ultimately have a: "a \<in> set (tw_watchers ws c)" "a \<noteq> n" using ws'(5) by auto
      with w have "\<exists>nd. tw_nodes ws a = Some nd \<and> tn_type nd > TRIGGER_UNKNOW" by (simp add: watch_ok_def)
      with a(2) ws'(1) show "\<exists>nd. tw_nodes ws' a = Some nd \<and> tn_type nd > TRIGGER_UNKNOW" by simp
    qed
  qed
  ultimately show ?thesis using ws'(3,4) by (simp add: trigger_inv_def)
qed

lemma not_queued:
  "trigger_inv ws m \<Longrightarrow> tw_nodes ws n = Some node \<Longrightarrow> \<not> TRIGGER_IN_QUEUE node \<Longrightarrow> n \<notin> set (queued (tw_executeQueue ws))"
  by (auto simp: trigger_inv_def queue_ok_def)

lemma job_registered:
  assumes "jobs_ok ws m" "tw_nodes ws n = Some node" "tn_type node \<le> TRIGGER_UNKNOW"
  shows "m (tn_name node) = Some n"
proof -
  have "node_type (tw_nodes ws) n = Some (tn_type node)" using assms(2) by (simp add: node_type_def)
  with assms(3) have "n \<in> {n. \<exists>t \<le> TRIGGER_UNKNOW. node_type (tw_nodes ws) n = Some t}" by blast
  with assms(1) have "n \<in> ran m" by (simp add: jobs_ok_def)
  then obtain k where k: "m k = Some n" by (auto simp: ran_def)
  with job_node [OF assms(1) k] assms(2) show ?thesis by auto
qed

lemma DelJobTrigger_inv:
  assumes inv: "trigger_inv ws m" and node: "tw_nodes ws n = Some node" "tn_type node \<le> TRIGGER_UNKNOW" "\<not> TRIGGER_IN_QUEUE node"
  shows "\<exists>ws'. DelJobTrigger ws n = Some ws' \<and> trigger_inv ws' (m(tn_name node := None)) \<and> tw_nodes ws' = (tw_nodes ws)(n := None) \<and>
    tw_executeQueue ws' = tw_executeQueue ws"
proof -
  let ?name = "tn_name node" and ?t = "tn_type node" and ?m = "m(tn_name node := None)"
  have L: "lists_ok ws" and J: "jobs_ok ws m" and W: "watch_ok ws" using inv by (simp_all add: trigger_inv_def)
  obtain tab where t: "tw_hashMap ws = Some tab" "jobs.table_map (tw_nodes ws) tab (tw_hashHeap ws) m"
    and m: "ran m = {n. \<exists>t \<le> TRIGGER_UNKNOW. node_type (tw_nodes ws) n = Some t}" "\<forall>k \<in> dom m. good_name k" "dom (tw_nodes ws) \<subseteq> dom (tw_hashHeap ws)"
    using J by (auto simp: jobs_ok_def)
  have reg: "m ?name = Some n" by (rule job_registered [OF J node(1,2)])
  have inj: "m k = Some n \<longleftrightarrow> k = ?name" for k using job_node [OF J, of k n] reg node(1) by auto
  have ran: "ran ?m = ran m - {n}"
  proof (intro set_eqI iffI)
    fix x assume "x \<in> ran m - {n}"
    then obtain k where "m k = Some x" "x \<noteq> n" by (auto simp: ran_def)
    then have "k \<noteq> ?name" using reg by auto
    with \<open>m k = Some x\<close> have "?m k = Some x" by simp
    then show "x \<in> ran ?m" by (rule ranI)
  qed (use inj in \<open>auto simp: ran_def split: if_splits\<close>)
  let ?mem = "(tw_nodes ws)(n \<mapsto> node\<lparr>tn_condition := None, tn_cmds := []\<rparr>)"
  have "jobs.table_map ?mem tab (tw_hashHeap ws) m"
    by (rule jobs.table_map_cong [OF t(2)]) (use node(1) in \<open>auto simp: job_name_def\<close>)
  moreover have "good_name ?name" using m(2) reg by auto
  ultimately obtain tab' h' where rem: "OH_HashMapRemove ?mem (tw_hashHeap ws) (Some tab) ?name = Some (h', Some tab')"
      "jobs.table_map ?mem tab' h' ?m" "dom h' = dom (tw_hashHeap ws)"
    using jobs.OH_HashMapRemove_map [of ?mem tab "tw_hashHeap ws" m ?name] by auto
  let ?w0 = "put_node (upd_head ws ?t (\<lambda>h. h\<lparr>th_cmdNodeCount := th_cmdNodeCount h - of_nat (length (tn_cmds node))\<rparr>)) n
    (node\<lparr>tn_condition := None, tn_cmds := []\<rparr>)"
  let ?w = "free_trigger (unlist ?w0 ?t n\<lparr>tw_hashHeap := h', tw_hashMap := Some tab'\<rparr>) n"
  have run: "DelJobTrigger ws n = Some ?w"
    using node rem(1) t(1) by (simp add: DelJobTrigger_def node_at_def GetTriggerHeader_def unlist_def Let_def)
  have tm: "?t < length (tw_triggerHead ws)" using L node(2) by (simp add: lists_ok_def)
  have "lists_ok ?w"
    by (rule lists_ok_without [OF L, of n ?t])
      (use node(1) tm in \<open>auto simp: node_type_def unlist_def head_list_def head_list_upd put_node_def upd_head_def free_trigger_def nth_list_update\<close>)
  moreover have "jobs_ok ?w ?m"
  proof -
    have "jobs.table_map (tw_nodes ?w) tab' (tw_hashHeap ?w) ?m"
      by (rule jobs.table_map_cong [OF rem(2)]) (use ran in \<open>auto simp: job_name_def unlist_def\<close>)
    moreover have "ran ?m = {n. \<exists>t \<le> TRIGGER_UNKNOW. node_type (tw_nodes ?w) n = Some t}" using ran m(1) by (auto simp: unlist_def)
    moreover have "dom (tw_nodes ?w) \<subseteq> dom (tw_hashHeap ?w)" using m(3) rem(3) by (auto simp: unlist_def)
    ultimately show ?thesis using m(2) by (auto simp: jobs_ok_def unlist_def)
  qed
  moreover have "tw_watchers ?w = (\<lambda>w. remove1 n (tw_watchers ws w))"
  proof
    fix c
    have "\<not> (\<exists>nd. tw_nodes ws n = Some nd \<and> TRIGGER_UNKNOW < tn_type nd)" using node(1,2) by simp
    with W have "n \<notin> set (tw_watchers ws c)" unfolding watch_ok_def by blast
    then show "tw_watchers ?w c = remove1 n (tw_watchers ws c)" by (simp add: unlist_def remove1_idem)
  qed
  ultimately have "trigger_inv ?w ?m"
    by (intro trigger_inv_without [OF inv node(1) not_queued [OF inv node(1,3)]]) (simp_all add: unlist_def)
  with run show ?thesis by (auto simp: unlist_def)
qed

lemma DelWatchTrigger_inv:
  assumes inv: "trigger_inv ws m" and node: "tw_nodes ws n = Some node" "tn_type node > TRIGGER_UNKNOW"
  shows "\<exists>ws'. DelWatchTrigger_node ws n = Some ws' \<and> trigger_inv ws' m \<and> tw_nodes ws' = (tw_nodes ws)(n := None) \<and>
    tw_executeQueue ws' = tw_executeQueue ws"
proof -
  let ?t = "tn_type node"
  have L: "lists_ok ws" and J: "jobs_ok ws m" and W: "watch_ok ws" using inv by (simp_all add: trigger_inv_def)
  have "node_type (tw_nodes ws) n = Some ?t" using node(1) by (simp add: node_type_def)
  with L have "?t < TRIGGER_MAX" unfolding lists_ok_def by blast
  with node(2) have type: "?t = TRIGGER_PARAM_WAIT \<or> ?t = TRIGGER_PARAM_WATCH" by auto
  let ?w = "free_trigger (unlist ws ?t n\<lparr>tw_watchers := \<lambda>w. remove1 n (tw_watchers ws w)\<rparr>) n"
  have "tn_item node" using W node by (auto simp: watch_ok_def)
  then have run: "DelWatchTrigger_node ws n = Some ?w"
    using node(1) type by (auto simp: DelWatchTrigger_node_def node_at_def GetTriggerHeader_def remove_item_def unlist_def)
  have tm: "?t < length (tw_triggerHead ws)" using L type by (auto simp: lists_ok_def)
  have "lists_ok ?w"
    by (rule lists_ok_without [OF L, of n ?t])
      (use node(1) tm in \<open>auto simp: node_type_def unlist_def head_list_def head_list_upd upd_head_def free_trigger_def nth_list_update\<close>)
  moreover have "jobs_ok ?w m"
  proof -
    obtain tab where t: "tw_hashMap ws = Some tab" "jobs.table_map (tw_nodes ws) tab (tw_hashHeap ws) m"
      using J by (auto simp: jobs_ok_def)
    have new: "n \<notin> ran m" using J node by (auto simp: jobs_ok_def node_type_def)
    have "jobs.table_map (tw_nodes ?w) tab (tw_hashHeap ?w) m"
      by (rule jobs.table_map_cong [OF t(2)]) (use new in \<open>auto simp: job_name_def unlist_def\<close>)
    with J t(1) node show ?thesis by (auto simp: jobs_ok_def unlist_def node_type_def)
  qed
  moreover have "n \<notin> set (queued (tw_executeQueue ws))" using inv node by (auto simp: trigger_inv_def queue_ok_def)
  ultimately have "trigger_inv ?w m"
    by (intro trigger_inv_without [OF inv node(1)]) (simp_all add: unlist_def)
  with run show ?thesis by (auto simp: unlist_def)
qed

lemma FreeTrigger_inv:
  assumes inv: "trigger_inv ws m" and node: "tw_nodes ws n = Some node" "\<not> TRIGGER_IN_QUEUE node"
  shows "\<exists>ws'. FreeTrigger ws n = Some ws' \<and> tw_nodes ws' = (tw_nodes ws)(n := None) \<and> tw_executeQueue ws' = tw_executeQueue ws \<and>
    trigger_inv ws' (if tn_type node \<le> TRIGGER_UNKNOW then m(tn_name node := None) else m)"
proof -
  have "node_type (tw_nodes ws) n = Some (tn_type node)" using node(1) by (simp add: node_type_def)
  then have "tn_type node < TRIGGER_MAX" using inv unfolding trigger_inv_def lists_ok_def by blast
  then have "FreeTrigger ws n = (if tn_type node \<le> TRIGGER_UNKNOW then DelJobTrigger ws n else DelWatchTrigger_node ws n)"
    using node(1) by (auto simp: FreeTrigger_def node_at_def GetTriggerHeader_def delTrigger_def)
  with DelJobTrigger_inv [OF inv node(1) _ node(2)] DelWatchTrigger_inv [OF inv node(1)] show ?thesis
    by (cases "tn_type node \<le> TRIGGER_UNKNOW") auto
qed

subsection \<open>Updating a job\<close>

lemma CopyCondition_total: "\<exists>nd r. CopyCondition node c = Some (nd, r)"
proof (cases c)
  case (Some u)
  obtain out ret where "ConvertInfixToPrefix u trigger_cache_size = Some (out, ret)"
    using ConvertInfixToPrefix_bounded [of trigger_cache_size u] by auto
  with Some show ?thesis by (simp add: CopyCondition_def)
qed (simp add: CopyCondition_def)

lemma CopyCondition_same_return:
  "CopyCondition a c = Some (nd, r) \<Longrightarrow> \<exists>nd'. CopyCondition b c = Some (nd', r)"
  by (cases "\<exists>u. c = Some u \<and> u \<noteq> []") (auto simp: CopyCondition_def split: option.splits bind_splits if_splits)

lemma UpdateJobTrigger_inv:
  assumes inv: "trigger_inv ws m" and t: "t \<le> TRIGGER_UNKNOW" and name: "good_name name"
    and cond: "CopyCondition zero_node condition = Some (nd, 0)"
  shows "\<exists>ws' n. UpdateJobTrigger ws (int t) condition name = Some (ws', Ref n) \<and> trigger_inv ws' (m(name \<mapsto> n)) \<and>
    tw_executeQueue ws' = tw_executeQueue ws \<and> (\<forall>n'. m name = Some n' \<longrightarrow> n = n')"
proof -
  have J: "jobs_ok ws m" using inv by (simp add: trigger_inv_def)
  note start = UpdateJobTrigger_def GetTriggerHeader_def GetTriggerByName_map [OF J name]
  show ?thesis
  proof (cases "m name")
    case None
    with AddJobTrigger_inv [OF inv t name None cond] t show ?thesis by (auto simp: start)
  next
    case (Some n)
    then obtain node where node: "tw_nodes ws n = Some node" using job_node [OF J] by blast
    have m: "m(name \<mapsto> n) = m" using Some by auto
    obtain nd' where nd': "CopyCondition node condition = Some (nd', 0)" using CopyCondition_same_return [OF cond] by blast
    note k = CopyCondition_keeps [OF nd']
    have "trigger_inv (put_node ws n nd') m"
      by (rule trigger_inv_put [OF inv node k(1-3)]) (use k(4) in \<open>simp add: TRIGGER_IN_QUEUE_def TRIGGER_TEST_FLAG_def\<close>)
    with Some node nd' inv m t show ?thesis by (cases "tn_condition node = None \<and> condition \<noteq> None") (auto simp: start node_at_def)
  qed
qed

subsection \<open>Waiters and watchers\<close>

lemma trigger_inv_next: "trigger_inv ws m \<Longrightarrow> trigger_inv (ws\<lparr>tw_next := tw_next ws + 1\<rparr>) m"
  by (auto simp: trigger_inv_def lists_ok_def head_list_def jobs_ok_def queue_ok_def watch_ok_def less_SucI)

lemma with_watch_inv:
  assumes inv: "trigger_inv ws m" and node: "TRIGGER_UNKNOW < tn_type node" "tn_type node < TRIGGER_MAX" "tn_item node"
  shows "trigger_inv (with_node ws (tw_next ws) node\<lparr>tw_watchers := (tw_watchers ws)(w := tw_watchers ws w @ [tw_next ws])\<rparr>) m"
    (is "trigger_inv ?w m")
proof -
  let ?n = "tw_next ws"
  note fresh = fresh_node [OF inv]
  have "lists_ok ?w" using lists_ok_with [OF inv node(2)] by (simp add: lists_ok_def head_list_def)
  moreover have "jobs_ok ?w m"
  proof -
    obtain tab where t: "tw_hashMap ws = Some tab" "jobs.table_map (tw_nodes ws) tab (tw_hashHeap ws) m"
      using inv by (auto simp: trigger_inv_def jobs_ok_def)
    have "jobs.table_map (tw_nodes ?w) tab (tw_hashHeap ?w) m"
      by (rule jobs.table_map_cong [OF t(2)]) (use fresh(2) in \<open>auto simp: job_name_def\<close>)
    moreover have "{n. \<exists>t \<le> TRIGGER_UNKNOW. node_type (tw_nodes ?w) n = Some t} = {n. \<exists>t \<le> TRIGGER_UNKNOW. node_type (tw_nodes ws) n = Some t}"
      using node(1) fresh(1) by (auto simp: node_type_def)
    ultimately show ?thesis using inv t(1) unfolding trigger_inv_def jobs_ok_def by auto
  qed
  moreover have "queue_ok ?w" using inv fresh(3) by (auto simp: trigger_inv_def queue_ok_def)
  moreover have "watch_ok ?w"
    unfolding watch_ok_def
  proof (intro conjI allI impI ballI)
    have W: "watch_ok ws" using inv by (simp add: trigger_inv_def)
    fix a nd assume "tw_nodes ?w a = Some nd" "TRIGGER_UNKNOW < tn_type nd"
    with W node(3) show "tn_item nd" by (auto simp: watch_ok_def split: if_splits)
  next
    have W: "watch_ok ws" using inv by (simp add: trigger_inv_def)
    fix c show "distinct (tw_watchers ?w c)" using W fresh(4) by (simp add: watch_ok_def)
    fix a assume "a \<in> set (tw_watchers ?w c)"
    then have "a = ?n \<or> a \<noteq> ?n \<and> a \<in> set (tw_watchers ws c)" using fresh(4) [of c] by (auto split: if_splits)
    with W node(1) show "\<exists>nd. tw_nodes ?w a = Some nd \<and> TRIGGER_UNKNOW < tn_type nd" by (auto simp: watch_ok_def)
  qed
  ultimately show ?thesis by (simp add: trigger_inv_def)
qed

lemma AddWatchTrigger_inv:
  assumes inv: "trigger_inv ws m" and ext: "ei_watcher ext = Some w"
  shows "\<exists>ws' p. AddWatchTrigger ws condition ext = Some (ws', p) \<and> trigger_inv ws' m"
proof (cases "ei_type ext = TRIGGER_PARAM_WAIT \<or> ei_type ext = TRIGGER_PARAM_WATCH")
  case True
  obtain nd r where c: "CopyCondition zero_node condition = Some (nd, r)" using CopyCondition_total by blast
  show ?thesis
  proof (cases "r = 0")
    case False
    then have "AddWatchTrigger ws condition ext = Some (ws\<lparr>tw_next := tw_next ws + 1\<rparr>, NULL)"
      using True c by (auto simp: AddWatchTrigger_def AddTriggerNode_def Let_def)
    with trigger_inv_next [OF inv] show ?thesis by auto
  next
    case r: True
    let ?n = "tw_next ws" and ?node = "nd\<lparr>tn_type := ei_type ext, tn_flags := 0\<rparr>"
    define new where "new = (if ei_type ext = TRIGGER_PARAM_WAIT
      then ?node\<lparr>tn_item := True, tn_timeout := ei_timeout ext, tn_waitId := ei_waitId ext, tn_flags := TRIGGER_FLAGS_ONCE\<rparr>
      else ?node\<lparr>tn_item := True, tn_watchId := ei_watchId ext\<rparr>)"
    have new: "TRIGGER_UNKNOW < tn_type new" "tn_type new < TRIGGER_MAX" "tn_item new" "tn_type new = ei_type ext"
      using True by (auto simp: new_def)
    have "AddWatchTrigger ws condition ext =
        Some (with_node ws ?n new\<lparr>tw_watchers := (tw_watchers ws)(w := tw_watchers ws w @ [?n])\<rparr>, Ref ?n)"
      using True c r ext AddTriggerNode_with [of condition nd ws "ei_type ext"] new(4)
      by (auto simp: AddWatchTrigger_def AddWatchNode_def node_at_def TRIGGER_SET_FLAG_def with_node_def put_node_def upd_head_def new_def)
    with with_watch_inv [OF inv new(1-3), of w] show ?thesis by blast
  qed
next
  case False
  with inv show ?thesis by (auto simp: AddWatchTrigger_def)
qed

subsection \<open>The queue\<close>

lemma push_inv:
  assumes inv: "trigger_inv ws m" and node: "tw_nodes ws n = Some node" "tn_type node \<le> TRIGGER_UNKNOW" "\<not> TRIGGER_IN_QUEUE node"
    and room: "queue_room (tw_executeQueue ws) > 0"
  shows "\<exists>q'. ExecuteQueuePush (tw_executeQueue ws) (Ref n) = Some q' \<and> queued q' = queued (tw_executeQueue ws) @ [n] \<and>
    trigger_inv (put_node ws n (TRIGGER_SET_FLAG node TRIGGER_FLAGS_QUEUE)\<lparr>tw_executeQueue := q'\<rparr>) m"
proof -
  let ?node = "TRIGGER_SET_FLAG node TRIGGER_FLAGS_QUEUE" and ?q = "tw_executeQueue ws"
  have fresh: "n \<notin> set (queued ?q)" by (rule not_queued [OF inv node(1,3)])
  have "queue_wf ?q" using inv by (simp add: trigger_inv_def queue_ok_def)
  from ExecuteQueuePush_law [OF this room, of n] obtain q' where
    q': "ExecuteQueuePush ?q (Ref n) = Some q'" "queue_wf q'" "queued q' = queued ?q @ [n]" by auto
  have flag: "TRIGGER_IN_QUEUE ?node" by (simp add: TRIGGER_IN_QUEUE_def TRIGGER_TEST_FLAG_def TRIGGER_SET_FLAG_def word_bw_assocs ac_simps)
  have "trigger_inv (put_node ws n ?node) m"
    by (rule trigger_inv_put [OF inv node(1)]) (use flag in \<open>simp_all add: TRIGGER_SET_FLAG_def\<close>)
  moreover from this have "queue_ok (put_node ws n ?node\<lparr>tw_executeQueue := q'\<rparr>)"
    using q' fresh flag node(1,2) by (auto simp: trigger_inv_def queue_ok_def TRIGGER_SET_FLAG_def)
  ultimately have "trigger_inv (put_node ws n ?node\<lparr>tw_executeQueue := q'\<rparr>) m"
    by (simp add: trigger_inv_def lists_ok_def head_list_def jobs_ok_def watch_ok_def)
  with q' show ?thesis by blast
qed

lemma pop_inv:
  assumes inv: "trigger_inv ws m"
  shows "\<exists>q'. ExecuteQueuePop (tw_executeQueue ws) = Some (q', case queued (tw_executeQueue ws) of [] \<Rightarrow> NULL | n # _ \<Rightarrow> Ref n) \<and>
    queued q' = tl (queued (tw_executeQueue ws)) \<and> trigger_inv (ws\<lparr>tw_executeQueue := q'\<rparr>) m"
proof -
  let ?q = "tw_executeQueue ws"
  have Q: "queue_ok ws" and wf: "queue_wf ?q" using inv by (simp_all add: trigger_inv_def queue_ok_def)
  from ExecuteQueuePop_law [OF wf] obtain q' where
    q': "queue_pop ?q = Some (q', case queued ?q of [] \<Rightarrow> None | x # _ \<Rightarrow> Some x)" "queue_wf q'" "queued q' = tl (queued ?q)" by auto
  from q'(1) obtain p where p: "ExecuteQueuePop ?q = Some (q', p)" "ref_option p = (case queued ?q of [] \<Rightarrow> None | x # _ \<Rightarrow> Some x)"
    by (auto simp: queue_pop_def bind_eq_Some_conv)
  have "p = (case queued ?q of [] \<Rightarrow> NULL | n # _ \<Rightarrow> Ref n)" using p(2) by (cases p) (auto split: list.splits)
  moreover have "queue_ok (ws\<lparr>tw_executeQueue := q'\<rparr>)"
    using Q q'(2,3) by (cases "queued ?q") (auto simp: queue_ok_def)
  then have "trigger_inv (ws\<lparr>tw_executeQueue := q'\<rparr>) m"
    using inv by (simp add: trigger_inv_def lists_ok_def head_list_def jobs_ok_def watch_ok_def)
  ultimately show ?thesis using p(1) q'(3) by auto
qed

text \<open>C18: A job that is added or updated is found under its name afterwards, as the same node it was before if there was one, and every other
  name finds what it found before. The condition may be any that converts; names are of any practical length.\<close>

theorem UpdateJobTrigger_lookup:
  assumes "trigger_inv ws m" "t \<le> TRIGGER_UNKNOW" "good_name name" "CopyCondition zero_node condition = Some (nd, 0)"
  shows "\<exists>ws' n. UpdateJobTrigger ws (int t) condition name = Some (ws', Ref n) \<and> GetTriggerByName ws' name = Some (Ref n) \<and>
    (GetTriggerByName ws name = Some (Ref n) \<or> GetTriggerByName ws name = Some NULL) \<and>
    (\<forall>other. good_name other \<longrightarrow> other \<noteq> name \<longrightarrow> GetTriggerByName ws' other = GetTriggerByName ws other)"
proof -
  obtain ws' n where u: "UpdateJobTrigger ws (int t) condition name = Some (ws', Ref n)" "trigger_inv ws' (m(name \<mapsto> n))"
      "\<forall>n'. m name = Some n' \<longrightarrow> n = n'"
    using UpdateJobTrigger_inv [OF assms] by blast
  have J: "jobs_ok ws m" "jobs_ok ws' (m(name \<mapsto> n))" using assms(1) u(2) by (simp_all add: trigger_inv_def)
  show ?thesis
    using u(1,3) assms(3) by (auto simp: GetTriggerByName_map [OF J(1)] GetTriggerByName_map [OF J(2)] split: option.split)
qed

subsection \<open>Every sequence of operations\<close>

definition blank_queue :: TriggerExecuteQueue where
  "blank_queue = \<lparr>eq_queueCount = 0, eq_startIndex = 0, eq_endIndex = 0, eq_executeQueue = []\<rparr>"

text \<open>The workspace of a process that has just started.\<close>

definition blank_ws :: TriggerWorkSpace where
  "blank_ws = \<lparr>tw_executeQueue = blank_queue, tw_triggerHead = replicate TRIGGER_MAX TriggerHeadSetDefault, tw_hashMap = None, tw_hashHeap = Map.empty,
     tw_nodes = Map.empty, tw_watchers = \<lambda>_. [], tw_next = 0, tw_tableId = 0\<rparr>"

definition initial_ws :: TriggerWorkSpace where
  "initial_ws = InitTriggerHead (blank_ws\<lparr>tw_executeQueue := \<lparr>eq_queueCount = TRIGGER_EXECUTE_QUEUE, eq_startIndex = 0, eq_endIndex = 0,
     eq_executeQueue = replicate TRIGGER_EXECUTE_QUEUE NULL\<rparr>\<rparr>)"

lemma InitTriggerWorkSpace_initial:
  "is_triggers s = blank_ws \<Longrightarrow> \<not> is_eventHandle s \<Longrightarrow> \<exists>s'. InitTriggerWorkSpace s = Some s' \<and> is_triggers s' = initial_ws"
  by (simp add: InitTriggerWorkSpace_def initial_ws_def)

inductive trigger_reach :: "TriggerWorkSpace \<Rightarrow> bool" where
  init: "trigger_reach initial_ws"
| job: "trigger_reach ws \<Longrightarrow> good_name name \<Longrightarrow> CopyCondition zero_node condition = Some (nd, 0) \<Longrightarrow>
    UpdateJobTrigger ws (int t) condition name = Some (ws', p) \<Longrightarrow> trigger_reach ws'"
| command: "trigger_reach ws \<Longrightarrow> add_counted ws t n cmdKeyIndex content cfgContext = Some ws' \<Longrightarrow> trigger_reach ws'"
| watch: "trigger_reach ws \<Longrightarrow> ei_watcher ext = Some w \<Longrightarrow> AddWatchTrigger ws condition ext = Some (ws', p) \<Longrightarrow> trigger_reach ws'"
| free: "trigger_reach ws \<Longrightarrow> tw_nodes ws n = Some node \<Longrightarrow> \<not> TRIGGER_IN_QUEUE node \<Longrightarrow> FreeTrigger ws n = Some ws' \<Longrightarrow> trigger_reach ws'"
| enqueue: "trigger_reach ws \<Longrightarrow> tw_nodes ws n = Some node \<Longrightarrow> tn_type node \<le> TRIGGER_UNKNOW \<Longrightarrow> \<not> TRIGGER_IN_QUEUE node \<Longrightarrow>
    queue_room (tw_executeQueue ws) > 0 \<Longrightarrow> ExecuteQueuePush (tw_executeQueue ws) (Ref n) = Some q' \<Longrightarrow>
    trigger_reach (put_node ws n (TRIGGER_SET_FLAG node TRIGGER_FLAGS_QUEUE)\<lparr>tw_executeQueue := q'\<rparr>)"
| dequeue: "trigger_reach ws \<Longrightarrow> ExecuteQueuePop (tw_executeQueue ws) = Some (q', p) \<Longrightarrow> trigger_reach (ws\<lparr>tw_executeQueue := q'\<rparr>)"
| finish: "trigger_reach ws \<Longrightarrow> tw_nodes ws n = Some node \<Longrightarrow> n \<notin> set (queued (tw_executeQueue ws)) \<Longrightarrow>
    trigger_reach (put_node ws n (TRIGGER_CLEAR_FLAG node TRIGGER_FLAGS_QUEUE))"

lemma initial_inv: "trigger_inv initial_ws Map.empty"
proof -
  obtain tab where t: "OH_HashMapCreate 0 (Some job_info) = (u32 1, Some tab, 0)" "jobs.table_map Map.empty tab Map.empty Map.empty"
    using jobs.OH_HashMapCreate_map [of 0 Map.empty Map.empty] by auto
  have ws: "initial_ws = blank_ws\<lparr>tw_executeQueue := \<lparr>eq_queueCount = TRIGGER_EXECUTE_QUEUE, eq_startIndex = 0, eq_endIndex = 0,
     eq_executeQueue = replicate TRIGGER_EXECUTE_QUEUE NULL\<rparr>, tw_tableId := u32 1, tw_hashMap := Some tab,
     tw_triggerHead := replicate TRIGGER_MAX TriggerHeadSetDefault\<rparr>"
    using t(1) by (simp add: initial_ws_def InitTriggerHead_def blank_ws_def)
  show ?thesis
    unfolding trigger_inv_def lists_ok_def jobs_ok_def queue_ok_def watch_ok_def ws
    using t(2) by (simp add: blank_ws_def head_list_def node_type_def TriggerHeadSetDefault_def queue_wf_def queued_def map_filter_def)
qed

lemma inv_upd_head:
  assumes "trigger_inv ws m" "\<And>h. th_triggerList (f h) = th_triggerList h" "\<And>h. th_triggerCount (f h) = th_triggerCount h"
  shows "trigger_inv (upd_head ws t f) m"
proof -
  have u: "tw_triggerHead (upd_head ws t f) ! u = (if u = t \<and> t < length (tw_triggerHead ws) then f (tw_triggerHead ws ! u) else tw_triggerHead ws ! u)" for u
    by (cases "t < length (tw_triggerHead ws)") (simp_all add: upd_head_def list_update_beyond)
  then have h: "th_triggerList (tw_triggerHead (upd_head ws t f) ! u) = th_triggerList (tw_triggerHead ws ! u)"
    "th_triggerCount (tw_triggerHead (upd_head ws t f) ! u) = th_triggerCount (tw_triggerHead ws ! u)" for u
    unfolding u by (simp_all add: assms(2,3))
  have "length (tw_triggerHead (upd_head ws t f)) = length (tw_triggerHead ws)" by (simp add: upd_head_def)
  with assms(1) h show ?thesis
    unfolding trigger_inv_def lists_ok_def jobs_ok_def queue_ok_def watch_ok_def head_list_def by simp
qed

lemma add_counted_inv:
  assumes "trigger_inv ws m" "add_counted ws t n cmdKeyIndex content cfgContext = Some ws'"
  shows "trigger_inv ws' m"
proof -
  from assms(2) obtain node where n: "tw_nodes ws n = Some node" by (auto simp: add_counted_def node_at_def bind_eq_Some_conv)
  let ?node = "fst (AddCommand node cmdKeyIndex content cfgContext)"
  have "trigger_inv (put_node ws n ?node) m"
    by (rule trigger_inv_put [OF assms(1) n]) (simp_all add: AddCommand_def TRIGGER_IN_QUEUE_def TRIGGER_TEST_FLAG_def)
  then have "trigger_inv (upd_head (put_node ws n ?node) t (\<lambda>h. h\<lparr>th_cmdNodeCount := th_cmdNodeCount h + 1\<rparr>)) m"
    by (rule inv_upd_head) simp_all
  with assms(2) n show ?thesis by (simp add: add_counted_def node_at_def AddCommand_def)
qed

lemma reach_inv: "trigger_reach ws \<Longrightarrow> \<exists>m. trigger_inv ws m"
proof (induction rule: trigger_reach.induct)
  case init
  show ?case using initial_inv by blast
next
  case (job ws name condition nd t ws' p)
  then obtain m where m: "trigger_inv ws m" by blast
  show ?case
  proof (cases "t \<le> TRIGGER_UNKNOW")
    case True
    from UpdateJobTrigger_inv [OF m True job.hyps(2,3)] job.hyps(4) show ?thesis by auto
  next
    case False
    with job.hyps(4) m show ?thesis by (auto simp: UpdateJobTrigger_def)
  qed
next
  case (command ws t n cmdKeyIndex content cfgContext ws')
  then show ?case using add_counted_inv by blast
next
  case (watch ws ext w condition ws' p)
  then obtain m where "trigger_inv ws m" by blast
  from AddWatchTrigger_inv [OF this watch.hyps(2), of condition] watch.hyps(3) show ?case by auto
next
  case (free ws n node ws')
  then obtain m where "trigger_inv ws m" by blast
  from FreeTrigger_inv [OF this free.hyps(2,3)] free.hyps(4) show ?case by auto
next
  case (enqueue ws n node q')
  then obtain m where "trigger_inv ws m" by blast
  from push_inv [OF this enqueue.hyps(2-5)] enqueue.hyps(6) show ?case by auto
next
  case (dequeue ws q' p)
  then obtain m where "trigger_inv ws m" by blast
  from pop_inv [OF this] dequeue.hyps(2) show ?case by auto
next
  case (finish ws n node)
  then obtain m where "trigger_inv ws m" by blast
  from trigger_inv_put [OF this finish.hyps(2), of "TRIGGER_CLEAR_FLAG node TRIGGER_FLAGS_QUEUE"] finish.hyps(3) show ?case
    by (auto simp: TRIGGER_CLEAR_FLAG_def)
qed


lemma demo_reach: "\<exists>ws n. UpdateJobTrigger initial_ws 0 None ''boot'' = Some (ws, Ref n) \<and> trigger_reach ws"
proof -
  have c: "CopyCondition zero_node None = Some (zero_node, 0)" by (simp add: CopyCondition_def)
  obtain ws n where u: "UpdateJobTrigger initial_ws (int 0) None ''boot'' = Some (ws, Ref n)"
    using UpdateJobTrigger_inv [OF initial_inv _ _ c, of 0 "''boot''"] by (auto simp: good_name_def)
  have "trigger_reach ws" by (rule trigger_reach.job [OF trigger_reach.init _ c u]) (simp add: good_name_def)
  with u show ?thesis by auto
qed


theorem UpdateJobTrigger_lookup_witness:
  "trigger_inv initial_ws Map.empty \<and>
   (\<exists>ws n. UpdateJobTrigger initial_ws 2 (Some ''a.b=1 && c=2'') ''job'' = Some (ws, Ref n) \<and> GetTriggerByName ws ''job'' = Some (Ref n))"
proof -
  let ?e = "And (Atom ''a.b'' ''1'') (Atom ''c'' ''2'')"
  have "plain ?e" "2 * operators ?e < 99" "2 * length (cond_text 0 ?e) < trigger_cache_size"
    by (simp_all add: plain_char_def isspace_def ascii_def)
  from ConvertInfixToPrefix_postfix [OF this] obtain nd where c: "CopyCondition zero_node (Some ''a.b=1 && c=2'') = Some (nd, 0)"
    by (auto simp: CopyCondition_def)
  have "good_name ''job''" by (simp add: good_name_def)
  with UpdateJobTrigger_lookup [OF initial_inv _ _ c, of 2 "''job''"] initial_inv show ?thesis by auto
qed

end
