(* ===== verification/Trigger_Events.thy ===== *)
theory Trigger_Events
  imports Trigger_Jobs
begin

text \<open>
  What an event does: the jobs whose condition names the parameter and holds are queued and their commands run, in the order
  of the configuration.
\<close>

subsection \<open>Commands\<close>

text \<open>Commands that change the rest of the process only.\<close>

definition quiet :: "'e Runner \<Rightarrow> (CommandNode \<Rightarrow> 'e \<Rightarrow> 'e) \<Rightarrow> bool" where
  "quiet rn f = (\<forall>c s. rn_doCmd rn c s = Some (s\<lparr>is_env := f c (is_env s)\<rparr>))"

lemma state_node_env [simp]: "state_node (s\<lparr>is_env := e\<rparr>) n = state_node s n"
  by (simp add: state_node_def)

lemma DoTriggerExecute_loop_quiet:
  assumes "quiet rn f"
  shows "state_node s n = Some node \<Longrightarrow> i < length (tn_cmds node) \<Longrightarrow>
    DoTriggerExecute_loop rn n (Some i) s = Some (s\<lparr>is_env := fold f (drop i (tn_cmds node)) (is_env s)\<rparr>)"
proof (induction "length (tn_cmds node) - i" arbitrary: i s)
  case (Suc k)
  let ?s = "s\<lparr>is_env := f (tn_cmds node ! i) (is_env s)\<rparr>"
  have step: "DoTriggerExecute_loop rn n (Some i) s = DoTriggerExecute_loop rn n (GetNextCmdNode node (Some i)) ?s"
    using Suc.prems assms by (subst DoTriggerExecute_loop.simps) (simp add: quiet_def)
  have d: "drop i (tn_cmds node) = tn_cmds node ! i # drop (i + 1) (tn_cmds node)" using Suc.prems(2) by (simp add: Cons_nth_drop_Suc)
  show ?case
  proof (cases "i + 1 < length (tn_cmds node)")
    case True
    with Suc.hyps(1) [of "i + 1" ?s] Suc.hyps(2) Suc.prems step d show ?thesis by (simp add: GetNextCmdNode_def)
  next
    case False
    with step d show ?thesis by (simp add: GetNextCmdNode_def DoTriggerExecute_loop.simps)
  qed
qed simp

lemma DoTriggerExecute_quiet:
  assumes "quiet rn f" "state_node s n = Some node" "tn_type node \<le> TRIGGER_UNKNOW"
  shows "DoTriggerExecute rn n s = Some (s\<lparr>is_env := fold f (tn_cmds node) (is_env s)\<rparr>)"
proof (cases "tn_cmds node = []")
  case True
  then show ?thesis using assms by (simp add: DoTriggerExecute_def GetNextCmdNode_def DoTriggerExecute_loop.simps)
next
  case False
  with DoTriggerExecute_loop_quiet [OF assms(1,2), of 0] assms show ?thesis by (simp add: DoTriggerExecute_def GetNextCmdNode_def)
qed

text \<open>A job that stays after it ran, and that starts no others.\<close>

definition plain_job :: "TriggerNode \<Rightarrow> bool" where
  "plain_job node = (tn_type node \<le> TRIGGER_UNKNOW \<and> \<not> TRIGGER_TEST_FLAG node TRIGGER_FLAGS_ONCE \<and>
     \<not> TRIGGER_TEST_FLAG node TRIGGER_FLAGS_SUBTRIGGER \<and> length (tn_name node) < 256)"

lemma flag_clear:
  fixes w :: "24 word"
  shows "(w AND - 2) AND 4 = w AND 4" "(w AND - 2) AND 8 = w AND 8"
  by (simp_all add: and.assoc)

lemma flag_set:
  fixes w :: "24 word"
  shows "(w OR 1) AND 4 = w AND 4" "(w OR 1) AND 8 = w AND 8"
  by (simp_all add: bit.conj_disj_distrib2)

lemma bit_0_flag: "(w :: 24 word) AND 1 = 1 \<longleftrightarrow> bit w 0"
  by (simp add: and_one_eq odd_iff_mod_2_eq_one [symmetric] bit_0)

lemma flag_set_clear:
  fixes w :: "24 word"
  assumes "w AND 1 \<noteq> 1"
  shows "(w OR 1) AND - 2 = w"
proof -
  have w: "\<not> bit w 0" using assms bit_0_flag by blast
  have "(w OR 1) AND NOT 1 = w" by (rule bit_word_eqI) (use w in \<open>auto simp: bit_simps intro: gr0I\<close>)
  then show ?thesis by simp
qed

lemma StartTriggerExecute_quiet:
  assumes "quiet rn f" "tw_nodes (is_triggers s) n = Some node" "plain_job node"
  shows "StartTriggerExecute rn n s =
    Some (state_put (s\<lparr>is_env := fold f (tn_cmds node) (is_env s)\<rparr>) n (TRIGGER_CLEAR_FLAG node TRIGGER_FLAGS_QUEUE))"
proof -
  have n: "state_node s n = Some node" using assms(2) by (simp add: state_node_def node_at_def)
  have t: "tn_type node \<le> TRIGGER_UNKNOW" using assms(3) by (simp add: plain_job_def)
  let ?node = "TRIGGER_CLEAR_FLAG node TRIGGER_FLAGS_QUEUE"
  have flags: "\<not> TRIGGER_TEST_FLAG ?node TRIGGER_FLAGS_ONCE" "\<not> TRIGGER_TEST_FLAG ?node TRIGGER_FLAGS_SUBTRIGGER"
    using assms(3) by (simp_all add: plain_job_def TRIGGER_TEST_FLAG_def TRIGGER_CLEAR_FLAG_def flag_clear)
  have put: "state_node (state_put a n ?node) n = Some ?node" for a :: "'a InitState" by (simp add: state_node_def state_put_def node_at_def)
  show ?thesis
    using DoTriggerExecute_quiet [OF assms(1) n t] n t flags put
    by (simp add: StartTriggerExecute_def GetTriggerHeader_def executeTrigger_def clear_queue_flag_def run_subtriggers_def free_if_once_def)
qed

subsection \<open>Running the queue\<close>

text \<open>The state after the jobs of a list ran.\<close>

definition ran_jobs :: "(CommandNode \<Rightarrow> 'e \<Rightarrow> 'e) \<Rightarrow> nodes \<Rightarrow> nat list \<Rightarrow> 'e \<Rightarrow> 'e" where
  "ran_jobs f mem ns e = fold (\<lambda>n. fold f (tn_cmds (the (mem n)))) ns e"

lemma ran_jobs_cong: "\<forall>n \<in> set ns. mem' n = mem n \<Longrightarrow> ran_jobs f mem' ns e = ran_jobs f mem ns e"
  by (induction ns arbitrary: e) (simp_all add: ran_jobs_def)

definition finished :: "nodes \<Rightarrow> nat list \<Rightarrow> nodes" where
  "finished mem ns = (\<lambda>n. if n \<in> set ns then map_option (\<lambda>t. TRIGGER_CLEAR_FLAG t TRIGGER_FLAGS_QUEUE) (mem n) else mem n)"

lemma pop_state:
  assumes "trigger_inv (is_triggers s) m"
  shows "\<exists>s'. state_pop s = Some (s', case queued (tw_executeQueue (is_triggers s)) of [] \<Rightarrow> NULL | n # _ \<Rightarrow> Ref n) \<and>
    queued (tw_executeQueue (is_triggers s')) = tl (queued (tw_executeQueue (is_triggers s))) \<and> trigger_inv (is_triggers s') m \<and>
    tw_nodes (is_triggers s') = tw_nodes (is_triggers s) \<and> tw_triggerHead (is_triggers s') = tw_triggerHead (is_triggers s) \<and>
    is_env s' = is_env s \<and> is_params s' = is_params s"
  using pop_inv [OF assms] by (auto simp: state_pop_def)

lemma run_one:
  assumes inv: "trigger_inv (is_triggers s) m" and q: "quiet rn f" and node: "tw_nodes (is_triggers s) n = Some node" "plain_job node"
    and new: "n \<notin> set (queued (tw_executeQueue (is_triggers s)))"
  shows "\<exists>s'. StartTriggerExecute rn n s = Some s' \<and> trigger_inv (is_triggers s') m \<and>
    tw_executeQueue (is_triggers s') = tw_executeQueue (is_triggers s) \<and> tw_nodes (is_triggers s') = finished (tw_nodes (is_triggers s)) [n] \<and>
    tw_triggerHead (is_triggers s') = tw_triggerHead (is_triggers s) \<and> is_env s' = fold f (tn_cmds node) (is_env s) \<and> is_params s' = is_params s"
proof -
  let ?s = "state_put (s\<lparr>is_env := fold f (tn_cmds node) (is_env s)\<rparr>) n (TRIGGER_CLEAR_FLAG node TRIGGER_FLAGS_QUEUE)"
  have "trigger_inv (is_triggers ?s) m"
    using trigger_inv_put [OF inv node(1), of "TRIGGER_CLEAR_FLAG node TRIGGER_FLAGS_QUEUE"] new by (simp add: state_put_def TRIGGER_CLEAR_FLAG_def)
  moreover have "tw_nodes (is_triggers ?s) = finished (tw_nodes (is_triggers s)) [n]"
    using node(1) by (auto simp: state_put_def finished_def)
  ultimately show ?thesis using StartTriggerExecute_quiet [OF q node] by (auto simp: state_put_def)
qed

lemma ExecuteQueueWork_loop_quiet:
  assumes q: "quiet rn f"
  shows "trigger_inv (is_triggers s) m \<Longrightarrow> queued (tw_executeQueue (is_triggers s)) = ns \<Longrightarrow>
    \<forall>n \<in> set (n0 # ns). \<exists>node. tw_nodes (is_triggers s) n = Some node \<and> plain_job node \<Longrightarrow> n0 \<notin> set ns \<Longrightarrow> k + length ns \<le> maxCount \<Longrightarrow>
    \<exists>s'. ExecuteQueueWork_loop rn maxCount None k (Ref n0) s = Some s' \<and> trigger_inv (is_triggers s') m \<and>
      queued (tw_executeQueue (is_triggers s')) = [] \<and> tw_nodes (is_triggers s') = finished (tw_nodes (is_triggers s)) (n0 # ns) \<and>
      tw_triggerHead (is_triggers s') = tw_triggerHead (is_triggers s) \<and>
      is_env s' = ran_jobs f (tw_nodes (is_triggers s)) (n0 # ns) (is_env s) \<and> is_params s' = is_params s"
proof (induction ns arbitrary: n0 k s)
  case Nil
  from Nil.prems(3) obtain node where node: "tw_nodes (is_triggers s) n0 = Some node" "plain_job node" by auto
  from run_one [OF Nil.prems(1) q node] Nil.prems(2) obtain s1 where
    1: "StartTriggerExecute rn n0 s = Some s1" "trigger_inv (is_triggers s1) m" "tw_executeQueue (is_triggers s1) = tw_executeQueue (is_triggers s)"
      "tw_nodes (is_triggers s1) = finished (tw_nodes (is_triggers s)) [n0]" "tw_triggerHead (is_triggers s1) = tw_triggerHead (is_triggers s)"
      "is_env s1 = fold f (tn_cmds node) (is_env s)" "is_params s1 = is_params s" by auto
  from pop_state [OF 1(2)] Nil.prems(2) 1(3) obtain s2 where
    2: "state_pop s1 = Some (s2, NULL)" "trigger_inv (is_triggers s2) m" "queued (tw_executeQueue (is_triggers s2)) = []"
      "tw_nodes (is_triggers s2) = tw_nodes (is_triggers s1)" "tw_triggerHead (is_triggers s2) = tw_triggerHead (is_triggers s1)"
      "is_env s2 = is_env s1" "is_params s2 = is_params s1" by auto
  have len: "length (GetTriggerName (is_triggers s) node) < 256"
    using node(2) by (simp add: plain_job_def GetTriggerName_def GetTriggerHeader_def GetJobName_def)
  have "ExecuteQueueWork_loop rn maxCount None k (Ref n0) s = (if k + 1 > maxCount then Some s1 else Some s2)"
    using node(1) len 1(1) 2(1) by (subst ExecuteQueueWork_loop.simps)
      (simp add: state_node_def node_at_def notify_boot_def ExecuteQueueWork_loop.simps [of _ _ _ _ NULL])
  with 1 2 Nil.prems(2) node(1) show ?case by (auto simp: ran_jobs_def)
next
  case (Cons n1 ns)
  from Cons.prems(3) obtain node where node: "tw_nodes (is_triggers s) n0 = Some node" "plain_job node" by auto
  from run_one [OF Cons.prems(1) q node] Cons.prems(2,4) obtain s1 where
    1: "StartTriggerExecute rn n0 s = Some s1" "trigger_inv (is_triggers s1) m" "tw_executeQueue (is_triggers s1) = tw_executeQueue (is_triggers s)"
      "tw_nodes (is_triggers s1) = finished (tw_nodes (is_triggers s)) [n0]" "tw_triggerHead (is_triggers s1) = tw_triggerHead (is_triggers s)"
      "is_env s1 = fold f (tn_cmds node) (is_env s)" "is_params s1 = is_params s" by auto
  from pop_state [OF 1(2)] Cons.prems(2) 1(3) obtain s2 where
    2: "state_pop s1 = Some (s2, Ref n1)" "trigger_inv (is_triggers s2) m" "queued (tw_executeQueue (is_triggers s2)) = ns"
      "tw_nodes (is_triggers s2) = tw_nodes (is_triggers s1)" "tw_triggerHead (is_triggers s2) = tw_triggerHead (is_triggers s1)"
      "is_env s2 = is_env s1" "is_params s2 = is_params s1" by auto
  have len: "length (GetTriggerName (is_triggers s) node) < 256"
    using node(2) by (simp add: plain_job_def GetTriggerName_def GetTriggerHeader_def GetJobName_def)
  have step: "ExecuteQueueWork_loop rn maxCount None k (Ref n0) s = ExecuteQueueWork_loop rn maxCount None (k + 1) (Ref n1) s2"
    using node(1) len 1(1) 2(1) Cons.prems(5) by (subst ExecuteQueueWork_loop.simps)
      (simp add: state_node_def node_at_def notify_boot_def)
  have dist: "distinct (n1 # ns)" using Cons.prems(1,2) by (auto simp: trigger_inv_def queue_ok_def)
  have same: "tw_nodes (is_triggers s2) n = tw_nodes (is_triggers s) n" if "n \<noteq> n0" for n using that 2(4) 1(4) by (simp add: finished_def)
  have "\<forall>n \<in> set (n1 # ns). \<exists>node. tw_nodes (is_triggers s2) n = Some node \<and> plain_job node"
    using Cons.prems(3,4) same by (metis list.set_intros(2))
  from Cons.IH [OF 2(2,3) this, of "k + 1"] dist Cons.prems(5) obtain s' where
    s': "ExecuteQueueWork_loop rn maxCount None (k + 1) (Ref n1) s2 = Some s'" "trigger_inv (is_triggers s') m"
      "queued (tw_executeQueue (is_triggers s')) = []" "tw_nodes (is_triggers s') = finished (tw_nodes (is_triggers s2)) (n1 # ns)"
      "tw_triggerHead (is_triggers s') = tw_triggerHead (is_triggers s2)"
      "is_env s' = ran_jobs f (tw_nodes (is_triggers s2)) (n1 # ns) (is_env s2)" "is_params s' = is_params s2" by auto
  have "finished (tw_nodes (is_triggers s2)) (n1 # ns) = finished (tw_nodes (is_triggers s)) (n0 # n1 # ns)"
    using Cons.prems(4) 2(4) 1(4) by (auto simp: finished_def fun_eq_iff)
  moreover have "ran_jobs f (tw_nodes (is_triggers s2)) (n1 # ns) e = ran_jobs f (tw_nodes (is_triggers s)) (n1 # ns) e" for e
    using Cons.prems(4) same by (intro ran_jobs_cong) metis
  ultimately show ?case using step s' 1 2 node(1) by (auto simp: ran_jobs_def)
qed

lemma ExecuteQueueWork_quiet:
  assumes q: "quiet rn f" and inv: "trigger_inv (is_triggers s) m" and ns: "queued (tw_executeQueue (is_triggers s)) = ns" "length ns \<le> maxCount + 1"
    and nodes: "\<forall>n \<in> set ns. \<exists>node. tw_nodes (is_triggers s) n = Some node \<and> plain_job node"
  shows "\<exists>s'. ExecuteQueueWork rn maxCount None s = Some s' \<and> trigger_inv (is_triggers s') m \<and>
    queued (tw_executeQueue (is_triggers s')) = [] \<and> tw_nodes (is_triggers s') = finished (tw_nodes (is_triggers s)) ns \<and>
    tw_triggerHead (is_triggers s') = tw_triggerHead (is_triggers s) \<and>
    is_env s' = ran_jobs f (tw_nodes (is_triggers s)) ns (is_env s) \<and> is_params s' = is_params s"
proof -
  from pop_state [OF inv] obtain s1 where
    1: "state_pop s = Some (s1, case ns of [] \<Rightarrow> NULL | n # _ \<Rightarrow> Ref n)" "trigger_inv (is_triggers s1) m"
      "queued (tw_executeQueue (is_triggers s1)) = tl ns" "tw_nodes (is_triggers s1) = tw_nodes (is_triggers s)"
      "tw_triggerHead (is_triggers s1) = tw_triggerHead (is_triggers s)" "is_env s1 = is_env s" "is_params s1 = is_params s"
    using ns(1) by auto
  show ?thesis
  proof (cases ns)
    case Nil
    with 1 show ?thesis by (simp add: ExecuteQueueWork_def ExecuteQueueWork_loop.simps ran_jobs_def finished_def)
  next
    case (Cons n0 rest)
    have "distinct ns" using inv ns(1) by (auto simp: trigger_inv_def queue_ok_def)
    with ExecuteQueueWork_loop_quiet [OF q 1(2), of rest n0 0 maxCount] 1 nodes ns Cons show ?thesis
      by (auto simp: ExecuteQueueWork_def)
  qed
qed

subsection \<open>Matching\<close>

lemma successor_split: "distinct (xs @ n # ys) \<Longrightarrow> successor (xs @ n # ys) n = (case ys of [] \<Rightarrow> None | y # _ \<Rightarrow> Some y)"
proof (induction xs)
  case Nil
  then show ?case by (cases ys) auto
next
  case (Cons x xs)
  obtain z zs where z: "xs @ n # ys = z # zs" by (cases xs) auto
  have "successor ((x # xs) @ n # ys) n = successor (xs @ n # ys) n" using Cons.prems by (simp add: z) (metis Cons.prems append_Cons distinct.simps(2) in_set_conv_decomp z)
  with Cons show ?case by simp
qed

definition first_of :: "nat list \<Rightarrow> ptr" where
  "first_of xs = (case xs of [] \<Rightarrow> NULL | x # _ \<Rightarrow> Ref x)"

lemma GetNextTrigger_split:
  "head_list ws t = xs @ n # ys \<Longrightarrow> distinct (xs @ n # ys) \<Longrightarrow> GetNextTrigger ws t (Ref n) = Some (first_of ys)"
  by (simp add: GetNextTrigger_def head_list_def successor_split first_of_def split: list.split)

text \<open>A job that waits for parameters: its condition is what the conversion wrote for \<open>e\<close>.\<close>

definition waits_for :: "TriggerNode \<Rightarrow> expr \<Rightarrow> bool" where
  "waits_for node e = (tn_condition node = Some (postfix_text e) \<and> plain e \<and> 2 * operators e < 99 \<and> plain_job node \<and> \<not> TRIGGER_IN_QUEUE node)"

definition fires :: "ParamWorkSpace \<Rightarrow> string \<Rightarrow> expr \<Rightarrow> bool" where
  "fires pw name e = (CheckMatchSubCondition (postfix_text e) name (length name) \<and> holds (space_params pw) e)"

definition marked :: "nodes \<Rightarrow> nat list \<Rightarrow> nodes" where
  "marked mem ns = (\<lambda>n. if n \<in> set ns then map_option (\<lambda>t. TRIGGER_SET_FLAG t TRIGGER_FLAGS_QUEUE) (mem n) else mem n)"

lemma checkCondition_param:
  assumes "waits_for node e" "privileged pw" "ready c" "lc_inputName c = Some name"
  shows "\<exists>c'. checkCondition TRIGGER_PARAM musl pw c (getCondition TRIGGER_PARAM node) content len = Some (c', if fires pw name e then 1 else 0) \<and>
    ready c' \<and> lc_inputName c' = Some name"
proof -
  have c: "getCondition TRIGGER_PARAM node = postfix_text e" using assms(1) by (simp add: getCondition_def GetTriggerCondition_def waits_for_def)
  from ComputeCondition_holds [of e pw c musl] assms obtain c' where
    c': "ComputeCondition musl pw c (postfix_text e) = Some (c', if holds (space_params pw) e then 1 else 0)" "ready c'"
    by (auto simp: waits_for_def)
  show ?thesis
    using c' ComputeCondition_input [OF c'(1)] assms(3,4) unfolding c
    by (cases "CheckMatchSubCondition (postfix_text e) name (length name)") (auto simp: checkCondition_def CheckParamCondition_def fires_def)
qed

lemma enqueue_one:
  assumes inv: "trigger_inv (is_triggers s) m" and node: "tw_nodes (is_triggers s) n = Some node" "waits_for node e"
    and room: "queue_room (tw_executeQueue (is_triggers s)) > 0"
  shows "\<exists>s'. DoTriggerCheckResult n content len s = Some s' \<and> trigger_inv (is_triggers s') m \<and>
    queued (tw_executeQueue (is_triggers s')) = queued (tw_executeQueue (is_triggers s)) @ [n] \<and>
    queue_room (tw_executeQueue (is_triggers s)) = Suc (queue_room (tw_executeQueue (is_triggers s'))) \<and>
    tw_nodes (is_triggers s') = marked (tw_nodes (is_triggers s)) [n] \<and> tw_triggerHead (is_triggers s') = tw_triggerHead (is_triggers s) \<and>
    is_env s' = is_env s \<and> is_params s' = is_params s"
proof -
  let ?ws = "is_triggers s"
  have n: "tn_type node \<le> TRIGGER_UNKNOW" "\<not> TRIGGER_IN_QUEUE node" using node(2) by (auto simp: waits_for_def plain_job_def)
  from push_inv [OF inv node(1) n room] obtain q' where
    q': "ExecuteQueuePush (tw_executeQueue ?ws) (Ref n) = Some q'" "queued q' = queued (tw_executeQueue ?ws) @ [n]"
      "trigger_inv (put_node ?ws n (TRIGGER_SET_FLAG node TRIGGER_FLAGS_QUEUE)\<lparr>tw_executeQueue := q'\<rparr>) m" by auto
  have "queue_wf (tw_executeQueue ?ws)" using inv by (simp add: trigger_inv_def queue_ok_def)
  from ExecuteQueuePush_law [OF this room, of n] q'(1) have r: "queue_room (tw_executeQueue ?ws) = Suc (queue_room q')" by auto
  have "DoTriggerCheckResult n content len s =
      Some (s\<lparr>is_triggers := put_node ?ws n (TRIGGER_SET_FLAG node TRIGGER_FLAGS_QUEUE)\<lparr>tw_executeQueue := q'\<rparr>\<rparr>)"
    using node(1) n(2) q'(1) by (simp add: DoTriggerCheckResult_def state_node_def node_at_def state_push_def state_put_def)
  moreover have "(tw_nodes ?ws)(n \<mapsto> TRIGGER_SET_FLAG node TRIGGER_FLAGS_QUEUE) = marked (tw_nodes ?ws) [n]"
    using node(1) by (auto simp: marked_def)
  ultimately show ?thesis using q'(2,3) r by auto
qed

text \<open>One state follows another when a list of jobs was queued.\<close>

definition enqueued :: "(string \<Rightarrow> nat option) \<Rightarrow> nat list \<Rightarrow> 'e InitState \<Rightarrow> 'e InitState \<Rightarrow> bool" where
  "enqueued m ns s s' = (trigger_inv (is_triggers s') m \<and>
     queued (tw_executeQueue (is_triggers s')) = queued (tw_executeQueue (is_triggers s)) @ ns \<and>
     queue_room (tw_executeQueue (is_triggers s)) = queue_room (tw_executeQueue (is_triggers s')) + length ns \<and>
     tw_nodes (is_triggers s') = marked (tw_nodes (is_triggers s)) ns \<and> tw_triggerHead (is_triggers s') = tw_triggerHead (is_triggers s) \<and>
     is_env s' = is_env s \<and> is_params s' = is_params s)"

lemma enqueued_none: "trigger_inv (is_triggers s) m \<Longrightarrow> enqueued m [] s s"
  by (simp add: enqueued_def marked_def)

lemma enqueued_append:
  assumes "enqueued m [n] s s1" "enqueued m ns s1 s2" "n \<notin> set ns"
  shows "enqueued m (n # ns) s s2"
proof -
  have "marked (marked mem [n]) ns = marked mem (n # ns)" for mem using assms(3) by (auto simp: marked_def)
  with assms(1,2) show ?thesis by (simp add: enqueued_def)
qed

lemma ExecTriggerMatch_loop_param:
  assumes priv: "privileged pw"
  shows "trigger_inv (is_triggers s) m \<Longrightarrow> head_list (is_triggers s) TRIGGER_PARAM = ys @ xs \<Longrightarrow> distinct (ys @ xs) \<Longrightarrow> is_params s = pw \<Longrightarrow>
    ready c \<Longrightarrow> lc_inputName c = Some name \<Longrightarrow>
    \<forall>n \<in> set xs. \<exists>node. tw_nodes (is_triggers s) n = Some node \<and> waits_for node (cond n) \<Longrightarrow>
    length (filter (\<lambda>n. fires pw name (cond n)) xs) \<le> queue_room (tw_executeQueue (is_triggers s)) \<Longrightarrow>
    \<exists>s'. ExecTriggerMatch_loop rn DoTriggerCheckResult TRIGGER_PARAM content len (first_of xs) c s = Some s' \<and>
      enqueued m (filter (\<lambda>n. fires pw name (cond n)) xs) s s'"
proof (induction xs arbitrary: s ys c)
  case Nil
  then show ?case using enqueued_none by (auto simp: first_of_def ExecTriggerMatch_loop.simps)
next
  case (Cons n xs)
  from Cons.prems(7) obtain node where node: "tw_nodes (is_triggers s) n = Some node" "waits_for node (cond n)" by auto
  from checkCondition_param [OF node(2) priv Cons.prems(5,6), of "rn_musl rn" content len] obtain c' where
    c': "checkCondition TRIGGER_PARAM (rn_musl rn) pw c (getCondition TRIGGER_PARAM node) content len = Some (c', if fires pw name (cond n) then 1 else 0)"
      "ready c'" "lc_inputName c' = Some name" by auto
  have nxt: "GetNextTrigger (is_triggers s) TRIGGER_PARAM (Ref n) = Some (first_of xs)"
    by (rule GetNextTrigger_split [OF Cons.prems(2)]) (use Cons.prems(3) in simp)
  have step: "ExecTriggerMatch_loop rn DoTriggerCheckResult TRIGGER_PARAM content len (first_of (n # xs)) c s =
      do { s \<leftarrow> (if fires pw name (cond n) then DoTriggerCheckResult n content len s else Some s);
           ExecTriggerMatch_loop rn DoTriggerCheckResult TRIGGER_PARAM content len (first_of xs) c' s }"
    using nxt node(1) c'(1) Cons.prems(4)
    by (simp add: first_of_def ExecTriggerMatch_loop.simps [of _ _ _ _ _ "Ref n"] state_node_def node_at_def)
  show ?case
  proof (cases "fires pw name (cond n)")
    case False
    with Cons.IH [OF Cons.prems(1) _ _ Cons.prems(4) c'(2,3), of "ys @ [n]"] Cons.prems(2,3,7,8) step show ?thesis by simp
  next
    case True
    from enqueue_one [OF Cons.prems(1) node, of content len] Cons.prems(8) True obtain s1 where
      1: "DoTriggerCheckResult n content len s = Some s1" "enqueued m [n] s s1" by (auto simp: enqueued_def)
    then have e: "trigger_inv (is_triggers s1) m" "tw_nodes (is_triggers s1) = marked (tw_nodes (is_triggers s)) [n]"
        "tw_triggerHead (is_triggers s1) = tw_triggerHead (is_triggers s)" "is_params s1 = pw"
        "queue_room (tw_executeQueue (is_triggers s)) = Suc (queue_room (tw_executeQueue (is_triggers s1)))"
      using Cons.prems(4) by (auto simp: enqueued_def)
    have "n \<notin> set xs" using Cons.prems(3) by simp
    then have "\<forall>a \<in> set xs. \<exists>node. tw_nodes (is_triggers s1) a = Some node \<and> waits_for node (cond a)"
      using Cons.prems(7) by (auto simp: e(2) marked_def)
    moreover have "head_list (is_triggers s1) TRIGGER_PARAM = (ys @ [n]) @ xs" using Cons.prems(2) e(3) by (simp add: head_list_def)
    ultimately obtain s2 where "ExecTriggerMatch_loop rn DoTriggerCheckResult TRIGGER_PARAM content len (first_of xs) c' s1 = Some s2"
        "enqueued m (filter (\<lambda>n. fires pw name (cond n)) xs) s1 s2"
      using Cons.IH [OF e(1) _ _ e(4) c'(2,3), of "ys @ [n]"] Cons.prems(3,8) e(5) True by auto
    with step 1 True enqueued_append [OF 1(2)] \<open>n \<notin> set xs\<close> show ?thesis by simp
  qed
qed

lemma finished_marked:
  assumes "\<forall>n \<in> set ns. \<exists>node. mem n = Some node \<and> \<not> TRIGGER_IN_QUEUE node"
  shows "finished (marked mem ns) ns = mem"
proof
  fix n
  show "finished (marked mem ns) ns n = mem n"
  proof (cases "n \<in> set ns")
    case True
    with assms obtain node where "mem n = Some node" "tn_flags node AND 1 \<noteq> 1"
      by (auto simp: TRIGGER_IN_QUEUE_def TRIGGER_TEST_FLAG_def)
    with True flag_set_clear show ?thesis by (simp add: finished_def marked_def TRIGGER_CLEAR_FLAG_def TRIGGER_SET_FLAG_def)
  qed (simp add: finished_def marked_def)
qed

lemma marked_plain: "waits_for node e \<Longrightarrow> plain_job (TRIGGER_SET_FLAG node TRIGGER_FLAGS_QUEUE)"
  by (simp add: waits_for_def plain_job_def TRIGGER_TEST_FLAG_def TRIGGER_SET_FLAG_def flag_set)

lemma ran_jobs_marked:
  "\<forall>n \<in> set ns. mem n \<noteq> None \<Longrightarrow> ran_jobs f (marked mem xs) ns e = ran_jobs f mem ns e"
  by (induction ns arbitrary: e) (auto simp: ran_jobs_def marked_def TRIGGER_SET_FLAG_def)

text \<open>The text of an event is split into the name and the value.\<close>

lemma event_split:
  assumes "CHR ''='' \<notin> set name" "CHR ''='' \<notin> set val" "CHR 0x00 \<notin> set name" "CHR 0x00 \<notin> set val" "length name < 128" "length val < 128"
  shows "GetValueFromContent (name @ ''='' @ val) (length (name @ ''='' @ val)) 0 128 = Some (name, 0)"
    "GetValueFromContent (name @ ''='' @ val) (length (name @ ''='' @ val)) (length name + 1) 128 = Some (val, 0)"
  using GetValueFromContent_run [OF assms(1), of "[]" 128 "[]" "length (name @ ''='' @ val)" "''='' @ val"]
    GetValueFromContent_run [OF assms(2), of "[]" 128 "name @ ''=''" "length (name @ ''='' @ val)" "[]"] assms
  by (auto simp: GetValueFromContent_def takeWhile_eq_all_conv)


text \<open>A workspace with one job that waits for \<open>a.b\<close>, and commands that are recorded.\<close>

definition demo_job :: TriggerNode where
  "demo_job = zero_node\<lparr>tn_type := TRIGGER_PARAM, tn_name := ''param:x'', tn_condition := Some (postfix_text (Atom ''a.b'' ''v'')),
     tn_cmds := [\<lparr>cn_cfgContext = 1, cn_cmdKeyIndex = 7, cn_content = ''svc''\<rparr>]\<rparr>"

definition demo_runner :: "CommandNode list Runner" where
  "demo_runner = \<lparr>rn_musl = True, rn_doCmd = \<lambda>c s. Some (s\<lparr>is_env := is_env s @ [c]\<rparr>), rn_notify = \<lambda>_ _ _. Some\<rparr>"

definition demo_state :: "TriggerWorkSpace \<Rightarrow> CommandNode list InitState" where
  "demo_state ws = \<lparr>is_triggers = ws, is_params = demo_pw, is_events = [], is_eventHandle = True, is_env = []\<rparr>"

lemma distinct_singleton: "distinct xs \<Longrightarrow> set xs = {a} \<Longrightarrow> xs = [a]"
  by (cases xs; cases "tl xs") auto

lemma demo_job_ws: "\<exists>ws m. trigger_inv ws m \<and> head_list ws TRIGGER_PARAM = [0] \<and> tw_nodes ws 0 = Some demo_job \<and>
  queued (tw_executeQueue ws) = [] \<and> queue_room (tw_executeQueue ws) = 64"
proof -
  have init: "tw_next initial_ws = 0" "tw_nodes initial_ws = Map.empty" "queued (tw_executeQueue initial_ws) = []"
      "queue_room (tw_executeQueue initial_ws) = 64"
    by (simp_all add: initial_ws_def InitTriggerHead_def OH_HashMapCreate_def job_info_def blank_ws_def queued_def map_filter_def queue_room_def)
  from AddJobNode_inv [OF initial_inv, of "demo_job\<lparr>tn_name := []\<rparr>" "''param:x''"] init obtain ws where
    ws: "tw_nodes ws = [0 \<mapsto> demo_job\<lparr>tn_cmds := []\<rparr>]" "tw_executeQueue ws = tw_executeQueue initial_ws" "trigger_inv ws [''param:x'' \<mapsto> 0]"
    by (auto simp: demo_job_def zero_node_def good_name_def)
  let ?ws = "put_node ws 0 demo_job"
  have inv: "trigger_inv ?ws [''param:x'' \<mapsto> 0]"
    by (rule trigger_inv_put [OF ws(3), of 0 "demo_job\<lparr>tn_cmds := []\<rparr>"])
      (simp_all add: ws(1) demo_job_def zero_node_def TRIGGER_IN_QUEUE_def TRIGGER_TEST_FLAG_def)
  then have "distinct (head_list ?ws TRIGGER_PARAM)" "set (head_list ?ws TRIGGER_PARAM) = {n. node_type (tw_nodes ?ws) n = Some TRIGGER_PARAM}"
    by (simp_all add: trigger_inv_def lists_ok_def)
  moreover have "{n. node_type (tw_nodes ?ws) n = Some TRIGGER_PARAM} = {0}" using ws(1) by (auto simp: node_type_def demo_job_def split: if_splits)
  ultimately have "head_list ?ws TRIGGER_PARAM = [0]" by (metis distinct_singleton)
  with inv ws(2) init show ?thesis by (intro exI [of _ ?ws] exI) simp
qed


subsection \<open>Executing a job that waits\<close>

text \<open>A job that does not wait does not touch the queue when it is deleted.\<close>

lemma DelJobTrigger_queue:
  assumes "tw_nodes ws n = Some node" "\<not> TRIGGER_IN_QUEUE node"
  shows "DelJobTrigger (ws\<lparr>tw_executeQueue := q\<rparr>) n = map_option (\<lambda>w. w\<lparr>tw_executeQueue := q\<rparr>) (DelJobTrigger ws n)"
  using assms
  by (cases "OH_HashMapRemove ((tw_nodes ws)(n \<mapsto> node\<lparr>tn_condition := None, tn_cmds := []\<rparr>)) (tw_hashHeap ws) (tw_hashMap ws) (tn_name node)")
    (auto simp: DelJobTrigger_def node_at_def GetTriggerHeader_def Let_def put_node_def upd_head_def unlist_def free_trigger_def)

lemma trigger_inv_idle:
  "trigger_inv ws m \<Longrightarrow> trigger_inv (ws\<lparr>tw_executeQueue := tw_executeQueue initial_ws\<rparr>) m"
  using initial_inv by (auto simp: trigger_inv_def lists_ok_def head_list_def jobs_ok_def queue_ok_def watch_ok_def
      initial_ws_def InitTriggerHead_def OH_HashMapCreate_def job_info_def blank_ws_def queued_def map_filter_def)

text \<open>C37: Executing a boot job at once while it waits in the queue frees it and leaves its address there: the job is marked as not
  waiting before it is freed, so it is not taken out, and the next work on the queue reads freed memory.\<close>

theorem DoJobExecNow_dangling:
  assumes inv: "trigger_inv (is_triggers s) m" and quiet: "quiet rn f" and on: "is_eventHandle s"
    and name: "good_name name" "m name = Some n" "\<not> strncmp_eq name ''reboot'' 6"
    and node: "tw_nodes (is_triggers s) n = Some node" "tn_type node = TRIGGER_BOOT" "TRIGGER_TEST_FLAG node TRIGGER_FLAGS_ONCE"
      "\<not> TRIGGER_TEST_FLAG node TRIGGER_FLAGS_SUBTRIGGER"
    and waits: "queued (tw_executeQueue (is_triggers s)) = n # rest"
  shows "\<exists>s'. DoJobExecNow rn shut name s = Some s' \<and> ExecuteQueueWork rn maxCount change s' = None"
proof -
  let ?ws = "is_triggers s" and ?node = "TRIGGER_CLEAR_FLAG node TRIGGER_FLAGS_QUEUE" and ?q = "tw_executeQueue (is_triggers s)"
  have J: "jobs_ok ?ws m" and Q: "queue_ok ?ws" using inv by (simp_all add: trigger_inv_def)
  have n: "state_node s n = Some node" using node(1) by (simp add: state_node_def node_at_def)
  have flags: "TRIGGER_TEST_FLAG ?node TRIGGER_FLAGS_ONCE" "\<not> TRIGGER_TEST_FLAG ?node TRIGGER_FLAGS_SUBTRIGGER" "\<not> TRIGGER_IN_QUEUE ?node"
    using node(3,4) by (simp_all add: TRIGGER_TEST_FLAG_def TRIGGER_CLEAR_FLAG_def TRIGGER_IN_QUEUE_def flag_clear and.assoc)
  let ?idle = "?ws\<lparr>tw_executeQueue := tw_executeQueue initial_ws\<rparr>"
  have "trigger_inv (put_node ?idle n ?node) m"
    by (rule trigger_inv_put [OF trigger_inv_idle [OF inv], of n node])
      (use node(1) in \<open>simp_all add: TRIGGER_CLEAR_FLAG_def initial_ws_def InitTriggerHead_def OH_HashMapCreate_def job_info_def blank_ws_def queued_def map_filter_def\<close>)
  from DelJobTrigger_inv [OF this, of n ?node] flags(3) node(2) obtain w where
    w: "DelJobTrigger (put_node ?idle n ?node) n = Some w" "tw_nodes w = (tw_nodes ?ws)(n := None)" by (auto simp: TRIGGER_CLEAR_FLAG_def)
  have "put_node ?ws n ?node = put_node ?idle n ?node\<lparr>tw_executeQueue := ?q\<rparr>" by (simp add: put_node_def)
  with DelJobTrigger_queue [of "put_node ?idle n ?node" n ?node ?q] w(1) flags(3)
  have "DelJobTrigger (put_node ?ws n ?node) n = Some (w\<lparr>tw_executeQueue := ?q\<rparr>)" by simp
  then have free: "FreeTrigger (put_node ?ws n ?node) n = Some (w\<lparr>tw_executeQueue := ?q\<rparr>)"
    using node(2) by (simp add: FreeTrigger_def node_at_def GetTriggerHeader_def delTrigger_def TRIGGER_CLEAR_FLAG_def)
  let ?s = "s\<lparr>is_env := fold f (tn_cmds node) (is_env s), is_triggers := w\<lparr>tw_executeQueue := ?q\<rparr>\<rparr>"
  have run: "DoJobExecNow rn shut name s = Some ?s"
    using DoTriggerExecute_quiet [OF quiet n] GetTriggerByName_map [OF J name(1)] on name(2,3) n node(2) flags(1,2) free
    by (simp add: DoJobExecNow_def StartTriggerExecute_def GetTriggerHeader_def executeTrigger_def clear_queue_flag_def run_subtriggers_def
        free_if_once_def state_free_def state_put_def state_node_def node_at_def TRIGGER_CLEAR_FLAG_def)
  have "queue_wf ?q" using Q by (simp add: queue_ok_def)
  from ExecuteQueuePop_law [OF this] waits obtain q' where "queue_pop ?q = Some (q', Some n)" by auto
  then obtain p where "ExecuteQueuePop ?q = Some (q', p)" "ref_option p = Some n" by (auto simp: queue_pop_def bind_eq_Some_conv)
  then have "ExecuteQueuePop ?q = Some (q', Ref n)" by (cases p) auto
  then have "ExecuteQueueWork rn maxCount change ?s = None"
    by (simp add: ExecuteQueueWork_def state_pop_def ExecuteQueueWork_loop.simps state_node_def node_at_def w(2))
  with run show ?thesis by blast
qed

definition demo_boot :: TriggerNode where
  "demo_boot = zero_node\<lparr>tn_name := ''boot-service:x'', tn_flags := TRIGGER_FLAGS_ONCE\<rparr>"

lemma demo_boot_ws: "\<exists>ws. trigger_inv ws [''boot-service:x'' \<mapsto> 0] \<and> tw_nodes ws 0 = Some (TRIGGER_SET_FLAG demo_boot TRIGGER_FLAGS_QUEUE) \<and>
  queued (tw_executeQueue ws) = [0]"
proof -
  have init: "tw_next initial_ws = 0" "tw_nodes initial_ws = Map.empty" "queued (tw_executeQueue initial_ws) = []"
      "queue_room (tw_executeQueue initial_ws) = 64"
    by (simp_all add: initial_ws_def InitTriggerHead_def OH_HashMapCreate_def job_info_def blank_ws_def queued_def map_filter_def queue_room_def)
  let ?name = "''boot-service:x''"
  from AddJobNode_inv [OF initial_inv, of zero_node ?name] init obtain ws where
    ws: "tw_nodes ws = [0 \<mapsto> zero_node\<lparr>tn_name := ?name, tn_cmds := []\<rparr>]" "tw_executeQueue ws = tw_executeQueue initial_ws"
      "trigger_inv ws [?name \<mapsto> 0]"
    by (auto simp: zero_node_def good_name_def)
  have inv: "trigger_inv (put_node ws 0 demo_boot) [?name \<mapsto> 0]"
    by (rule trigger_inv_put [OF ws(3), of 0 "zero_node\<lparr>tn_name := ?name, tn_cmds := []\<rparr>"])
      (simp_all add: ws(1) demo_boot_def zero_node_def TRIGGER_IN_QUEUE_def TRIGGER_TEST_FLAG_def)
  have "tw_nodes (put_node ws 0 demo_boot) 0 = Some demo_boot" "tn_type demo_boot \<le> TRIGGER_UNKNOW" "\<not> TRIGGER_IN_QUEUE demo_boot"
      "0 < queue_room (tw_executeQueue (put_node ws 0 demo_boot))"
    using ws(2) init by (simp_all add: demo_boot_def zero_node_def TRIGGER_IN_QUEUE_def TRIGGER_TEST_FLAG_def)
  from push_inv [OF inv this] obtain q' where "queued q' = [0]"
      "trigger_inv (put_node (put_node ws 0 demo_boot) 0 (TRIGGER_SET_FLAG demo_boot TRIGGER_FLAGS_QUEUE)\<lparr>tw_executeQueue := q'\<rparr>) [?name \<mapsto> 0]"
    using ws(2) init by auto
  then show ?thesis by (intro exI [of _ "put_node (put_node ws 0 demo_boot) 0 (TRIGGER_SET_FLAG demo_boot TRIGGER_FLAGS_QUEUE)\<lparr>tw_executeQueue := q'\<rparr>"]) simp
qed

theorem DoJobExecNow_dangling_witness:
  "\<exists>ws. trigger_inv ws [''boot-service:x'' \<mapsto> 0] \<and> queued (tw_executeQueue ws) = [0] \<and>
    (\<exists>s'. DoJobExecNow demo_runner Some ''boot-service:x'' (demo_state ws) = Some s' \<and> ExecuteQueueWork demo_runner 1 None s' = None)"
proof -
  let ?name = "''boot-service:x''" and ?node = "TRIGGER_SET_FLAG demo_boot TRIGGER_FLAGS_QUEUE"
  obtain ws where ws: "trigger_inv ws [?name \<mapsto> 0]" "tw_nodes ws 0 = Some ?node" "queued (tw_executeQueue ws) = [0]" using demo_boot_ws by blast
  let ?s = "demo_state ws"
  have "\<exists>s'. DoJobExecNow demo_runner Some ?name ?s = Some s' \<and> ExecuteQueueWork demo_runner 1 None s' = None"
  proof (rule DoJobExecNow_dangling [where rn = demo_runner and f = "\<lambda>c e. e @ [c]" and n = 0 and node = ?node and rest = "[]"])
    show "quiet demo_runner (\<lambda>c e. e @ [c])" by (simp add: quiet_def demo_runner_def)
    show "trigger_inv (is_triggers ?s) [?name \<mapsto> 0]" "is_eventHandle ?s" "tw_nodes (is_triggers ?s) 0 = Some ?node"
        "queued (tw_executeQueue (is_triggers ?s)) = [0]" using ws by (simp_all add: demo_state_def)
    show "good_name ?name" "\<not> strncmp_eq ?name ''reboot'' 6" by (simp_all add: good_name_def strncmp_eq_def)
    show "tn_type ?node = TRIGGER_BOOT" "TRIGGER_TEST_FLAG ?node TRIGGER_FLAGS_ONCE" "\<not> TRIGGER_TEST_FLAG ?node TRIGGER_FLAGS_SUBTRIGGER"
      by (simp_all add: demo_boot_def zero_node_def TRIGGER_SET_FLAG_def TRIGGER_TEST_FLAG_def)
  qed simp
  with ws show ?thesis by blast
qed

end
