(* ===== verification/Text_Utils.thy ===== *)
theory Text_Utils
  imports CString
begin

text \<open>
  The text utilities of \<^verbatim>\<open>services/utils/init_text_utils.c\<close>: character classes, conversion and search in
  strings, quoting, escapes, percent, base64, base32 and hex encodings, and check sums.

  A nullable pointer is an option. A \<^verbatim>\<open>const char *\<close> is the string it points to. A buffer that is written is
  the list of all its cells; a store outside of it has no defined result (\<^const>\<open>None\<close>), so that a lemma with
  \<^const>\<open>Some\<close> states that nothing is written out of bounds. \<^verbatim>\<open>uint8_t\<close> arrays are lists of \<^typ>\<open>8 word\<close>.
\<close>

subsection \<open>Tables\<close>

abbreviation (input) ASCII_CLASS_CONTROL :: "8 word" where "ASCII_CLASS_CONTROL \<equiv> 0x01"
abbreviation (input) ASCII_CLASS_SPACE :: "8 word" where "ASCII_CLASS_SPACE \<equiv> 0x02"
abbreviation (input) ASCII_CLASS_DIGIT :: "8 word" where "ASCII_CLASS_DIGIT \<equiv> 0x04"
abbreviation (input) ASCII_CLASS_HEX :: "8 word" where "ASCII_CLASS_HEX \<equiv> 0x08"
abbreviation (input) ASCII_CLASS_UPPER :: "8 word" where "ASCII_CLASS_UPPER \<equiv> 0x10"
abbreviation (input) ASCII_CLASS_LOWER :: "8 word" where "ASCII_CLASS_LOWER \<equiv> 0x20"
abbreviation (input) ASCII_CLASS_PUNCT :: "8 word" where "ASCII_CLASS_PUNCT \<equiv> 0x40"
abbreviation (input) ASCII_CLASS_PRINT :: "8 word" where "ASCII_CLASS_PRINT \<equiv> 0x80"

datatype HexFormat = HEX_FORMAT_LOWER | HEX_FORMAT_UPPER | HEX_FORMAT_MAX

datatype EscapeMode = ESCAPE_MODE_NONE | ESCAPE_MODE_NUMERIC | ESCAPE_MODE_NAMED | ESCAPE_MODE_MAX

definition ASCII_CLASS_TABLE :: "8 word list" where
  "ASCII_CLASS_TABLE = [
    0x01, 0x01, 0x01, 0x01, 0x01, 0x01, 0x01, 0x01, 0x01, 0x01, 0x01, 0x01, 0x01, 0x01, 0x01, 0x01,
    0x01, 0x01, 0x01, 0x01, 0x01, 0x01, 0x01, 0x01, 0x01, 0x01, 0x01, 0x01, 0x01, 0x01, 0x01, 0x01,
    0x82, 0xC0, 0xC0, 0xC0, 0xC0, 0xC0, 0xC0, 0xC0, 0xC0, 0xC0, 0xC0, 0xC0, 0xC0, 0xC0, 0xC0, 0xC0,
    0x8C, 0x8C, 0x8C, 0x8C, 0x8C, 0x8C, 0x8C, 0x8C, 0x8C, 0x8C, 0xC0, 0xC0, 0xC0, 0xC0, 0xC0, 0xC0,
    0xC0, 0x98, 0x98, 0x98, 0x98, 0x98, 0x98, 0x90, 0x90, 0x90, 0x90, 0x90, 0x90, 0x90, 0x90, 0x90,
    0x90, 0x90, 0x90, 0x90, 0x90, 0x90, 0x90, 0x90, 0x90, 0x90, 0x90, 0xC0, 0xC0, 0xC0, 0xC0, 0xC0,
    0xC0, 0xA8, 0xA8, 0xA8, 0xA8, 0xA8, 0xA8, 0xA0, 0xA0, 0xA0, 0xA0, 0xA0, 0xA0, 0xA0, 0xA0, 0xA0,
    0xA0, 0xA0, 0xA0, 0xA0, 0xA0, 0xA0, 0xA0, 0xA0, 0xA0, 0xA0, 0xA0, 0xC0, 0xC0, 0xC0, 0xC0, 0x01,
    0x00, 0x00, 0x00, 0x00, 0x00, 0x00, 0x00, 0x00, 0x00, 0x00, 0x00, 0x00, 0x00, 0x00, 0x00, 0x00,
    0x00, 0x00, 0x00, 0x00, 0x00, 0x00, 0x00, 0x00, 0x00, 0x00, 0x00, 0x00, 0x00, 0x00, 0x00, 0x00,
    0x00, 0x00, 0x00, 0x00, 0x00, 0x00, 0x00, 0x00, 0x00, 0x00, 0x00, 0x00, 0x00, 0x00, 0x00, 0x00,
    0x00, 0x00, 0x00, 0x00, 0x00, 0x00, 0x00, 0x00, 0x00, 0x00, 0x00, 0x00, 0x00, 0x00, 0x00, 0x00,
    0x00, 0x00, 0x00, 0x00, 0x00, 0x00, 0x00, 0x00, 0x00, 0x00, 0x00, 0x00, 0x00, 0x00, 0x00, 0x00,
    0x00, 0x00, 0x00, 0x00, 0x00, 0x00, 0x00, 0x00, 0x00, 0x00, 0x00, 0x00, 0x00, 0x00, 0x00, 0x00,
    0x00, 0x00, 0x00, 0x00, 0x00, 0x00, 0x00, 0x00, 0x00, 0x00, 0x00, 0x00, 0x00, 0x00, 0x00, 0x00,
    0x00, 0x00, 0x00, 0x00, 0x00, 0x00, 0x00, 0x00, 0x00, 0x00, 0x00, 0x00, 0x00, 0x00, 0x00, 0x00]"

definition HEX_VALUE_TABLE :: "8 word list" where
  "HEX_VALUE_TABLE = [
    0xFF, 0xFF, 0xFF, 0xFF, 0xFF, 0xFF, 0xFF, 0xFF, 0xFF, 0xFF, 0xFF, 0xFF, 0xFF, 0xFF, 0xFF, 0xFF,
    0xFF, 0xFF, 0xFF, 0xFF, 0xFF, 0xFF, 0xFF, 0xFF, 0xFF, 0xFF, 0xFF, 0xFF, 0xFF, 0xFF, 0xFF, 0xFF,
    0xFF, 0xFF, 0xFF, 0xFF, 0xFF, 0xFF, 0xFF, 0xFF, 0xFF, 0xFF, 0xFF, 0xFF, 0xFF, 0xFF, 0xFF, 0xFF,
    0x00, 0x01, 0x02, 0x03, 0x04, 0x05, 0x06, 0x07, 0x08, 0x09, 0xFF, 0xFF, 0xFF, 0xFF, 0xFF, 0xFF,
    0xFF, 0x0A, 0x0B, 0x0C, 0x0D, 0x0E, 0x0F, 0xFF, 0xFF, 0xFF, 0xFF, 0xFF, 0xFF, 0xFF, 0xFF, 0xFF,
    0xFF, 0xFF, 0xFF, 0xFF, 0xFF, 0xFF, 0xFF, 0xFF, 0xFF, 0xFF, 0xFF, 0xFF, 0xFF, 0xFF, 0xFF, 0xFF,
    0xFF, 0x0A, 0x0B, 0x0C, 0x0D, 0x0E, 0x0F, 0xFF, 0xFF, 0xFF, 0xFF, 0xFF, 0xFF, 0xFF, 0xFF, 0xFF,
    0xFF, 0xFF, 0xFF, 0xFF, 0xFF, 0xFF, 0xFF, 0xFF, 0xFF, 0xFF, 0xFF, 0xFF, 0xFF, 0xFF, 0xFF, 0xFF,
    0xFF, 0xFF, 0xFF, 0xFF, 0xFF, 0xFF, 0xFF, 0xFF, 0xFF, 0xFF, 0xFF, 0xFF, 0xFF, 0xFF, 0xFF, 0xFF,
    0xFF, 0xFF, 0xFF, 0xFF, 0xFF, 0xFF, 0xFF, 0xFF, 0xFF, 0xFF, 0xFF, 0xFF, 0xFF, 0xFF, 0xFF, 0xFF,
    0xFF, 0xFF, 0xFF, 0xFF, 0xFF, 0xFF, 0xFF, 0xFF, 0xFF, 0xFF, 0xFF, 0xFF, 0xFF, 0xFF, 0xFF, 0xFF,
    0xFF, 0xFF, 0xFF, 0xFF, 0xFF, 0xFF, 0xFF, 0xFF, 0xFF, 0xFF, 0xFF, 0xFF, 0xFF, 0xFF, 0xFF, 0xFF,
    0xFF, 0xFF, 0xFF, 0xFF, 0xFF, 0xFF, 0xFF, 0xFF, 0xFF, 0xFF, 0xFF, 0xFF, 0xFF, 0xFF, 0xFF, 0xFF,
    0xFF, 0xFF, 0xFF, 0xFF, 0xFF, 0xFF, 0xFF, 0xFF, 0xFF, 0xFF, 0xFF, 0xFF, 0xFF, 0xFF, 0xFF, 0xFF,
    0xFF, 0xFF, 0xFF, 0xFF, 0xFF, 0xFF, 0xFF, 0xFF, 0xFF, 0xFF, 0xFF, 0xFF, 0xFF, 0xFF, 0xFF, 0xFF,
    0xFF, 0xFF, 0xFF, 0xFF, 0xFF, 0xFF, 0xFF, 0xFF, 0xFF, 0xFF, 0xFF, 0xFF, 0xFF, 0xFF, 0xFF, 0xFF]"

definition UPPER_TO_LOWER_TABLE :: "8 word list" where
  "UPPER_TO_LOWER_TABLE = [
    0x00, 0x01, 0x02, 0x03, 0x04, 0x05, 0x06, 0x07, 0x08, 0x09, 0x0A, 0x0B, 0x0C, 0x0D, 0x0E, 0x0F,
    0x10, 0x11, 0x12, 0x13, 0x14, 0x15, 0x16, 0x17, 0x18, 0x19, 0x1A, 0x1B, 0x1C, 0x1D, 0x1E, 0x1F,
    0x20, 0x21, 0x22, 0x23, 0x24, 0x25, 0x26, 0x27, 0x28, 0x29, 0x2A, 0x2B, 0x2C, 0x2D, 0x2E, 0x2F,
    0x30, 0x31, 0x32, 0x33, 0x34, 0x35, 0x36, 0x37, 0x38, 0x39, 0x3A, 0x3B, 0x3C, 0x3D, 0x3E, 0x3F,
    0x40, 0x61, 0x62, 0x63, 0x64, 0x65, 0x66, 0x67, 0x68, 0x69, 0x6A, 0x6B, 0x6C, 0x6D, 0x6E, 0x6F,
    0x70, 0x71, 0x72, 0x73, 0x74, 0x75, 0x76, 0x77, 0x78, 0x79, 0x7A, 0x5B, 0x5C, 0x5D, 0x5E, 0x5F,
    0x60, 0x61, 0x62, 0x63, 0x64, 0x65, 0x66, 0x67, 0x68, 0x69, 0x6A, 0x6B, 0x6C, 0x6D, 0x6E, 0x6F,
    0x70, 0x71, 0x72, 0x73, 0x74, 0x75, 0x76, 0x77, 0x78, 0x79, 0x7A, 0x7B, 0x7C, 0x7D, 0x7E, 0x7F,
    0x80, 0x81, 0x82, 0x83, 0x84, 0x85, 0x86, 0x87, 0x88, 0x89, 0x8A, 0x8B, 0x8C, 0x8D, 0x8E, 0x8F,
    0x90, 0x91, 0x92, 0x93, 0x94, 0x95, 0x96, 0x97, 0x98, 0x99, 0x9A, 0x9B, 0x9C, 0x9D, 0x9E, 0x9F,
    0xA0, 0xA1, 0xA2, 0xA3, 0xA4, 0xA5, 0xA6, 0xA7, 0xA8, 0xA9, 0xAA, 0xAB, 0xAC, 0xAD, 0xAE, 0xAF,
    0xB0, 0xB1, 0xB2, 0xB3, 0xB4, 0xB5, 0xB6, 0xB7, 0xB8, 0xB9, 0xBA, 0xBB, 0xBC, 0xBD, 0xBE, 0xBF,
    0xC0, 0xC1, 0xC2, 0xC3, 0xC4, 0xC5, 0xC6, 0xC7, 0xC8, 0xC9, 0xCA, 0xCB, 0xCC, 0xCD, 0xCE, 0xCF,
    0xD0, 0xD1, 0xD2, 0xD3, 0xD4, 0xD5, 0xD6, 0xD7, 0xD8, 0xD9, 0xDA, 0xDB, 0xDC, 0xDD, 0xDE, 0xDF,
    0xE0, 0xE1, 0xE2, 0xE3, 0xE4, 0xE5, 0xE6, 0xE7, 0xE8, 0xE9, 0xEA, 0xEB, 0xEC, 0xED, 0xEE, 0xEF,
    0xF0, 0xF1, 0xF2, 0xF3, 0xF4, 0xF5, 0xF6, 0xF7, 0xF8, 0xF9, 0xFA, 0xFB, 0xFC, 0xFD, 0xFE, 0xFF]"

definition LOWER_TO_UPPER_TABLE :: "8 word list" where
  "LOWER_TO_UPPER_TABLE = [
    0x00, 0x01, 0x02, 0x03, 0x04, 0x05, 0x06, 0x07, 0x08, 0x09, 0x0A, 0x0B, 0x0C, 0x0D, 0x0E, 0x0F,
    0x10, 0x11, 0x12, 0x13, 0x14, 0x15, 0x16, 0x17, 0x18, 0x19, 0x1A, 0x1B, 0x1C, 0x1D, 0x1E, 0x1F,
    0x20, 0x21, 0x22, 0x23, 0x24, 0x25, 0x26, 0x27, 0x28, 0x29, 0x2A, 0x2B, 0x2C, 0x2D, 0x2E, 0x2F,
    0x30, 0x31, 0x32, 0x33, 0x34, 0x35, 0x36, 0x37, 0x38, 0x39, 0x3A, 0x3B, 0x3C, 0x3D, 0x3E, 0x3F,
    0x40, 0x41, 0x42, 0x43, 0x44, 0x45, 0x46, 0x47, 0x48, 0x49, 0x4A, 0x4B, 0x4C, 0x4D, 0x4E, 0x4F,
    0x50, 0x51, 0x52, 0x53, 0x54, 0x55, 0x56, 0x57, 0x58, 0x59, 0x5A, 0x5B, 0x5C, 0x5D, 0x5E, 0x5F,
    0x60, 0x41, 0x42, 0x43, 0x44, 0x45, 0x46, 0x47, 0x48, 0x49, 0x4A, 0x4B, 0x4C, 0x4D, 0x4E, 0x4F,
    0x50, 0x51, 0x52, 0x53, 0x54, 0x55, 0x56, 0x57, 0x58, 0x59, 0x5A, 0x7B, 0x7C, 0x7D, 0x7E, 0x7F,
    0x80, 0x81, 0x82, 0x83, 0x84, 0x85, 0x86, 0x87, 0x88, 0x89, 0x8A, 0x8B, 0x8C, 0x8D, 0x8E, 0x8F,
    0x90, 0x91, 0x92, 0x93, 0x94, 0x95, 0x96, 0x97, 0x98, 0x99, 0x9A, 0x9B, 0x9C, 0x9D, 0x9E, 0x9F,
    0xA0, 0xA1, 0xA2, 0xA3, 0xA4, 0xA5, 0xA6, 0xA7, 0xA8, 0xA9, 0xAA, 0xAB, 0xAC, 0xAD, 0xAE, 0xAF,
    0xB0, 0xB1, 0xB2, 0xB3, 0xB4, 0xB5, 0xB6, 0xB7, 0xB8, 0xB9, 0xBA, 0xBB, 0xBC, 0xBD, 0xBE, 0xBF,
    0xC0, 0xC1, 0xC2, 0xC3, 0xC4, 0xC5, 0xC6, 0xC7, 0xC8, 0xC9, 0xCA, 0xCB, 0xCC, 0xCD, 0xCE, 0xCF,
    0xD0, 0xD1, 0xD2, 0xD3, 0xD4, 0xD5, 0xD6, 0xD7, 0xD8, 0xD9, 0xDA, 0xDB, 0xDC, 0xDD, 0xDE, 0xDF,
    0xE0, 0xE1, 0xE2, 0xE3, 0xE4, 0xE5, 0xE6, 0xE7, 0xE8, 0xE9, 0xEA, 0xEB, 0xEC, 0xED, 0xEE, 0xEF,
    0xF0, 0xF1, 0xF2, 0xF3, 0xF4, 0xF5, 0xF6, 0xF7, 0xF8, 0xF9, 0xFA, 0xFB, 0xFC, 0xFD, 0xFE, 0xFF]"

definition URI_ENCODE_TABLE :: "8 word list" where
  "URI_ENCODE_TABLE = [
    0x01, 0x01, 0x01, 0x01, 0x01, 0x01, 0x01, 0x01, 0x01, 0x01, 0x01, 0x01, 0x01, 0x01, 0x01, 0x01,
    0x01, 0x01, 0x01, 0x01, 0x01, 0x01, 0x01, 0x01, 0x01, 0x01, 0x01, 0x01, 0x01, 0x01, 0x01, 0x01,
    0x01, 0x01, 0x01, 0x01, 0x01, 0x01, 0x01, 0x01, 0x01, 0x01, 0x01, 0x01, 0x01, 0x00, 0x00, 0x01,
    0x00, 0x00, 0x00, 0x00, 0x00, 0x00, 0x00, 0x00, 0x00, 0x00, 0x01, 0x01, 0x01, 0x01, 0x01, 0x01,
    0x01, 0x00, 0x00, 0x00, 0x00, 0x00, 0x00, 0x00, 0x00, 0x00, 0x00, 0x00, 0x00, 0x00, 0x00, 0x00,
    0x00, 0x00, 0x00, 0x00, 0x00, 0x00, 0x00, 0x00, 0x00, 0x00, 0x00, 0x01, 0x01, 0x01, 0x01, 0x00,
    0x01, 0x00, 0x00, 0x00, 0x00, 0x00, 0x00, 0x00, 0x00, 0x00, 0x00, 0x00, 0x00, 0x00, 0x00, 0x00,
    0x00, 0x00, 0x00, 0x00, 0x00, 0x00, 0x00, 0x00, 0x00, 0x00, 0x00, 0x01, 0x01, 0x01, 0x01, 0x01,
    0x01, 0x01, 0x01, 0x01, 0x01, 0x01, 0x01, 0x01, 0x01, 0x01, 0x01, 0x01, 0x01, 0x01, 0x01, 0x01,
    0x01, 0x01, 0x01, 0x01, 0x01, 0x01, 0x01, 0x01, 0x01, 0x01, 0x01, 0x01, 0x01, 0x01, 0x01, 0x01,
    0x01, 0x01, 0x01, 0x01, 0x01, 0x01, 0x01, 0x01, 0x01, 0x01, 0x01, 0x01, 0x01, 0x01, 0x01, 0x01,
    0x01, 0x01, 0x01, 0x01, 0x01, 0x01, 0x01, 0x01, 0x01, 0x01, 0x01, 0x01, 0x01, 0x01, 0x01, 0x01,
    0x01, 0x01, 0x01, 0x01, 0x01, 0x01, 0x01, 0x01, 0x01, 0x01, 0x01, 0x01, 0x01, 0x01, 0x01, 0x01,
    0x01, 0x01, 0x01, 0x01, 0x01, 0x01, 0x01, 0x01, 0x01, 0x01, 0x01, 0x01, 0x01, 0x01, 0x01, 0x01,
    0x01, 0x01, 0x01, 0x01, 0x01, 0x01, 0x01, 0x01, 0x01, 0x01, 0x01, 0x01, 0x01, 0x01, 0x01, 0x01,
    0x01, 0x01, 0x01, 0x01, 0x01, 0x01, 0x01, 0x01, 0x01, 0x01, 0x01, 0x01, 0x01, 0x01, 0x01, 0x01]"

definition BASE64_ENCODE_TABLE :: string where
  "BASE64_ENCODE_TABLE = ''ABCDEFGHIJKLMNOPQRSTUVWXYZabcdefghijklmnopqrstuvwxyz0123456789+/''"

definition BASE64_DECODE_TABLE :: "int list" where
  "BASE64_DECODE_TABLE = [
    - 1, - 1, - 1, - 1, - 1, - 1, - 1, - 1, - 1, - 1, - 1, - 1, - 1, - 1, - 1, - 1,
    - 1, - 1, - 1, - 1, - 1, - 1, - 1, - 1, - 1, - 1, - 1, - 1, - 1, - 1, - 1, - 1,
    - 1, - 1, - 1, - 1, - 1, - 1, - 1, - 1, - 1, - 1, - 1, 62, - 1, - 1, - 1, 63,
    52, 53, 54, 55, 56, 57, 58, 59, 60, 61, - 1, - 1, - 1, - 1, - 1, - 1,
    - 1, 0, 1, 2, 3, 4, 5, 6, 7, 8, 9, 10, 11, 12, 13, 14,
    15, 16, 17, 18, 19, 20, 21, 22, 23, 24, 25, - 1, - 1, - 1, - 1, - 1,
    - 1, 26, 27, 28, 29, 30, 31, 32, 33, 34, 35, 36, 37, 38, 39, 40,
    41, 42, 43, 44, 45, 46, 47, 48, 49, 50, 51, - 1, - 1, - 1, - 1, - 1,
    - 1, - 1, - 1, - 1, - 1, - 1, - 1, - 1, - 1, - 1, - 1, - 1, - 1, - 1, - 1, - 1,
    - 1, - 1, - 1, - 1, - 1, - 1, - 1, - 1, - 1, - 1, - 1, - 1, - 1, - 1, - 1, - 1,
    - 1, - 1, - 1, - 1, - 1, - 1, - 1, - 1, - 1, - 1, - 1, - 1, - 1, - 1, - 1, - 1,
    - 1, - 1, - 1, - 1, - 1, - 1, - 1, - 1, - 1, - 1, - 1, - 1, - 1, - 1, - 1, - 1,
    - 1, - 1, - 1, - 1, - 1, - 1, - 1, - 1, - 1, - 1, - 1, - 1, - 1, - 1, - 1, - 1,
    - 1, - 1, - 1, - 1, - 1, - 1, - 1, - 1, - 1, - 1, - 1, - 1, - 1, - 1, - 1, - 1,
    - 1, - 1, - 1, - 1, - 1, - 1, - 1, - 1, - 1, - 1, - 1, - 1, - 1, - 1, - 1, - 1,
    - 1, - 1, - 1, - 1, - 1, - 1, - 1, - 1, - 1, - 1, - 1, - 1, - 1, - 1, - 1, - 1]"

definition BASE32_ENCODE_TABLE :: string where
  "BASE32_ENCODE_TABLE = ''ABCDEFGHIJKLMNOPQRSTUVWXYZ234567''"

definition COMMON_TOKEN_TABLE :: "(string \<times> 32 word) list" where
  "COMMON_TOKEN_TABLE = [
    (''max'', 0x01), (''min'', 0x02), (''avg'', 0x03), (''sum'', 0x04), (''total'', 0x05), (''count'', 0x06),
    (''enabled'', 0x10), (''disabled'', 0x11), (''pending'', 0x12), (''active'', 0x13), (''stopped'', 0x14), (''restart'', 0x15),
    (''reboot'', 0x16), (''shutdown'', 0x17), (''upgrade'', 0x18), (''rollback'', 0x19), (''idle'', 0x20), (''busy'', 0x21),
    (''unknown'', 0x22), (''invalid'', 0x23), (''valid'', 0x24), (''default'', 0x25), (''system'', 0x30), (''vendor'', 0x31),
    (''chipset'', 0x32), (''sys_prod'', 0x33), (''chip_prod'', 0x34), (''ramdisk'', 0x35), (''recovery'', 0x36), (''factory'', 0x37),
    (''early'', 0x40), (''late'', 0x41), (''pre_init'', 0x42), (''post_init'', 0x43), (''pre_start'', 0x44), (''post_stop'', 0x45),
    (''normal'', 0x50), (''critical'', 0x51), (''important'', 0x52), (''background'', 0x53), (''foreground'', 0x54), (''fifo'', 0x60),
    (''socket'', 0x61), (''console'', 0x62), (''async'', 0x63), (''sync'', 0x64), (''once'', 0x65), (''period'', 0x66),
    (''trigger'', 0x67), (''condition'', 0x68), (''sandbox'', 0x70), (''seccomp'', 0x71), (''selinux'', 0x72), (''capability'', 0x73),
    (''secon'', 0x74), (''access'', 0x75), (''cgroup'', 0x76), (''namespace'', 0x77)]"

definition HEX_UPPER_DIGITS :: string where
  "HEX_UPPER_DIGITS = ''0123456789ABCDEF''"

definition HEX_LOWER_DIGITS :: string where
  "HEX_LOWER_DIGITS = ''0123456789abcdef''"

definition TIME_UNIT_TABLE :: "string list" where
  "TIME_UNIT_TABLE = [''ns'', ''us'', ''ms'', ''s'', ''m'', ''h'', ''d'']"

subsection \<open>Memory\<close>

text \<open>One store, and stores to consecutive cells.\<close>

definition store :: "'a list \<Rightarrow> nat \<Rightarrow> 'a \<Rightarrow> 'a list exec" where
  "store out i x = (if i < length out then Some (out[i := x]) else None)"

fun stores :: "'a list \<Rightarrow> nat \<Rightarrow> 'a list \<Rightarrow> 'a list exec" where
  "stores out i [] = Some out"
| "stores out i (x # xs) = do { out \<leftarrow> store out i x; stores out (i + 1) xs }"

text \<open>\<^verbatim>\<open>memcpy_s\<close> of the bounds checking library, to the cell \<^verbatim>\<open>at\<close> of a buffer; the flag is \<^verbatim>\<open>EOK\<close>.\<close>

abbreviation (input) SECUREC_MEM_MAX_LEN :: nat where "SECUREC_MEM_MAX_LEN \<equiv> 0x7fffffff"

definition memcpy_s :: "string \<Rightarrow> nat \<Rightarrow> nat \<Rightarrow> string \<Rightarrow> (string \<times> bool) exec" where
  "memcpy_s out at destMax src =
     (if destMax = 0 \<or> destMax > SECUREC_MEM_MAX_LEN then Some (out, False)
      else if length src > destMax then map_option (\<lambda>out. (out, False)) (stores out at (replicate destMax (CHR 0x00)))
      else map_option (\<lambda>out. (out, True)) (stores out at src))"

text \<open>\<^verbatim>\<open>snprintf_s (out, outSize, outSize - 1, ...)\<close> for the formatted text; it stores a beginning of a text that is too
  long and returns a negative number.\<close>

definition snprintf_s :: "string \<Rightarrow> nat \<Rightarrow> string \<Rightarrow> (string \<times> int) exec" where
  "snprintf_s out outSize formatted =
     (if length formatted \<le> outSize - 1
      then map_option (\<lambda>out. (out, int (length formatted))) (stores out 0 (formatted @ [CHR 0x00]))
      else map_option (\<lambda>out. (out, - 1)) (stores out 0 (take (outSize - 1) formatted @ [CHR 0x00])))"

text \<open>The string in a buffer; there is none when the buffer has no terminator.\<close>

definition cstr :: "string \<Rightarrow> string exec" where
  "cstr str = (if CHR 0x00 \<in> set str then Some (takeWhile (\<lambda>c. c \<noteq> CHR 0x00) str) else None)"

text \<open>\<^verbatim>\<open>for (i = from; i < to; ++i)\<close>\<close>

function for_range :: "nat \<Rightarrow> nat \<Rightarrow> (nat \<Rightarrow> 's \<Rightarrow> 's exec) \<Rightarrow> 's \<Rightarrow> 's exec" where
  "for_range i n body s = (if i < n then do { s \<leftarrow> body i s; for_range (i + 1) n body s } else Some s)"
  by pat_completeness auto
termination
  by (relation "measure (\<lambda>(i, n, body, s). n - i)") auto

declare for_range.simps [simp del]

text \<open>The guard \<^verbatim>\<open>str == NULL || out == NULL || outSize == 0\<close> of the functions with an output buffer.\<close>

definition with_out :: "'a option \<Rightarrow> 'b list option \<Rightarrow> nat \<Rightarrow> ('a \<Rightarrow> 'b list \<Rightarrow> ('b list \<times> nat) exec) \<Rightarrow> ('b list option \<times> nat) exec" where
  "with_out str out outSize body =
     (case (str, out) of
        (Some s, Some b) \<Rightarrow> if outSize = 0 then Some (out, 0) else map_option (map_prod Some id) (body s b)
      | _ \<Rightarrow> Some (out, 0))"

subsection \<open>Characters\<close>

definition IsValidClassBit :: "8 word \<Rightarrow> bool" where
  "IsValidClassBit classBit =
     (classBit = ASCII_CLASS_CONTROL \<or> classBit = ASCII_CLASS_SPACE \<or> classBit = ASCII_CLASS_DIGIT \<or>
      classBit = ASCII_CLASS_HEX \<or> classBit = ASCII_CLASS_UPPER \<or> classBit = ASCII_CLASS_LOWER \<or>
      classBit = ASCII_CLASS_PUNCT \<or> classBit = ASCII_CLASS_PRINT)"

definition ClassHasBit :: "char \<Rightarrow> 8 word \<Rightarrow> bool" where
  "ClassHasBit ch classBit =
     (if \<not> IsValidClassBit classBit then False else ASCII_CLASS_TABLE ! ascii ch AND classBit \<noteq> 0)"

definition AsciiIsControl :: "char \<Rightarrow> bool" where
  "AsciiIsControl ch = ClassHasBit ch ASCII_CLASS_CONTROL"

definition AsciiIsSpace :: "char \<Rightarrow> bool" where
  "AsciiIsSpace ch = ClassHasBit ch ASCII_CLASS_SPACE"

definition AsciiIsDigit :: "char \<Rightarrow> bool" where
  "AsciiIsDigit ch = ClassHasBit ch ASCII_CLASS_DIGIT"

definition AsciiIsHexDigit :: "char \<Rightarrow> bool" where
  "AsciiIsHexDigit ch = ClassHasBit ch ASCII_CLASS_HEX"

definition AsciiIsUpper :: "char \<Rightarrow> bool" where
  "AsciiIsUpper ch = ClassHasBit ch ASCII_CLASS_UPPER"

definition AsciiIsLower :: "char \<Rightarrow> bool" where
  "AsciiIsLower ch = ClassHasBit ch ASCII_CLASS_LOWER"

definition AsciiIsAlpha :: "char \<Rightarrow> bool" where
  "AsciiIsAlpha ch = (AsciiIsUpper ch \<or> AsciiIsLower ch)"

definition AsciiIsAlnum :: "char \<Rightarrow> bool" where
  "AsciiIsAlnum ch = (AsciiIsAlpha ch \<or> AsciiIsDigit ch)"

definition AsciiIsPunct :: "char \<Rightarrow> bool" where
  "AsciiIsPunct ch = ClassHasBit ch ASCII_CLASS_PUNCT"

definition AsciiIsGraph :: "char \<Rightarrow> bool" where
  "AsciiIsGraph ch = (AsciiIsAlnum ch \<or> AsciiIsPunct ch)"

definition AsciiIsPrint :: "char \<Rightarrow> bool" where
  "AsciiIsPrint ch = ClassHasBit ch ASCII_CLASS_PRINT"

definition AsciiIsBlank :: "char \<Rightarrow> bool" where
  "AsciiIsBlank ch = (ch = CHR '' '' \<or> ch = CHR 0x09)"

definition AsciiToLower :: "char \<Rightarrow> char" where
  "AsciiToLower ch = char_of (unat (UPPER_TO_LOWER_TABLE ! ascii ch))"

definition AsciiToUpper :: "char \<Rightarrow> char" where
  "AsciiToUpper ch = char_of (unat (LOWER_TO_UPPER_TABLE ! ascii ch))"

definition AsciiHexToNibble :: "char \<Rightarrow> int" where
  "AsciiHexToNibble ch = uint (HEX_VALUE_TABLE ! ascii ch)"

definition AsciiNibbleToHex :: "nat \<Rightarrow> HexFormat \<Rightarrow> char" where
  "AsciiNibbleToHex nibble format =
     (if nibble \<ge> 16 then CHR ''?''
      else if format = HEX_FORMAT_LOWER then HEX_LOWER_DIGITS ! nibble
      else HEX_UPPER_DIGITS ! nibble)"

subsection \<open>Classification of strings\<close>

definition TextIsHexString :: "string option \<Rightarrow> bool" where
  "TextIsHexString str = (case str of None \<Rightarrow> False | Some s \<Rightarrow> if length s = 0 then False else list_all AsciiIsHexDigit s)"

definition TextIsDecString :: "string option \<Rightarrow> bool" where
  "TextIsDecString str = (case str of None \<Rightarrow> False | Some s \<Rightarrow> if length s = 0 then False else list_all AsciiIsDigit s)"

definition TextIsAlnumString :: "string option \<Rightarrow> bool" where
  "TextIsAlnumString str = (case str of None \<Rightarrow> False | Some s \<Rightarrow> if length s = 0 then False else list_all AsciiIsAlnum s)"

definition TextIsBlankString :: "string option \<Rightarrow> bool" where
  "TextIsBlankString str = (case str of None \<Rightarrow> False | Some s \<Rightarrow> if length s = 0 then True else list_all AsciiIsBlank s)"

definition TextHasControlChar :: "string option \<Rightarrow> bool" where
  "TextHasControlChar str = (case str of None \<Rightarrow> False | Some s \<Rightarrow> list_ex AsciiIsControl s)"

definition TextIsSafeName :: "string option \<Rightarrow> bool" where
  "TextIsSafeName str =
     (case str of
        None \<Rightarrow> False
      | Some s \<Rightarrow>
          if s = [] then False
          else if length s > 255 then False
          else if \<not> AsciiIsAlpha (s ! 0) then False
          else list_all (\<lambda>ch. AsciiIsAlnum ch \<or> ch = CHR ''_'' \<or> ch = CHR ''-'' \<or> ch = CHR ''.'') s)"

subsection \<open>Changes in place\<close>

text \<open>These functions work on the buffer of a string.\<close>

definition TextToUpper :: "string option \<Rightarrow> string option exec" where
  "TextToUpper str =
     (case str of
        None \<Rightarrow> Some None
      | Some b \<Rightarrow> do {
          s \<leftarrow> cstr b;
          b \<leftarrow> for_range 0 (length s) (\<lambda>i b. store b i (AsciiToUpper (b ! i))) b;
          Some (Some b)
        })"

definition TextToLower :: "string option \<Rightarrow> string option exec" where
  "TextToLower str =
     (case str of
        None \<Rightarrow> Some None
      | Some b \<Rightarrow> do {
          s \<leftarrow> cstr b;
          b \<leftarrow> for_range 0 (length s) (\<lambda>i b. store b i (AsciiToLower (b ! i))) b;
          Some (Some b)
        })"

text \<open>The result is the offset of the pointer that the code returns.\<close>

fun skip_space :: "string \<Rightarrow> nat \<Rightarrow> nat exec" where
  "skip_space [] cursor = None"
| "skip_space (c # cs) cursor = (if c \<noteq> CHR 0x00 \<and> AsciiIsSpace c then skip_space cs (cursor + 1) else Some cursor)"

definition TextTrimLeading :: "string option \<Rightarrow> nat option exec" where
  "TextTrimLeading str = (case str of None \<Rightarrow> Some None | Some b \<Rightarrow> map_option Some (skip_space b 0))"

fun trim_trailing :: "string \<Rightarrow> nat \<Rightarrow> string exec" where
  "trim_trailing b 0 = Some b"
| "trim_trailing b (Suc len) =
     (if \<not> AsciiIsSpace (b ! len) then Some b else do { b \<leftarrow> store b len (CHR 0x00); trim_trailing b len })"

definition TextTrimTrailing :: "string option \<Rightarrow> string option exec" where
  "TextTrimTrailing str =
     (case str of
        None \<Rightarrow> Some None
      | Some b \<Rightarrow> do { s \<leftarrow> cstr b; b \<leftarrow> trim_trailing b (length s); Some (Some b) })"

definition TextTrim :: "string option \<Rightarrow> (string option \<times> nat option) exec" where
  "TextTrim str =
     (case str of
        None \<Rightarrow> Some (None, None)
      | Some _ \<Rightarrow> do { str \<leftarrow> TextTrimTrailing str; cursor \<leftarrow> TextTrimLeading str; Some (str, cursor) })"

definition TextReplaceChar :: "string option \<Rightarrow> char \<Rightarrow> char \<Rightarrow> (string option \<times> int) exec" where
  "TextReplaceChar str from to =
     (case str of
        None \<Rightarrow> Some (None, - 1)
      | Some b \<Rightarrow> do {
          s \<leftarrow> cstr b;
          (b, replaced) \<leftarrow> for_range 0 (length s)
            (\<lambda>i (b, replaced). if b ! i = from then do { b \<leftarrow> store b i to; Some (b, replaced + 1) } else Some (b, replaced))
            (b, 0);
          Some (Some b, replaced)
        })"

definition TextRemoveChar :: "string option \<Rightarrow> char \<Rightarrow> (string option \<times> nat) exec" where
  "TextRemoveChar str removed =
     (case str of
        None \<Rightarrow> Some (None, 0)
      | Some b \<Rightarrow> do {
          s \<leftarrow> cstr b;
          (b, w) \<leftarrow> for_range 0 (length s)
            (\<lambda>r (b, w). if b ! r \<noteq> removed then do { b \<leftarrow> store b w (b ! r); Some (b, w + 1) } else Some (b, w))
            (b, 0);
          b \<leftarrow> store b w (CHR 0x00);
          Some (Some b, length s - w)
        })"

definition TextCountChar :: "string option \<Rightarrow> char \<Rightarrow> nat" where
  "TextCountChar str target =
     (case str of None \<Rightarrow> 0 | Some s \<Rightarrow> foldl (\<lambda>count c. if c = target then count + 1 else count) 0 s)"

fun index_of :: "string \<Rightarrow> nat \<Rightarrow> char \<Rightarrow> int" where
  "index_of [] i target = - 1"
| "index_of (c # cs) i target = (if c = target then int i else index_of cs (i + 1) target)"

definition TextIndexOfChar :: "string option \<Rightarrow> char \<Rightarrow> int" where
  "TextIndexOfChar str target = (case str of None \<Rightarrow> - 1 | Some s \<Rightarrow> index_of s 0 target)"

fun last_index_of :: "string \<Rightarrow> nat \<Rightarrow> char \<Rightarrow> int" where
  "last_index_of s 0 target = - 1"
| "last_index_of s (Suc i) target = (if s ! i = target then int i else last_index_of s i target)"

definition TextLastIndexOfChar :: "string option \<Rightarrow> char \<Rightarrow> int" where
  "TextLastIndexOfChar str target = (case str of None \<Rightarrow> - 1 | Some s \<Rightarrow> last_index_of s (length s) target)"

function reverse_loop :: "string \<Rightarrow> nat \<Rightarrow> nat \<Rightarrow> string exec" where
  "reverse_loop b left right =
     (if left < right then
        if right < length b then
          (let tmp = b ! left; b = b[left := b ! right]; b = b[right := tmp] in reverse_loop b (left + 1) (right - 1))
        else None
      else Some b)"
  by pat_completeness auto
termination
  by (relation "measure (\<lambda>(b, left, right). right - left)") auto

declare reverse_loop.simps [simp del]

definition TextReverse :: "string option \<Rightarrow> string option exec" where
  "TextReverse str =
     (case str of
        None \<Rightarrow> Some None
      | Some b \<Rightarrow> do {
          s \<leftarrow> cstr b;
          if length s \<le> 1 then Some (Some b)
          else do { b \<leftarrow> reverse_loop b 0 (length s - 1); Some (Some b) }
        })"

definition TextRemoveDuplicateChars :: "string option \<Rightarrow> (string option \<times> nat) exec" where
  "TextRemoveDuplicateChars str =
     (case str of
        None \<Rightarrow> Some (None, 0)
      | Some b \<Rightarrow> do {
          s \<leftarrow> cstr b;
          (b, w, seen) \<leftarrow> for_range 0 (length s)
            (\<lambda>r (b, w, seen).
               let ch = b ! r in
               if \<not> seen ! ascii ch then do { b \<leftarrow> store b w ch; Some (b, w + 1, seen[ascii ch := True]) }
               else Some (b, w, seen))
            (b, 0, replicate 256 False);
          b \<leftarrow> store b w (CHR 0x00);
          Some (Some b, w)
        })"

text \<open>\<^verbatim>\<open>memmove_s (str + pad, len + 1, str, len + 1)\<close> moves the string and its terminator.\<close>

definition TextPadLeft :: "string option \<Rightarrow> nat \<Rightarrow> char \<Rightarrow> (string option \<times> nat) exec" where
  "TextPadLeft str width padChar =
     (case str of
        None \<Rightarrow> Some (None, 0)
      | Some b \<Rightarrow> do {
          s \<leftarrow> cstr b;
          let len = length s;
          if len \<ge> width then Some (Some b, len)
          else do {
            let pad = width - len;
            if len + 1 > SECUREC_MEM_MAX_LEN then Some (Some b, 0)
            else do {
              b \<leftarrow> stores b pad (take (len + 1) b);
              b \<leftarrow> for_range 0 pad (\<lambda>i b. store b i padChar) b;
              Some (Some b, width)
            }
          }
        })"

definition TextPadRight :: "string option \<Rightarrow> nat \<Rightarrow> char \<Rightarrow> (string option \<times> nat) exec" where
  "TextPadRight str width padChar =
     (case str of
        None \<Rightarrow> Some (None, 0)
      | Some b \<Rightarrow> do {
          s \<leftarrow> cstr b;
          let len = length s;
          if len \<ge> width then Some (Some b, len)
          else do {
            b \<leftarrow> for_range len width (\<lambda>i b. store b i padChar) b;
            b \<leftarrow> store b width (CHR 0x00);
            Some (Some b, width)
          }
        })"

definition TextTruncateEllipsis :: "string option \<Rightarrow> nat \<Rightarrow> string option exec" where
  "TextTruncateEllipsis str maxLen =
     (case str of
        None \<Rightarrow> Some None
      | Some b \<Rightarrow> do {
          s \<leftarrow> cstr b;
          if length s \<le> maxLen then Some (Some b)
          else if maxLen < 3 then do { b \<leftarrow> store b 0 (CHR 0x00); Some (Some b) }
          else do {
            (b, ok) \<leftarrow> memcpy_s b (maxLen - 3) 3 ''...'';
            if \<not> ok then do { b \<leftarrow> store b 0 (CHR 0x00); Some (Some b) }
            else do { b \<leftarrow> store b maxLen (CHR 0x00); Some (Some b) }
          }
        })"

subsection \<open>Quotes\<close>

definition TextIsQuoted :: "string option \<Rightarrow> bool" where
  "TextIsQuoted str =
     (case str of
        None \<Rightarrow> False
      | Some s \<Rightarrow>
          if length s < 2 then False
          else
            (let first = s ! 0; last = s ! (length s - 1) in
             first = CHR 0x22 \<and> last = CHR 0x22 \<or> first = CHR 0x27 \<and> last = CHR 0x27))"

definition TextUnquote :: "string option \<Rightarrow> string option \<Rightarrow> nat \<Rightarrow> (string option \<times> nat) exec" where
  "TextUnquote str out outSize = with_out str out outSize (\<lambda>s b.
     if \<not> TextIsQuoted (Some s) then
       (let len = (if length s \<ge> outSize then outSize - 1 else length s) in do {
          (b, ok) \<leftarrow> memcpy_s b 0 outSize (take len s);
          if \<not> ok then Some (b, 0)
          else do { b \<leftarrow> store b len (CHR 0x00); Some (b, len) }
        })
     else
       (let len = length s - 2; len = (if len \<ge> outSize then outSize - 1 else len) in do {
          (b, ok) \<leftarrow> memcpy_s b 0 outSize (take len (drop 1 s));
          if \<not> ok then Some (b, 0)
          else do { b \<leftarrow> store b len (CHR 0x00); Some (b, len) }
        }))"

definition TextQuote :: "string option \<Rightarrow> string option \<Rightarrow> nat \<Rightarrow> (string option \<times> nat) exec" where
  "TextQuote str out outSize =
     with_out str out outSize (\<lambda>s b.
       if outSize < 3 then Some (b, 0)
       else
         (let len = (if length s + 2 \<ge> outSize then outSize - 3 else length s) in do {
            b \<leftarrow> store b 0 (CHR 0x22);
            (b, ok) \<leftarrow> memcpy_s b 1 (outSize - 1) (take len s);
            if \<not> ok then Some (b, 0)
            else do {
              b \<leftarrow> store b (len + 1) (CHR 0x22);
              b \<leftarrow> store b (len + 2) (CHR 0x00);
              Some (b, len + 2)
            }
          }))"

subsection \<open>Tokens and numbers\<close>

definition TextFindToken :: "string option \<Rightarrow> 32 word" where
  "TextFindToken str =
     (case str of
        None \<Rightarrow> 0
      | Some s \<Rightarrow> (case find (\<lambda>(token, value). token = s) COMMON_TOKEN_TABLE of None \<Rightarrow> 0 | Some (token, value) \<Rightarrow> value))"

definition TextFindTokenName :: "32 word \<Rightarrow> string option" where
  "TextFindTokenName v = map_option fst (find (\<lambda>(token, value). value = v) COMMON_TOKEN_TABLE)"

text \<open>The digits of a number, the last one first.\<close>

fun uint_digits :: "nat \<Rightarrow> string" where
  "uint_digits value = (if value > 0 then char_of (48 + value mod 10) # uint_digits (value div 10) else [])"

declare uint_digits.simps [simp del]

definition TextFormatUint :: "64 word \<Rightarrow> string option \<Rightarrow> nat \<Rightarrow> (string option \<times> nat) exec" where
  "TextFormatUint value out outSize = with_out (Some ()) out outSize (\<lambda>_ b.
     let reversed = (if value = 0 then ''0'' else uint_digits (unat value));
         totalDigits = length reversed;
         digits = (if totalDigits \<ge> outSize then outSize - 1 else totalDigits)
     in if totalDigits > 32 then None
        else do {
          b \<leftarrow> for_range 0 digits (\<lambda>i b. store b i (reversed ! (totalDigits - 1 - i))) b;
          b \<leftarrow> store b digits (CHR 0x00);
          Some (b, digits)
        })"

definition hi_nibble :: "8 word \<Rightarrow> nat" where
  "hi_nibble b = unat (drop_bit 4 b AND 0x0F)"

definition lo_nibble :: "8 word \<Rightarrow> nat" where
  "lo_nibble b = unat (b AND 0x0F)"

text \<open>An array has at least the length that is passed with it.\<close>

definition TextFormatHexBytes :: "8 word list option \<Rightarrow> nat \<Rightarrow> HexFormat \<Rightarrow> string option \<Rightarrow> nat \<Rightarrow> (string option \<times> nat) exec" where
  "TextFormatHexBytes bytes len format out outSize = with_out bytes out outSize (\<lambda>bs b.
     let len = (if len > (outSize - 1) div 2 then (outSize - 1) div 2 else len) in
     if len > length bs then None
     else do {
       (b, w) \<leftarrow> for_range 0 len
         (\<lambda>i (b, w). do {
            b \<leftarrow> store b w (AsciiNibbleToHex (hi_nibble (bs ! i)) format);
            b \<leftarrow> store b (w + 1) (AsciiNibbleToHex (lo_nibble (bs ! i)) format);
            Some (b, w + 2)
          })
         (b, 0);
       b \<leftarrow> store b w (CHR 0x00);
       Some (b, w)
     })"

definition TextBytesToHexString :: "8 word list option \<Rightarrow> nat \<Rightarrow> bool \<Rightarrow> string option \<Rightarrow> nat \<Rightarrow> (string option \<times> nat) exec" where
  "TextBytesToHexString data len upper out outSize =
     TextFormatHexBytes data len (if upper then HEX_FORMAT_UPPER else HEX_FORMAT_LOWER) out outSize"

fun hex_to_bytes :: "string \<Rightarrow> nat \<Rightarrow> nat \<Rightarrow> 8 word list \<Rightarrow> (8 word list \<times> bool) exec" where
  "hex_to_bytes hex i 0 b = Some (b, True)"
| "hex_to_bytes hex i (Suc n) b =
     (let high = AsciiHexToNibble (hex ! (i * 2));
          low = AsciiHexToNibble (hex ! (i * 2 + 1))
      in if high < 0 \<or> low < 0 then Some (b, False)
         else do { b \<leftarrow> store b i (word_of_int (push_bit 4 high OR low)); hex_to_bytes hex (i + 1) n b })"

definition TextHexStringToBytes :: "string option \<Rightarrow> 8 word list option \<Rightarrow> nat \<Rightarrow> (8 word list option \<times> nat) exec" where
  "TextHexStringToBytes hex out outSize = with_out hex out outSize (\<lambda>hex b.
     if length hex mod 2 \<noteq> 0 then Some (b, 0)
     else
       (let byteCount = length hex div 2 in
        if byteCount > outSize then Some (b, 0)
        else do { (b, ok) \<leftarrow> hex_to_bytes hex 0 byteCount b; Some (b, if ok then byteCount else 0) }))"

definition duration_units :: "nat list" where
  "duration_units = [1, 1000, 1000000, 1000000000, 60000000000, 3600000000000, 86400000000000]"

definition TextFormatDuration :: "64 word \<Rightarrow> string option \<Rightarrow> nat \<Rightarrow> (string option \<times> nat) exec" where
  "TextFormatDuration nanos out outSize = with_out (Some ()) out outSize (\<lambda>_ b.
     let unitIndex = foldl (\<lambda>u i. if unat nanos \<ge> duration_units ! i then i else u) 0 [1..<length duration_units];
         value = unat nanos div (duration_units ! unitIndex)
     in do {
          (b, ret) \<leftarrow> snprintf_s b outSize (decimal value @ TIME_UNIT_TABLE ! unitIndex);
          Some (b, if ret < 0 then 0 else nat ret)
        })"

definition TextFormatUnitsTable :: "64 word list option \<Rightarrow> nat \<Rightarrow> string option \<Rightarrow> string option \<Rightarrow> nat \<Rightarrow> (string option \<times> nat) exec" where
  "TextFormatUnitsTable values count separator out outSize =
     (case separator of
        None \<Rightarrow> Some (out, 0)
      | Some separator \<Rightarrow> with_out values out outSize (\<lambda>vs b.
          if count > length vs then None
          else do {
            (b, w, stop) \<leftarrow> for_range 0 count
              (\<lambda>i (b, w, stop).
                 if stop then Some (b, w, True)
                 else do {
                   (part, partLen) \<leftarrow> TextFormatUint (vs ! i) (Some (replicate 32 (CHR 0x00))) 32;
                   if w + partLen \<ge> outSize then Some (b, w, True)
                   else do {
                     (b, ok) \<leftarrow> memcpy_s b w (outSize - w) (take partLen (the part));
                     if \<not> ok then Some (b, w, True)
                     else
                       (let w = w + partLen in
                        if i + 1 < count then
                          if w + length separator \<ge> outSize then Some (b, w, True)
                          else do {
                            (b, ok) \<leftarrow> memcpy_s b w (outSize - w) separator;
                            if \<not> ok then Some (b, w, True) else Some (b, w + length separator, False)
                          }
                        else Some (b, w, False))
                   }
                 })
              (b, 0, False);
            b \<leftarrow> store b w (CHR 0x00);
            Some (b, w)
          }))"

subsection \<open>Escapes\<close>

text \<open>The functions return the buffer and the new value of \<^verbatim>\<open>written\<close>.\<close>

definition AppendByte :: "string \<Rightarrow> nat \<Rightarrow> nat \<Rightarrow> char \<Rightarrow> (string \<times> nat) exec" where
  "AppendByte out outSize written ch =
     (if written \<ge> outSize - 1 then Some (out, written)
      else do { out \<leftarrow> store out written ch; Some (out, written + 1) })"

definition AppendNamedEscape :: "string \<Rightarrow> nat \<Rightarrow> nat \<Rightarrow> string \<Rightarrow> (string \<times> nat) exec" where
  "AppendNamedEscape out outSize written name =
     (if written + length name \<ge> outSize then Some (out, written)
      else do {
        (out, ok) \<leftarrow> memcpy_s out written (outSize - written) name;
        Some (out, if ok then written + length name else written)
      })"

definition AppendNumericEscape :: "string \<Rightarrow> nat \<Rightarrow> nat \<Rightarrow> char \<Rightarrow> (string \<times> nat) exec" where
  "AppendNumericEscape out outSize written ch =
     (if written + 4 \<ge> outSize then Some (out, written)
      else do {
        out \<leftarrow> stores out written
          [CHR 0x5C, CHR ''x'', AsciiNibbleToHex (hi_nibble (of_nat (ascii ch))) HEX_FORMAT_LOWER,
           AsciiNibbleToHex (lo_nibble (of_nat (ascii ch))) HEX_FORMAT_LOWER];
        Some (out, written + 4)
      })"

definition AppendEscape :: "string \<Rightarrow> nat \<Rightarrow> nat \<Rightarrow> char \<Rightarrow> EscapeMode \<Rightarrow> (string \<times> nat) exec" where
  "AppendEscape out outSize written ch mode =
     (if mode = ESCAPE_MODE_NONE then AppendByte out outSize written ch
      else if mode = ESCAPE_MODE_NAMED then
        if ch = CHR 0x5C then AppendNamedEscape out outSize written [CHR 0x5C, CHR 0x5C]
        else if ch = CHR 0x22 then AppendNamedEscape out outSize written [CHR 0x5C, CHR 0x22]
        else if ch = CHR 0x27 then AppendNamedEscape out outSize written [CHR 0x5C, CHR 0x27]
        else if ch = CHR 0x0A then AppendNamedEscape out outSize written [CHR 0x5C, CHR ''n'']
        else if ch = CHR 0x0D then AppendNamedEscape out outSize written [CHR 0x5C, CHR ''r'']
        else if ch = CHR 0x09 then AppendNamedEscape out outSize written [CHR 0x5C, CHR ''t'']
        else if \<not> AsciiIsPrint ch then AppendNumericEscape out outSize written ch
        else AppendByte out outSize written ch
      else if AsciiIsPrint ch then AppendByte out outSize written ch
      else AppendNumericEscape out outSize written ch)"

fun escape_loop :: "string \<Rightarrow> string \<Rightarrow> nat \<Rightarrow> nat \<Rightarrow> EscapeMode \<Rightarrow> (string \<times> nat) exec" where
  "escape_loop [] out outSize written mode = Some (out, written)"
| "escape_loop (c # cs) out outSize written mode = do {
     (out, w) \<leftarrow> AppendEscape out outSize written c mode;
     if w = written then Some (out, w)
     else if w \<ge> outSize - 1 then Some (out, w)
     else escape_loop cs out outSize w mode
   }"

definition TextEscape :: "string option \<Rightarrow> string option \<Rightarrow> nat \<Rightarrow> EscapeMode \<Rightarrow> (string option \<times> nat) exec" where
  "TextEscape str out outSize mode = with_out str out outSize (\<lambda>s b.
     let mode = (if mode = ESCAPE_MODE_MAX then ESCAPE_MODE_NUMERIC else mode) in do {
       (b, w) \<leftarrow> escape_loop s b outSize 0 mode;
       b \<leftarrow> store b w (CHR 0x00);
       Some (b, w)
     })"

text \<open>The value and the new value of \<^verbatim>\<open>*index\<close>.\<close>

definition ConsumeHexEscape :: "string \<Rightarrow> nat \<Rightarrow> nat \<Rightarrow> int \<times> nat" where
  "ConsumeHexEscape str len index =
     (if index + 2 \<ge> len then (- 1, index)
      else
        (let high = AsciiHexToNibble (str ! (index + 1));
             low = AsciiHexToNibble (str ! (index + 2))
         in if high < 0 \<or> low < 0 then (- 1, index)
            else (push_bit 4 high OR low, index + 3)))"

definition MapUnescapeChar :: "char \<Rightarrow> int" where
  "MapUnescapeChar ch =
     (if ch = CHR ''n'' then 10
      else if ch = CHR ''r'' then 13
      else if ch = CHR ''t'' then 9
      else if ch = CHR 0x5C then 92
      else if ch = CHR 0x22 then 34
      else if ch = CHR 0x27 then 39
      else - 1)"

text \<open>The loops of \<^verbatim>\<open>TextUnescape\<close> and \<^verbatim>\<open>TextUriDecode\<close>; the flag is false where the code returns 0 at once.\<close>

definition unescape_step :: "string \<Rightarrow> nat \<Rightarrow> int \<times> nat" where
  "unescape_step str read =
     (let nxt = str ! (read + 1) in
      if nxt = CHR ''x'' then ConsumeHexEscape str (length str) read
      else (let v = MapUnescapeChar nxt in (v, if v \<ge> 0 then read + 2 else read)))"

lemma ConsumeHexEscape_index: "ConsumeHexEscape str len index = (v, index') \<Longrightarrow> v < 0 \<and> index' = index \<or> index' = index + 3"
  by (auto simp: ConsumeHexEscape_def Let_def split: if_splits)

lemma unescape_step_index: "unescape_step str read = (v, read') \<Longrightarrow> v < 0 \<and> read' = read \<or> read < read'"
  by (auto simp: unescape_step_def Let_def MapUnescapeChar_def split: if_splits dest: ConsumeHexEscape_index)

function unescape_loop :: "string \<Rightarrow> string \<Rightarrow> nat \<Rightarrow> nat \<Rightarrow> nat \<Rightarrow> (string \<times> nat \<times> bool) exec" where
  "unescape_loop str out outSize read written =
     (if read < length str \<and> written < outSize - 1 then
        if str ! read \<noteq> CHR 0x5C then do {
          out \<leftarrow> store out written (str ! read);
          unescape_loop str out outSize (read + 1) (written + 1)
        }
        else if read + 1 \<ge> length str then do {
          out \<leftarrow> store out written (CHR 0x5C);
          unescape_loop str out outSize (read + 1) (written + 1)
        }
        else
          (case unescape_step str read of (v, read') \<Rightarrow>
           if v < 0 then do {
             out \<leftarrow> store out written (CHR 0x5C);
             unescape_loop str out outSize (read + 1) (written + 1)
           }
           else if v = 0 then Some (out, written, False)
           else do {
             out \<leftarrow> store out written (char_of (nat v));
             unescape_loop str out outSize read' (written + 1)
           })
      else Some (out, written, True))"
  by pat_completeness auto
termination
  by (relation "measure (\<lambda>(str, out, outSize, read, written). length str - read)")
    (auto dest!: unescape_step_index [OF sym])

declare unescape_loop.simps [simp del]

definition TextUnescape :: "string option \<Rightarrow> string option \<Rightarrow> nat \<Rightarrow> (string option \<times> nat) exec" where
  "TextUnescape str out outSize = with_out str out outSize (\<lambda>s b. do {
     (b, w, ok) \<leftarrow> unescape_loop s b outSize 0 0;
     if \<not> ok then Some (b, 0)
     else do { b \<leftarrow> store b w (CHR 0x00); Some (b, w) }
   })"

subsection \<open>Percent encoding\<close>

fun uri_encode_loop :: "string \<Rightarrow> string \<Rightarrow> nat \<Rightarrow> nat \<Rightarrow> (string \<times> nat) exec" where
  "uri_encode_loop [] out outSize written = Some (out, written)"
| "uri_encode_loop (ch # str) out outSize written =
     (if URI_ENCODE_TABLE ! ascii ch = 0 then
        if written \<ge> outSize - 1 then Some (out, written)
        else do { out \<leftarrow> store out written ch; uri_encode_loop str out outSize (written + 1) }
      else if written + 3 \<ge> outSize then Some (out, written)
      else do {
        out \<leftarrow> stores out written
          [CHR ''%'', AsciiNibbleToHex (hi_nibble (of_nat (ascii ch))) HEX_FORMAT_UPPER,
           AsciiNibbleToHex (lo_nibble (of_nat (ascii ch))) HEX_FORMAT_UPPER];
        uri_encode_loop str out outSize (written + 3)
      })"

definition TextUriEncode :: "string option \<Rightarrow> string option \<Rightarrow> nat \<Rightarrow> (string option \<times> nat) exec" where
  "TextUriEncode str out outSize = with_out str out outSize (\<lambda>s b. do {
     (b, w) \<leftarrow> uri_encode_loop s b outSize 0;
     b \<leftarrow> store b w (CHR 0x00);
     Some (b, w)
   })"

function uri_decode_loop :: "string \<Rightarrow> string \<Rightarrow> nat \<Rightarrow> nat \<Rightarrow> nat \<Rightarrow> (string \<times> nat \<times> bool) exec" where
  "uri_decode_loop str out outSize read written =
     (if read < length str \<and> written < outSize - 1 then
        (case (if str ! read = CHR ''%'' then ConsumeHexEscape str (length str) read else (- 1, read)) of (v, read') \<Rightarrow>
         if v > 0 then do {
           out \<leftarrow> store out written (char_of (nat v));
           uri_decode_loop str out outSize read' (written + 1)
         }
         else if v = 0 then Some (out, written, False)
         else do {
           out \<leftarrow> store out written (str ! read);
           uri_decode_loop str out outSize (read + 1) (written + 1)
         })
      else Some (out, written, True))"
  by pat_completeness auto
termination
  by (relation "measure (\<lambda>(str, out, outSize, read, written). length str - read)")
    (auto split: if_splits dest!: ConsumeHexEscape_index [OF sym])

declare uri_decode_loop.simps [simp del]

definition TextUriDecode :: "string option \<Rightarrow> string option \<Rightarrow> nat \<Rightarrow> (string option \<times> nat) exec" where
  "TextUriDecode str out outSize = with_out str out outSize (\<lambda>s b. do {
     (b, w, ok) \<leftarrow> uri_decode_loop s b outSize 0 0;
     if \<not> ok then Some (b, 0)
     else do { b \<leftarrow> store b w (CHR 0x00); Some (b, w) }
   })"

subsection \<open>Base64 and base32\<close>

text \<open>The four characters of a block of one to three bytes.\<close>

definition Base64EncodeBlock :: "8 word list \<Rightarrow> string" where
  "Base64EncodeBlock src =
     (let buffer = foldl (\<lambda>buffer b. push_bit 8 buffer OR ucast b) (0 :: 32 word) src;
          used = length src;
          buffer = push_bit ((3 - length src) * 8) buffer
      in map (\<lambda>i. if used = 0 \<or> i < used + 1 then BASE64_ENCODE_TABLE ! unat (drop_bit (6 * (3 - i)) buffer AND 0x3F)
                  else CHR ''='') [0..<4])"

fun base64_groups :: "8 word list \<Rightarrow> nat \<Rightarrow> string \<Rightarrow> nat \<Rightarrow> (string \<times> nat) exec" where
  "base64_groups src 0 out written = Some (out, written)"
| "base64_groups src (Suc groupCount) out written = do {
     out \<leftarrow> stores out written (Base64EncodeBlock (take 3 src));
     base64_groups (drop 3 src) groupCount out (written + 4)
   }"

definition Base64Encode :: "8 word list option \<Rightarrow> nat \<Rightarrow> string option \<Rightarrow> nat \<Rightarrow> (string option \<times> nat) exec" where
  "Base64Encode src srcLen out outSize = with_out src out outSize (\<lambda>src b.
     if srcLen > length src then None
     else if srcLen = 0 then do { b \<leftarrow> store b 0 (CHR 0x00); Some (b, 0) }
     else
       (let groupCount = srcLen div 3; remainder = srcLen mod 3;
            blocks = groupCount + (if remainder \<noteq> 0 then 1 else 0)
        in if blocks > (outSize - 1) div 4 then Some (b, 0)
           else do {
             (b, w) \<leftarrow> base64_groups src groupCount b 0;
             (b, w) \<leftarrow> (if remainder \<noteq> 0 then do {
                 b \<leftarrow> stores b w (Base64EncodeBlock (take remainder (drop (groupCount * 3) src)));
                 Some (b, w + 4)
               } else Some (b, w));
             b \<leftarrow> store b w (CHR 0x00);
             Some (b, w)
           }))"

text \<open>The values of the group and the number of bytes it stands for, from its characters and whether it is the last one.\<close>

definition base64_group :: "string \<Rightarrow> bool \<Rightarrow> (int list \<times> nat) option" where
  "base64_group cs atEnd =
     (let grp = map (\<lambda>c. BASE64_DECODE_TABLE ! ascii c) cs;
          padCount = length (filter (\<lambda>c. c = CHR ''='') cs)
      in if grp ! 0 < 0 \<or> grp ! 1 < 0 then None
         else if padCount = 0 then
           if grp ! 2 < 0 \<or> grp ! 3 < 0 then None else Some (grp, 3 - padCount)
         else if \<not> atEnd then None
         else if padCount = 2 then
           if cs ! 2 \<noteq> CHR ''='' \<or> cs ! 3 \<noteq> CHR ''='' then None
           else Some (grp[2 := 0, 3 := 0], 3 - padCount)
         else if padCount = 1 then
           if cs ! 3 \<noteq> CHR ''='' then None
           else if grp ! 2 < 0 then None
           else Some (grp[3 := 0], 3 - padCount)
         else None)"

definition DecodeBase64Group :: "string \<Rightarrow> nat \<Rightarrow> nat \<Rightarrow> (int list \<times> nat) option exec" where
  "DecodeBase64Group src len offset =
     (if offset + 4 > length src then None
      else Some (base64_group (map (\<lambda>n. src ! (offset + n)) [0..<4]) (offset + 4 = len)))"

definition base64_triple :: "int list \<Rightarrow> 32 word" where
  "base64_triple grp = foldl (\<lambda>triple n. triple OR push_bit (6 * (3 - n)) (word_of_int (grp ! n))) 0 [0..<4]"

definition base64_bytes :: "32 word \<Rightarrow> nat \<Rightarrow> 8 word list" where
  "base64_bytes triple produced = map (\<lambda>n. ucast (drop_bit (8 * (2 - n)) triple AND 0xFF)) [0..<produced]"

function base64_decode_loop :: "string \<Rightarrow> nat \<Rightarrow> 8 word list \<Rightarrow> nat \<Rightarrow> nat \<Rightarrow> (8 word list \<times> nat) exec" where
  "base64_decode_loop src i out outSize written =
     (if i < length src then do {
        g \<leftarrow> DecodeBase64Group src (length src) i;
        (case g of
           None \<Rightarrow> Some (out, 0)
         | Some (grp, produced) \<Rightarrow>
             if written + produced > outSize then Some (out, 0)
             else do {
               out \<leftarrow> stores out written (base64_bytes (base64_triple grp) produced);
               base64_decode_loop src (i + 4) out outSize (written + produced)
             })
      }
      else Some (out, written))"
  by pat_completeness auto
termination
  by (relation "measure (\<lambda>(src, i, out, outSize, written). length src - i)") auto

declare base64_decode_loop.simps [simp del]

definition Base64Decode :: "string option \<Rightarrow> 8 word list option \<Rightarrow> nat \<Rightarrow> (8 word list option \<times> nat) exec" where
  "Base64Decode src out outSize = with_out src out outSize (\<lambda>src b.
     if length src mod 4 \<noteq> 0 then Some (b, 0) else base64_decode_loop src 0 b outSize 0)"

text \<open>The inner loop of \<^verbatim>\<open>Base32Encode\<close>: the characters of the bits that are complete.\<close>

function base32_chars :: "32 word \<Rightarrow> nat \<Rightarrow> string \<Rightarrow> nat \<Rightarrow> (string \<times> nat \<times> nat) exec" where
  "base32_chars buffer bitsLeft out written =
     (if bitsLeft \<ge> 5 then do {
        out \<leftarrow> store out written (BASE32_ENCODE_TABLE ! unat (drop_bit (bitsLeft - 5) buffer AND 0x1F));
        base32_chars buffer (bitsLeft - 5) out (written + 1)
      }
      else Some (out, bitsLeft, written))"
  by pat_completeness auto
termination
  by (relation "measure (\<lambda>(buffer, bitsLeft, out, written). bitsLeft)") auto

declare base32_chars.simps [simp del]

fun base32_loop :: "8 word list \<Rightarrow> 32 word \<Rightarrow> nat \<Rightarrow> string \<Rightarrow> nat \<Rightarrow> (32 word \<times> nat \<times> string \<times> nat) exec" where
  "base32_loop [] buffer bitsLeft out written = Some (buffer, bitsLeft, out, written)"
| "base32_loop (b # bs) buffer bitsLeft out written = do {
     let buffer = push_bit 8 buffer OR ucast b;
     (out, bitsLeft, written) \<leftarrow> base32_chars buffer (bitsLeft + 8) out written;
     base32_loop bs buffer bitsLeft out written
   }"

text \<open>The character of the remaining bits and the padding.\<close>

definition base32_finish :: "32 word \<Rightarrow> nat \<Rightarrow> string \<Rightarrow> nat \<Rightarrow> (string \<times> nat) exec" where
  "base32_finish buffer bitsLeft out written = do {
     (out, written) \<leftarrow> (if bitsLeft > 0 then do {
         out \<leftarrow> store out written (BASE32_ENCODE_TABLE ! unat (push_bit (5 - bitsLeft) buffer AND 0x1F));
         Some (out, written + 1)
       } else Some (out, written));
     let pad = (8 - written mod 8) mod 8;
     out \<leftarrow> stores out written (replicate pad (CHR ''=''));
     out \<leftarrow> store out (written + pad) (CHR 0x00);
     Some (out, written + pad)
   }"

definition Base32Encode :: "8 word list option \<Rightarrow> nat \<Rightarrow> string option \<Rightarrow> nat \<Rightarrow> (string option \<times> nat) exec" where
  "Base32Encode src srcLen out outSize = with_out src out outSize (\<lambda>src b.
     if srcLen > length src then None
     else if srcLen = 0 then do { b \<leftarrow> store b 0 (CHR 0x00); Some (b, 0) }
     else
       (let groups = srcLen div 5 + (if srcLen mod 5 \<noteq> 0 then 1 else 0) in
        if groups > (outSize - 1) div 8 then Some (b, 0)
        else do {
          (buffer, bitsLeft, b, w) \<leftarrow> base32_loop (take srcLen src) 0 0 b 0;
          base32_finish buffer bitsLeft b w
        }))"

subsection \<open>Check sums\<close>

definition crc16_bit :: "16 word \<Rightarrow> 16 word" where
  "crc16_bit crc = (if crc AND 0x8000 \<noteq> 0 then push_bit 1 crc XOR 0x8005 else push_bit 1 crc)"

definition crc16_byte :: "16 word \<Rightarrow> 8 word \<Rightarrow> 16 word" where
  "crc16_byte crc b = (crc16_bit ^^ 8) (crc XOR push_bit 8 (ucast b))"

definition Crc16 :: "8 word list \<Rightarrow> 16 word \<Rightarrow> 16 word" where
  "Crc16 data seed = foldl crc16_byte seed data"

definition crc32_bit :: "32 word \<Rightarrow> 32 word" where
  "crc32_bit crc = (if crc AND 0x01 \<noteq> 0 then drop_bit 1 crc XOR 0xEDB88320 else drop_bit 1 crc)"

definition crc32_byte :: "32 word \<Rightarrow> 8 word \<Rightarrow> 32 word" where
  "crc32_byte crc b = (crc32_bit ^^ 8) (crc XOR ucast b)"

definition Crc32 :: "8 word list \<Rightarrow> 32 word \<Rightarrow> 32 word" where
  "Crc32 data seed = foldl crc32_byte (seed XOR 0xFFFFFFFF) data XOR 0xFFFFFFFF"

end
