(* ===== verification/Text_Codec.thy ===== *)
theory Text_Codec
  imports Text_Utils
begin

text \<open>
  The properties of the text utilities: the character classes are those of the C locale, encoders and decoders
  are inverse to each other, no function writes outside of its buffer, and the check sums detect errors.
\<close>

subsection \<open>Character classes\<close>

lemma ascii_less [simp]: "ascii c < 256"
  by (simp add: ascii_def)

lemma char_of_ascii [simp]: "char_of (ascii c) = c"
  by (simp add: ascii_def)

lemma ascii_inj: "ascii a = ascii b \<longleftrightarrow> a = b"
  by (metis char_of_ascii)

lemma nth_table:
  assumes a: "map f T = map g [0..<256]"
  shows "f (T ! ascii c) = g (ascii c)"
proof -
  have "length (map f T) = 256" by (simp only: a length_map length_upt)
  then have "f (T ! ascii c) = map f T ! ascii c" by simp
  also have "\<dots> = g (ascii c)" by (simp only: a) simp
  finally show ?thesis .
qed

lemma class_tables:
  "map (\<lambda>w. w AND 0x01 \<noteq> 0) ASCII_CLASS_TABLE = map (\<lambda>n. n < 32 \<or> n = 127) [0..<256]"
  "map (\<lambda>w. w AND 0x02 \<noteq> 0) ASCII_CLASS_TABLE = map (\<lambda>n. n = 32) [0..<256]"
  "map (\<lambda>w. w AND 0x04 \<noteq> 0) ASCII_CLASS_TABLE = map (\<lambda>n. 48 \<le> n \<and> n \<le> 57) [0..<256]"
  "map (\<lambda>w. w AND 0x08 \<noteq> 0) ASCII_CLASS_TABLE = map (\<lambda>n. 48 \<le> n \<and> n \<le> 57 \<or> 65 \<le> n \<and> n \<le> 70 \<or> 97 \<le> n \<and> n \<le> 102) [0..<256]"
  "map (\<lambda>w. w AND 0x10 \<noteq> 0) ASCII_CLASS_TABLE = map (\<lambda>n. 65 \<le> n \<and> n \<le> 90) [0..<256]"
  "map (\<lambda>w. w AND 0x20 \<noteq> 0) ASCII_CLASS_TABLE = map (\<lambda>n. 97 \<le> n \<and> n \<le> 122) [0..<256]"
  "map (\<lambda>w. w AND 0x80 \<noteq> 0) ASCII_CLASS_TABLE = map (\<lambda>n. 32 \<le> n \<and> n \<le> 126) [0..<256]"
  by (simp_all add: ASCII_CLASS_TABLE_def upt_rec)

lemmas class_bits = class_tables [THEN nth_table]

lemma ascii_classes:
  "AsciiIsControl c \<longleftrightarrow> ascii c < 32 \<or> ascii c = 127"
  "AsciiIsSpace c \<longleftrightarrow> c = CHR '' ''"
  "AsciiIsDigit c \<longleftrightarrow> isdigit c"
  "AsciiIsHexDigit c \<longleftrightarrow> is_digit 16 c"
  "AsciiIsAlpha c \<longleftrightarrow> isalpha c"
  "AsciiIsAlnum c \<longleftrightarrow> isalnum c"
  "AsciiIsPrint c \<longleftrightarrow> 32 \<le> ascii c \<and> ascii c \<le> 126"
proof -
  have space: "ascii c = 32 \<longleftrightarrow> c = CHR '' ''" using ascii_inj [of c "CHR '' ''"] by (simp add: ascii_def)
  show "AsciiIsControl c \<longleftrightarrow> ascii c < 32 \<or> ascii c = 127"
    "AsciiIsSpace c \<longleftrightarrow> c = CHR '' ''" "AsciiIsDigit c \<longleftrightarrow> isdigit c"
    "AsciiIsPrint c \<longleftrightarrow> 32 \<le> ascii c \<and> ascii c \<le> 126"
    "AsciiIsAlpha c \<longleftrightarrow> isalpha c" "AsciiIsAlnum c \<longleftrightarrow> isalnum c"
    by (simp_all add: AsciiIsControl_def AsciiIsSpace_def AsciiIsDigit_def AsciiIsPrint_def AsciiIsAlpha_def AsciiIsAlnum_def
        AsciiIsUpper_def AsciiIsLower_def ClassHasBit_def IsValidClassBit_def class_bits space isdigit_def isalpha_def isalnum_def)
  show "AsciiIsHexDigit c \<longleftrightarrow> is_digit 16 c"
    by (auto simp: AsciiIsHexDigit_def ClassHasBit_def IsValidClassBit_def class_bits is_digit_def digit_val_def Let_def)
qed

lemma case_tables:
  "map unat UPPER_TO_LOWER_TABLE = map (\<lambda>n. if 65 \<le> n \<and> n \<le> 90 then n + 32 else n) [0..<256]"
  "map unat LOWER_TO_UPPER_TABLE = map (\<lambda>n. if 97 \<le> n \<and> n \<le> 122 then n - 32 else n) [0..<256]"
  by (simp_all add: UPPER_TO_LOWER_TABLE_def LOWER_TO_UPPER_TABLE_def upt_rec)

lemma AsciiToLower_tolower: "AsciiToLower c = tolower c"
  by (simp add: AsciiToLower_def tolower_def nth_table [OF case_tables(1)])

lemma AsciiToUpper_eq: "AsciiToUpper c = (if 97 \<le> ascii c \<and> ascii c \<le> 122 then char_of (ascii c - 32) else c)"
  by (simp add: AsciiToUpper_def nth_table [OF case_tables(2)])

lemma hex_table:
  "map uint HEX_VALUE_TABLE =
     map (\<lambda>n. if 48 \<le> n \<and> n \<le> 57 then int n - 48 else if 65 \<le> n \<and> n \<le> 70 then int n - 55
              else if 97 \<le> n \<and> n \<le> 102 then int n - 87 else 255) [0..<256]"
  by (simp add: HEX_VALUE_TABLE_def upt_rec)

lemma AsciiHexToNibble_eq:
  "AsciiHexToNibble c = (case digit_val c of Some d \<Rightarrow> if d < 16 then int d else 255 | None \<Rightarrow> 255)"
  by (auto simp: AsciiHexToNibble_def nth_table [OF hex_table] digit_val_def Let_def)

lemma AsciiHexToNibble_nonneg: "\<not> AsciiHexToNibble c < 0"
  by (simp add: AsciiHexToNibble_def)

lemma nibble_roundtrip: "n < 16 \<Longrightarrow> AsciiHexToNibble (AsciiNibbleToHex n f) = int n"
proof -
  have "list_all (\<lambda>n. \<forall>f. AsciiHexToNibble (AsciiNibbleToHex n f) = int n) [0..<16]"
    by (simp add: upt_rec AsciiNibbleToHex_def HEX_LOWER_DIGITS_def HEX_UPPER_DIGITS_def AsciiHexToNibble_eq digit_val_def ascii_def)
  then show "n < 16 \<Longrightarrow> ?thesis" by (simp add: list_all_iff)
qed

lemma nibble_words: "(15::8 word) = mask 4" "(15::nat) = mask 4"
  by (simp_all add: mask_eq_exp_minus_1)

lemma hi_nibble_div: "hi_nibble b = unat b div 16"
proof -
  have "unat b < 256" using unsigned_less [of b] by simp
  then have "unat b div 16 < 16" by simp
  then show ?thesis by (simp add: hi_nibble_def unsigned_and_eq unsigned_drop_bit_eq drop_bit_eq_div nibble_words flip: take_bit_eq_mask)
    (simp add: take_bit_eq_mod unat_div unat_mod)
qed

lemma lo_nibble_mod: "lo_nibble b = unat b mod 16"
  by (simp add: lo_nibble_def nibble_words unsigned_take_bit_eq flip: take_bit_eq_mask) (simp add: take_bit_eq_mod)

subsection \<open>Memory\<close>

lemma store_next: "rest \<noteq> [] \<Longrightarrow> store (ys @ rest) (length ys) c = Some ((ys @ [c]) @ tl rest)"
  by (cases rest) (auto simp: store_def)

lemma stores_next: "length xs \<le> length rest \<Longrightarrow> stores (ys @ rest) (length ys) xs = Some ((ys @ xs) @ drop (length xs) rest)"
proof (induction xs arbitrary: ys rest)
  case (Cons x xs)
  then obtain r rs where rest: "rest = r # rs" by (cases rest) auto
  with Cons.IH [of rs "ys @ [x]"] Cons.prems show ?case by (simp add: store_def)
qed simp

text \<open>A write changes only the first \<^verbatim>\<open>outSize\<close> cells.\<close>

definition frame :: "nat \<Rightarrow> 'a list \<Rightarrow> 'a list \<Rightarrow> bool" where
  "frame outSize b b' = (length b' = length b \<and> drop outSize b' = drop outSize b)"

lemma frame_refl [simp]: "frame n b b"
  by (simp add: frame_def)

lemma frame_trans: "frame n a b \<Longrightarrow> frame n b c \<Longrightarrow> frame n a c"
  by (simp add: frame_def)

lemma frame_length: "frame n a b \<Longrightarrow> length b = length a"
  by (simp add: frame_def)

lemma frame_store: "i < n \<Longrightarrow> n \<le> length b \<Longrightarrow> \<exists>b'. store b i x = Some b' \<and> frame n b b'"
  by (simp add: store_def frame_def)

lemma frame_stores: "i + length xs \<le> n \<Longrightarrow> n \<le> length b \<Longrightarrow> \<exists>b'. stores b i xs = Some b' \<and> frame n b b'"
proof (induction xs arbitrary: i b)
  case (Cons x xs)
  obtain b1 where b1: "store b i x = Some b1" "frame n b b1" using frame_store [of i n b x] Cons.prems by auto
  with Cons.IH [of "i + 1" b1] Cons.prems show ?case by (auto simp: frame_length [OF b1(2)] dest: frame_trans)
qed simp

lemma frame_memcpy:
  "at + destMax \<le> n \<Longrightarrow> n \<le> length b \<Longrightarrow> 
    \<exists>b'. memcpy_s b at destMax src = Some (b', 0 < destMax \<and> destMax \<le> SECUREC_MEM_MAX_LEN \<and> length src \<le> destMax) \<and> frame n b b'"
  using frame_stores [of "at" "replicate destMax (CHR 0x00)" n b] frame_stores [of "at" src n b]
  by (auto simp: memcpy_s_def)

text \<open>A loop keeps an invariant of its state.\<close>

lemma for_range_invariant:
  assumes "\<And>j s. i \<le> j \<Longrightarrow> j < n \<Longrightarrow> I j s \<Longrightarrow> \<exists>s'. body j s = Some s' \<and> I (j + 1) s'" and "I i s" and "i \<le> n"
  shows "\<exists>s'. for_range i n body s = Some s' \<and> I n s'"
  using assms
proof (induction i n body s rule: for_range.induct)
  case (1 i n body s)
  show ?case
  proof (cases "i < n")
    case True
    obtain s1 where s1: "body i s = Some s1" "I (i + 1) s1" using "1.prems"(1) [of i s] True "1.prems"(2) by auto
    with "1.IH" [OF True s1(1)] "1.prems"(1) True show ?thesis by (simp add: for_range.simps [of i])
  next
    case False
    with "1.prems" show ?thesis by (auto simp: for_range.simps [of n n])
  qed
qed
subsection \<open>Bounds\<close>

text \<open>A step on the first \<^verbatim>\<open>n\<close> cells of a buffer is defined, writes nothing else, and its result satisfies \<^verbatim>\<open>P\<close>.\<close>

definition fits :: "nat \<Rightarrow> 'a list \<Rightarrow> ('y \<Rightarrow> bool) \<Rightarrow> ('a list \<times> 'y) exec \<Rightarrow> bool" where
  "fits n b P r = (\<exists>b' y. r = Some (b', y) \<and> frame n b b' \<and> P y)"

lemma fits_return [simp]: "fits n b P (Some (b, y)) \<longleftrightarrow> P y"
  by (simp add: fits_def)

lemma fits_frame: "frame n b b' \<Longrightarrow> fits n b' P r \<Longrightarrow> fits n b P r"
  by (auto simp: fits_def dest: frame_trans)

lemma fits_bind:
  assumes "fits n b P r" "\<And>b' y. length b' = length b \<Longrightarrow> P y \<Longrightarrow> fits n b' Q (f b' y)"
  shows "fits n b Q (r \<bind> (\<lambda>(b, y). f b y))"
proof -
  obtain b' y where r: "r = Some (b', y)" "frame n b b'" "P y" using assms(1) by (auto simp: fits_def)
  then have "fits n b Q (f b' y)" using assms(2) [of b' y] frame_length fits_frame by blast
  with r(1) show ?thesis by simp
qed

lemma fits_store:
  assumes "i < n" "n \<le> length b" "\<And>b'. length b' = length b \<Longrightarrow> fits n b' Q (f b')"
  shows "fits n b Q (store b i x \<bind> f)"
proof -
  obtain b' where b': "store b i x = Some b'" "frame n b b'" using frame_store [OF assms(1,2), of x] by blast
  then have "fits n b Q (f b')" using assms(3) [of b'] frame_length fits_frame by blast
  with b'(1) show ?thesis by simp
qed

lemma fits_stores:
  assumes "i + length xs \<le> n" "n \<le> length b" "\<And>b'. length b' = length b \<Longrightarrow> fits n b' Q (f b')"
  shows "fits n b Q (stores b i xs \<bind> f)"
proof -
  obtain b' where b': "stores b i xs = Some b'" "frame n b b'" using frame_stores [OF assms(1,2)] by blast
  then have "fits n b Q (f b')" using assms(3) [of b'] frame_length fits_frame by blast
  with b'(1) show ?thesis by simp
qed

lemma fits_memcpy: "at + destMax \<le> n \<Longrightarrow> n \<le> length b \<Longrightarrow> fits n b (\<lambda>ok. True) (memcpy_s b at destMax src)"
  by (drule (1) frame_memcpy [where src = src]) (auto simp: fits_def)

lemma fits_if: "(c \<Longrightarrow> fits n b P x) \<Longrightarrow> (\<not> c \<Longrightarrow> fits n b P y) \<Longrightarrow> fits n b P (if c then x else y)"
  by simp

lemma fits_for_range:
  assumes "\<And>j b y. i \<le> j \<Longrightarrow> j < m \<Longrightarrow> length b = len \<Longrightarrow> I j y \<Longrightarrow> fits n b (I (j + 1)) (body j (b, y))"
    and "I i y" "length b = len" "i \<le> m"
  shows "fits n b (I m) (for_range i m body (b, y))"
proof -
  have "\<exists>s'. for_range i m body (b, y) = Some s' \<and> (frame n b (fst s') \<and> I m (snd s'))"
  proof (rule for_range_invariant)
    fix j s assume j: "i \<le> j" "j < m" and s: "frame n b (fst s) \<and> I j (snd s)"
    then have "fits n (fst s) (I (j + 1)) (body j s)" using assms(1) [of j "fst s" "snd s"] assms(3) by (auto dest: frame_length)
    with s show "\<exists>s'. body j s = Some s' \<and> (frame n b (fst s') \<and> I (j + 1) (snd s'))" by (auto simp: fits_def dest: frame_trans)
  qed (use assms in auto)
  then show ?thesis by (auto simp: fits_def)
qed

text \<open>The contract of a function with an output buffer: a missing buffer gives 0, and otherwise it is defined, writes to the
  first \<^verbatim>\<open>n\<close> cells only and returns at most \<^verbatim>\<open>n\<close>.\<close>

locale text_writer =
  fixes wr :: "'b list option \<Rightarrow> nat \<Rightarrow> ('b list option \<times> nat) exec"
  assumes null_out: "wr None n = Some (None, 0)"
    and in_frame: "n \<le> length b \<Longrightarrow> \<exists>b' k. wr (Some b) n = Some (Some b', k) \<and> frame n b b' \<and> k \<le> n"
begin

lemma behind: "\<exists>a' k. wr (Some (a @ r)) (length a) = Some (Some (a' @ r), k) \<and> length a' = length a \<and> k \<le> length a"
proof -
  obtain b' k where b': "wr (Some (a @ r)) (length a) = Some (Some b', k)" "frame (length a) (a @ r) b'" "k \<le> length a"
    using in_frame [of "length a" "a @ r"] by auto
  have "b' = take (length a) b' @ r" using b'(2) append_take_drop_id [of "length a" b'] by (simp add: frame_def)
  moreover have "length (take (length a) b') = length a" using b'(2) by (simp add: frame_def)
  ultimately show ?thesis using b'(1,3) by metis
qed

end

lemma text_writerI:
  assumes "\<And>out n. f out n = with_out (Some s) out n (body n)"
    and "\<And>b n. 0 < n \<Longrightarrow> n \<le> length b \<Longrightarrow> fits n b (\<lambda>k. k \<le> n) (body n s b)"
  shows "text_writer f"
proof
  show "f None n = Some (None, 0)" for n by (simp add: assms(1) with_out_def)
  show "\<exists>b' k. f (Some b) n = Some (Some b', k) \<and> frame n b b' \<and> k \<le> n" if "n \<le> length b" for b n
    using assms(2) [of n b] that by (cases "n = 0") (auto simp: assms(1) with_out_def fits_def)
qed

lemma fits_bind_memcpy:
  "at + destMax \<le> n \<Longrightarrow> n \<le> length b \<Longrightarrow> (\<And>b' ok. length b' = length b \<Longrightarrow> fits n b' Q (f b' ok)) \<Longrightarrow>
    fits n b Q (memcpy_s b at destMax src \<bind> (\<lambda>(b, ok). f b ok))"
  by (rule fits_bind [OF fits_memcpy])

lemmas fits_intros = fits_bind_memcpy fits_store fits_stores fits_if

lemma TextUnquote_writer: "text_writer (TextUnquote (Some s))"
  by (rule text_writerI, rule TextUnquote_def, unfold Let_def, intro fits_intros) (auto split: if_splits)

lemma TextQuote_writer: "text_writer (TextQuote (Some s))"
  by (rule text_writerI, rule TextQuote_def, unfold Let_def, intro fits_intros) (auto split: if_splits)



subsubsection \<open>Numbers and hex digits\<close>

lemma uint_digits_length: "v < 10 ^ n \<Longrightarrow> length (uint_digits v) \<le> n"
proof (induction v arbitrary: n rule: uint_digits.induct)
  case (1 v)
  show ?case
  proof (cases "v > 0")
    case True
    with "1.prems" obtain m where "n = Suc m" by (cases n) auto
    with "1.IH" [OF True, of m] "1.prems" True show ?thesis by (simp add: uint_digits.simps [of v] less_mult_imp_div_less mult.commute)
  qed (simp add: uint_digits.simps)
qed

lemma uint_digits_word: "length (uint_digits (unat (v :: 64 word))) \<le> 20"
proof -
  have "unat v < 2 ^ 64" using unsigned_less [of v] by simp
  also have "\<dots> < (10 :: nat) ^ 20" by simp
  finally show ?thesis by (rule uint_digits_length)
qed

lemma fits_for_range_store:
  assumes "m \<le> n" "n \<le> length b" "i \<le> m"
    and "\<And>b'. length b' = length b \<Longrightarrow> fits n b' Q (f b')"
  shows "fits n b Q (for_range i m (\<lambda>i b. store b i (g i)) b \<bind> f)"
proof -
  have "\<exists>b'. for_range i m (\<lambda>i b. store b i (g i)) b = Some b' \<and> frame n b b'"
  proof (rule for_range_invariant)
    fix j s assume j: "i \<le> j" "j < m" "frame n b s"
    with frame_store [of j n s "g j"] assms(1,2) show "\<exists>s'. store s j (g j) = Some s' \<and> frame n b s'"
      using frame_length [OF j(3)] by (auto dest: frame_trans)
  qed (use assms in auto)
  then obtain b' where b': "for_range i m (\<lambda>i b. store b i (g i)) b = Some b'" "frame n b b'" by blast
  then have "fits n b Q (f b')" using assms(4) [of b'] frame_length fits_frame by blast
  with b'(1) show ?thesis by simp
qed

lemma TextFormatUint_writer: "text_writer (TextFormatUint v)"
  by (rule text_writerI, rule TextFormatUint_def, unfold Let_def, intro fits_if fits_for_range_store fits_store)
    (use uint_digits_word [of v] in \<open>auto split: if_splits\<close>)

lemma TextFormatHexBytes_writer: "text_writer (TextFormatHexBytes (Some bs) (length bs) format)"
  by (rule text_writerI, rule TextFormatHexBytes_def, unfold Let_def,
      intro fits_if fits_bind [OF fits_for_range [where I = "\<lambda>j w. w = 2 * j"]] fits_store)
    (auto intro!: fits_store split: if_splits)

lemma fits_hex_to_bytes: "i + m \<le> n \<Longrightarrow> n \<le> length b \<Longrightarrow> fits n b (\<lambda>ok. True) (hex_to_bytes hex i m b)"
  by (induction m arbitrary: i b) (auto simp: Let_def intro!: fits_store)

lemma TextHexStringToBytes_writer: "text_writer (TextHexStringToBytes (Some hex))"
  by (rule text_writerI, rule TextHexStringToBytes_def, unfold Let_def, intro fits_if fits_bind [OF fits_hex_to_bytes]) auto

subsubsection \<open>Escapes\<close>

lemma fits_Append:
  assumes "w < n" "n \<le> length b"
  shows "fits n b (\<lambda>w'. w' < n) (AppendByte b n w c)" "fits n b (\<lambda>w'. w' < n) (AppendNamedEscape b n w name)"
    "fits n b (\<lambda>w'. w' < n) (AppendNumericEscape b n w c)"
proof -
  show "fits n b (\<lambda>w'. w' < n) (AppendByte b n w c)" using assms by (auto simp: AppendByte_def intro!: fits_store)
  show "fits n b (\<lambda>w'. w' < n) (AppendNamedEscape b n w name)" using assms by (auto simp: AppendNamedEscape_def intro!: fits_bind_memcpy)
  show "fits n b (\<lambda>w'. w' < n) (AppendNumericEscape b n w c)"
    unfolding AppendNumericEscape_def using assms by (intro fits_if fits_stores) auto
qed

lemma fits_AppendEscape: "w < n \<Longrightarrow> n \<le> length b \<Longrightarrow> fits n b (\<lambda>w'. w' < n) (AppendEscape b n w c mode)"
  by (simp add: AppendEscape_def fits_Append)

lemma fits_escape_loop: "w < n \<Longrightarrow> n \<le> length b \<Longrightarrow> fits n b (\<lambda>w'. w' < n) (escape_loop cs b n w mode)"
proof (induction cs arbitrary: b w)
  case (Cons c cs)
  show ?case by (simp only: escape_loop.simps, rule fits_bind [OF fits_AppendEscape]) (use Cons in auto)
qed simp

lemma TextEscape_writer: "text_writer (\<lambda>out n. TextEscape (Some s) out n mode)"
  by (rule text_writerI, rule TextEscape_def, unfold Let_def, intro fits_bind [OF fits_escape_loop] fits_store) auto

lemma fits_unescape_loop: "w < n \<Longrightarrow> n \<le> length b \<Longrightarrow> fits n b (\<lambda>(w', ok). w' < n) (unescape_loop str b n r w)"
proof (induction "length str - r" arbitrary: b r w rule: less_induct)
  case less
  show ?case
  proof (cases "r < length str \<and> w < n - 1")
    case True
    have step: "fits n b' (\<lambda>(w', ok). w' < n) (unescape_loop str b' n r' (w + 1))" if "r < r'" "length b' = length b" for b' r'
      using less.hyps [of r' "w + 1" b'] less.prems True that by auto
    show ?thesis
      by (subst unescape_loop.simps) (use less.prems True in \<open>auto simp del: One_nat_def split: prod.split intro!: fits_store step dest!: unescape_step_index\<close>)
  next
    case False
    then show ?thesis using less.prems by (subst unescape_loop.simps) auto
  qed
qed

lemma TextUnescape_writer: "text_writer (TextUnescape (Some s))"
  by (rule text_writerI, rule TextUnescape_def, intro fits_bind [OF fits_unescape_loop]) (auto intro!: fits_store)

subsubsection \<open>Percent encoding\<close>

lemma fits_uri_encode_loop: "w < n \<Longrightarrow> n \<le> length b \<Longrightarrow> fits n b (\<lambda>w'. w' < n) (uri_encode_loop cs b n w)"
  by (induction cs arbitrary: b w) (auto simp del: stores.simps intro!: fits_intros)

lemma TextUriEncode_writer: "text_writer (TextUriEncode (Some s))"
  by (rule text_writerI, rule TextUriEncode_def, intro fits_bind [OF fits_uri_encode_loop] fits_store) auto

lemma fits_uri_decode_loop: "w < n \<Longrightarrow> n \<le> length b \<Longrightarrow> fits n b (\<lambda>(w', ok). w' < n) (uri_decode_loop str b n r w)"
proof (induction "length str - r" arbitrary: b r w rule: less_induct)
  case less
  show ?case
  proof (cases "r < length str \<and> w < n - 1")
    case True
    have step: "fits n b' (\<lambda>(w', ok). w' < n) (uri_decode_loop str b' n r' (w + 1))" if "r < r'" "length b' = length b" for b' r'
      using less.hyps [of r' "w + 1" b'] less.prems True that by auto
    show ?thesis
      by (subst uri_decode_loop.simps) (use less.prems True in \<open>auto simp del: One_nat_def split: prod.split intro!: fits_store step dest!: ConsumeHexEscape_index\<close>)
  next
    case False
    then show ?thesis using less.prems by (subst uri_decode_loop.simps) auto
  qed
qed

lemma TextUriDecode_writer: "text_writer (TextUriDecode (Some s))"
  by (rule text_writerI, rule TextUriDecode_def, intro fits_bind [OF fits_uri_decode_loop]) (auto intro!: fits_store)

subsubsection \<open>Base64 and base32\<close>

lemma Base64EncodeBlock_length: "length (Base64EncodeBlock src) = 4"
  by (simp add: Base64EncodeBlock_def Let_def)

lemma fits_base64_groups: "w + 4 * g \<le> n \<Longrightarrow> n \<le> length b \<Longrightarrow> fits n b (\<lambda>w'. w' = w + 4 * g) (base64_groups src g b w)"
proof (induction g arbitrary: src b w)
  case (Suc g)
  show ?case using Suc.prems Suc.IH [of "w + 4"] by (auto simp: Base64EncodeBlock_length ac_simps intro!: fits_stores)
qed simp

lemma DecodeBase64Group_defined: "offset + 4 \<le> length src \<Longrightarrow> DecodeBase64Group src len offset \<noteq> None"
  by (simp add: DecodeBase64Group_def)

lemma base64_bytes_length: "length (base64_bytes t p) = p"
  by (simp add: base64_bytes_def)

lemma fits_base64_decode_loop:
  "w \<le> n \<Longrightarrow> n \<le> length b \<Longrightarrow> 4 dvd i \<Longrightarrow> 4 dvd length src \<Longrightarrow> fits n b (\<lambda>w'. w' \<le> n) (base64_decode_loop src i b n w)"
proof (induction "length src - i" arbitrary: b i w rule: less_induct)
  case less
  show ?case
  proof (cases "i < length src")
    case True
    with less.prems(3,4) have i: "i + 4 \<le> length src" by (auto elim!: dvdE)
    then obtain g where g: "DecodeBase64Group src (length src) i = Some g" using DecodeBase64Group_defined by blast
    have step: "fits n b' (\<lambda>w'. w' \<le> n) (base64_decode_loop src (i + 4) b' n w')" if "w' \<le> n" "length b' = length b" for b' w'
      using less.hyps [of "i + 4" w' b'] less.prems True that by auto
    show ?thesis
      by (subst base64_decode_loop.simps)
        (use less.prems True g in \<open>auto simp: base64_bytes_length split: option.split intro!: fits_stores step\<close>)
  qed (use less.prems in \<open>simp add: base64_decode_loop.simps\<close>)
qed

lemma Base64Decode_writer: "text_writer (Base64Decode (Some s))"
  by (rule text_writerI, rule Base64Decode_def, intro fits_if fits_base64_decode_loop) auto

lemma Base64Encode_writer: "text_writer (Base64Encode (Some src) (length src))"
proof (rule text_writerI, rule Base64Encode_def, unfold Let_def, intro fits_if fits_store fits_bind [OF fits_base64_groups])
qed (auto simp: Base64EncodeBlock_length split: if_splits intro!: fits_stores fits_store)

lemma fits_base32_chars:
  "bits = 5 * d + m \<Longrightarrow> m < 5 \<Longrightarrow> w + d \<le> n \<Longrightarrow> n \<le> length b \<Longrightarrow>
    fits n b (\<lambda>(bits', w'). bits' = m \<and> w' = w + d) (base32_chars buffer bits b w)"
proof (induction d arbitrary: bits b w)
  case (Suc d)
  have "fits n b' (\<lambda>(bits', w'). bits' = m \<and> w' = w + Suc d) (base32_chars buffer (bits - 5) b' (w + 1))" if "length b' = length b" for b'
    using Suc.IH [of "bits - 5" "w + 1" b'] Suc.prems that by simp
  with Suc.prems show ?case by (subst base32_chars.simps) (auto intro!: fits_store)
qed (simp add: base32_chars.simps)

lemma fits_base32_loop:
  "bits + 8 * length src = 5 * d + m \<Longrightarrow> m < 5 \<Longrightarrow> bits < 5 \<Longrightarrow> w + d \<le> n \<Longrightarrow> n \<le> length b \<Longrightarrow>
    \<exists>buffer' b'. base32_loop src buffer bits b w = Some (buffer', m, b', w + d) \<and> frame n b b'"
proof (induction src arbitrary: buffer bits b w d)
  case (Cons x src)
  obtain d1 m1 where 1: "bits + 8 = 5 * d1 + m1" "m1 < 5"
    using mult_div_mod_eq [of 5 "bits + 8"] mod_less_divisor [of 5 "bits + 8"] by (metis zero_less_numeral)
  have eq: "m1 + 8 * length src = 5 * (d - d1) + m" and d: "d1 \<le> d" using Cons.prems(1,2) 1 by simp_all
  obtain b1 where b1: "base32_chars (push_bit 8 buffer OR ucast x) (bits + 8) b w = Some (b1, m1, w + d1)" "frame n b b1"
    using fits_base32_chars [OF 1, of w n b "push_bit 8 buffer OR ucast x"] Cons.prems(4,5) d by (auto simp: fits_def)
  have "\<exists>buffer' b'. base32_loop src (push_bit 8 buffer OR ucast x) m1 b1 (w + d1) = Some (buffer', m, b', w + d) \<and> frame n b1 b'"
    using Cons.IH [OF eq Cons.prems(2) 1(2), of "w + d1" b1 "push_bit 8 buffer OR ucast x"] Cons.prems(4,5) d frame_length [OF b1(2)] by simp
  with b1(1) frame_trans [OF b1(2)] show ?case by auto
qed simp

lemma base32_size:
  fixes q r :: nat
  assumes "r < 5"
  shows "\<exists>d m. 8 * (5 * q + r) = 5 * d + m \<and> m < 5 \<and>
    (d + (if m > 0 then 1 else 0)) + (8 - (d + (if m > 0 then 1 else 0)) mod 8) mod 8 = 8 * (q + (if r \<noteq> 0 then 1 else 0))"
proof -
  have eight: "(8 * q + x) mod 8 = x mod 8" for x by simp
  have two: "Suc (Suc (8 * q)) mod 8 = 2" using eight [of 2] by (simp del: mod_mult_self4)
  consider "r = 0" | "r = 1" | "r = 2" | "r = 3" | "r = 4" using assms by linarith
  then show ?thesis
  proof cases
    case 1 then show ?thesis by (intro exI [of _ "8 * q"] exI [of _ 0]) simp
  next
    case 2 then show ?thesis by (intro exI [of _ "8 * q + 1"] exI [of _ 3]) (simp add: two)
  next
    case 3 then show ?thesis by (intro exI [of _ "8 * q + 3"] exI [of _ 1]) (simp add: eight add.assoc del: mod_mult_self4)
  next
    case 4 then show ?thesis by (intro exI [of _ "8 * q + 4"] exI [of _ 4]) (simp add: eight add.assoc del: mod_mult_self4)
  next
    case 5 then show ?thesis by (intro exI [of _ "8 * q + 6"] exI [of _ 2]) (simp add: eight add.assoc del: mod_mult_self4)
  qed
qed

lemma fits_base32_finish:
  assumes "w' = w + (if bits > 0 then 1 else 0)" "w' + (8 - w' mod 8) mod 8 < n" "n \<le> length b"
  shows "fits n b (\<lambda>k. k \<le> n) (base32_finish buffer bits b w)"
proof (cases "bits > 0")
  case True
  with assms show ?thesis by (auto simp: base32_finish_def Let_def intro!: fits_store fits_stores)
next
  case False
  with assms show ?thesis by (auto simp: base32_finish_def Let_def intro!: fits_store fits_stores)
qed

lemma Base32Encode_writer: "text_writer (Base32Encode (Some src) (length src))"
proof (rule text_writerI, rule Base32Encode_def, unfold Let_def, intro fits_if fits_store)
  fix b :: string and n assume n: "0 < n" "n \<le> length b" "length src \<noteq> 0"
    and room: "\<not> length src div 5 + (if length src mod 5 \<noteq> 0 then 1 else 0) > (n - 1) div 8"
  let ?L = "length src"
  let ?g = "?L div 5 + (if ?L mod 5 \<noteq> 0 then 1 else 0)"
  obtain d m where dm: "8 * ?L = 5 * d + m" "m < 5"
      "(d + (if m > 0 then 1 else 0)) + (8 - (d + (if m > 0 then 1 else 0)) mod 8) mod 8 = 8 * ?g"
    using base32_size [of "?L mod 5" "?L div 5"] by auto
  have g: "8 * ?g < n" using room n(1) by (auto split: if_splits)
  have d: "d \<le> 8 * ?g" unfolding dm(3) [symmetric] by (simp only: add.assoc le_add1)
  obtain buffer b1 where b1: "base32_loop src 0 0 b 0 = Some (buffer, m, b1, d)" "frame n b b1"
    using fits_base32_loop [of 0 src d m 0 n b 0] n g d dm(1,2) by auto
  have "fits n b1 (\<lambda>k. k \<le> n) (base32_finish buffer m b1 d)"
    by (rule fits_base32_finish [OF refl]) (simp_all only: dm(3) g n frame_length [OF b1(2)])
  then show "fits n b (\<lambda>k. k \<le> n) (base32_loop (take ?L src) 0 0 b 0 \<bind>
      (\<lambda>(buffer, bitsLeft, b, w). base32_finish buffer bitsLeft b w))"
    using fits_frame [OF b1(2)] by (simp add: b1(1))
qed auto

subsubsection \<open>The writers\<close>

interpretation unquote: text_writer "TextUnquote (Some s)" for s by (rule TextUnquote_writer)
interpretation quote: text_writer "TextQuote (Some s)" for s by (rule TextQuote_writer)
interpretation format_uint: text_writer "TextFormatUint v" for v by (rule TextFormatUint_writer)
interpretation format_hex: text_writer "TextFormatHexBytes (Some bs) (length bs) format" for bs format by (rule TextFormatHexBytes_writer)
interpretation hex_bytes: text_writer "TextHexStringToBytes (Some s)" for s by (rule TextHexStringToBytes_writer)
interpretation escape: text_writer "\<lambda>out n. TextEscape (Some s) out n mode" for s mode by (rule TextEscape_writer)
interpretation unescape: text_writer "TextUnescape (Some s)" for s by (rule TextUnescape_writer)
interpretation uri_encode: text_writer "TextUriEncode (Some s)" for s by (rule TextUriEncode_writer)
interpretation uri_decode: text_writer "TextUriDecode (Some s)" for s by (rule TextUriDecode_writer)
interpretation base64_encode: text_writer "Base64Encode (Some bs) (length bs)" for bs by (rule Base64Encode_writer)
interpretation base64_decode: text_writer "Base64Decode (Some s)" for s by (rule Base64Decode_writer)
interpretation base32_encode: text_writer "Base32Encode (Some bs) (length bs)" for bs by (rule Base32Encode_writer)

text \<open>A call with an output buffer \<^verbatim>\<open>a\<close> that is followed by other memory \<^verbatim>\<open>r\<close>.\<close>

definition stays_in :: "('b list option \<Rightarrow> nat \<Rightarrow> ('b list option \<times> nat) exec) \<Rightarrow> 'b list \<Rightarrow> 'b list \<Rightarrow> bool" where
  "stays_in f a r = (\<exists>a' k. f (Some (a @ r)) (length a) = Some (Some (a' @ r), k) \<and> length a' = length a \<and> k \<le> length a)"

text \<open>C24: whatever their input, the functions with an output buffer return, change nothing behind the \<open>outSize\<close> bytes of
  the buffer, and report at most that many bytes.\<close>

theorem text_writers_in_bounds:
  "stays_in (TextUnquote (Some s)) a r \<and> stays_in (TextQuote (Some s)) a r \<and> stays_in (TextFormatUint v) a r \<and>
   stays_in (TextFormatHexBytes (Some bs) (length bs) format) a r \<and> stays_in (\<lambda>out n. TextEscape (Some s) out n mode) a r \<and>
   stays_in (TextUnescape (Some s)) a r \<and> stays_in (TextUriEncode (Some s)) a r \<and> stays_in (TextUriDecode (Some s)) a r \<and>
   stays_in (Base64Encode (Some bs) (length bs)) a r \<and> stays_in (Base32Encode (Some bs) (length bs)) a r \<and>
   stays_in (TextHexStringToBytes (Some s)) ba br \<and> stays_in (Base64Decode (Some s)) ba br"
  unfolding stays_in_def
  by (intro conjI unquote.behind quote.behind format_uint.behind format_hex.behind escape.behind unescape.behind uri_encode.behind
      uri_decode.behind base64_encode.behind base32_encode.behind hex_bytes.behind base64_decode.behind)

subsection \<open>Check sums\<close>

lemma xor_left_inj: "inj (\<lambda>x. x XOR (a :: 'a::len word))" "inj (\<lambda>x. (a :: 'a::len word) XOR x)"
proof -
  show "inj (\<lambda>x. x XOR a)" by (rule injI) (metis xor.assoc xor_self_eq xor.right_neutral)
  then show "inj (\<lambda>x. a XOR x)" by (simp add: xor.commute)
qed

lemma xor_right_cancel: "x XOR m = y XOR m \<longleftrightarrow> x = y" for x y m :: "'a::len word"
  using xor_left_inj(1) [of m] by (auto simp: inj_def)

lemma crc32_bit_inj: "inj crc32_bit"
proof (rule injI)
  fix x y :: "32 word" assume eq: "crc32_bit x = crc32_bit y"
  have top: "bit (crc32_bit z) 31 \<longleftrightarrow> bit z 0" for z
    by (auto simp: crc32_bit_def bit_simps and_one_eq odd_iff_mod_2_eq_one bit_0 dest: bit_imp_le_length)
  have low: "bit x 0 \<longleftrightarrow> bit y 0" using top [of x] top [of y] eq by simp
  then have "drop_bit 1 x = drop_bit 1 y" 
    using eq by (auto simp: crc32_bit_def and_one_eq bit_0 odd_iff_mod_2_eq_one xor_right_cancel split: if_splits)
  then have "bit (drop_bit 1 x) n = bit (drop_bit 1 y) n" for n by simp
  then have "bit x (Suc n) = bit y (Suc n)" for n by (simp add: bit_simps)
  with low show "x = y" by (intro bit_eqI) (metis old.nat.exhaust)
qed

lemma crc16_bit_inj: "inj crc16_bit"
proof (rule injI)
  fix x y :: "16 word" assume eq: "crc16_bit x = crc16_bit y"
  have top: "z AND 0x8000 \<noteq> 0 \<longleftrightarrow> bit z 15" for z :: "16 word"
    using bit_iff_and_push_bit_not_eq_0 [of z 15] by simp
  have low: "bit (crc16_bit z) 0 \<longleftrightarrow> bit z 15" for z
    by (simp add: crc16_bit_def top bit_simps bit_0 even_xor_iff)
  have high: "bit x 15 \<longleftrightarrow> bit y 15" using low [of x] low [of y] eq by simp
  then have "push_bit 1 x = push_bit 1 y" using eq by (auto simp: crc16_bit_def top xor_right_cancel split: if_splits)
  moreover have "bit (push_bit 1 z) (Suc n) \<longleftrightarrow> bit z n" if "n < 15" for z :: "16 word" and n
    using that by (simp only: bit_push_bit_iff possible_bit_word) simp
  ultimately have "bit x n = bit y n" if "n < 15" for n using that by metis
  with high have "bit x n = bit y n" if "n < 16" for n using that by (cases "n = 15") auto
  then show "x = y" by (intro bit_word_eqI) simp
qed

lemma crc32_byte_inj: "inj (\<lambda>crc. crc32_byte crc b)" "inj (crc32_byte crc)"
proof -
  have 8: "inj (crc32_bit ^^ 8)" by (rule inj_fn [OF crc32_bit_inj])
  show "inj (\<lambda>crc. crc32_byte crc b)" unfolding crc32_byte_def by (rule inj_compose [OF 8 xor_left_inj(1), unfolded comp_def])
  have "inj (\<lambda>b :: 8 word. crc XOR ucast b)"
  proof (rule inj_compose [OF xor_left_inj(2), unfolded comp_def], rule injI, rule bit_word_eqI)
    fix x y :: "8 word" and n assume "(ucast x :: 32 word) = ucast y" "n < LENGTH(8)"
    then have "bit (ucast x :: 32 word) n = bit (ucast y :: 32 word) n" "n < 8" by simp_all
    then show "bit x n = bit y n" by (simp add: bit_simps)
  qed
  then show "inj (crc32_byte crc)" unfolding crc32_byte_def by (rule inj_compose [OF 8, unfolded comp_def])
qed

lemma crc16_byte_inj: "inj (\<lambda>crc. crc16_byte crc b)" "inj (crc16_byte crc)"
proof -
  have 8: "inj (crc16_bit ^^ 8)" by (rule inj_fn [OF crc16_bit_inj])
  show "inj (\<lambda>crc. crc16_byte crc b)" unfolding crc16_byte_def by (rule inj_compose [OF 8 xor_left_inj(1), unfolded comp_def])
  have "inj (\<lambda>b :: 8 word. push_bit 8 (ucast b :: 16 word))"
  proof (rule injI, rule bit_word_eqI)
    fix x y :: "8 word" and n assume "push_bit 8 (ucast x :: 16 word) = push_bit 8 (ucast y)" "n < LENGTH(8)"
    then have "bit (push_bit 8 (ucast x :: 16 word)) (n + 8) = bit (push_bit 8 (ucast y :: 16 word)) (n + 8)" "n < 8" by simp_all
    then show "bit x n = bit y n" by (simp add: bit_simps)
  qed
  then have "inj (\<lambda>b :: 8 word. crc XOR push_bit 8 (ucast b))"
    by (rule inj_compose [OF xor_left_inj(2), unfolded comp_def])
  then show "inj (crc16_byte crc)" unfolding crc16_byte_def by (rule inj_compose [OF 8, unfolded comp_def])
qed

lemma foldl_inj: "(\<And>b. inj (\<lambda>s. f s b)) \<Longrightarrow> foldl f s xs = foldl f t xs \<longleftrightarrow> s = t"
  by (induction xs arbitrary: s t) (auto dest: injD)

text \<open>C25: both check sums detect every change of a single byte, and the check sum of a text in two parts is computed by
  passing the check sum of the first part as the seed of the second.\<close>

theorem Crc_detects:
  "(Crc32 (xs @ b # ys) seed = Crc32 (xs @ b' # ys) seed \<longleftrightarrow> b = b') \<and>
   (Crc16 (xs @ b # ys) seed16 = Crc16 (xs @ b' # ys) seed16 \<longleftrightarrow> b = b') \<and>
   Crc32 (xs @ ys) seed = Crc32 ys (Crc32 xs seed) \<and> Crc16 (xs @ ys) seed16 = Crc16 ys (Crc16 xs seed16)"
proof (intro conjI)
  show "Crc32 (xs @ b # ys) seed = Crc32 (xs @ b' # ys) seed \<longleftrightarrow> b = b'"
    by (simp add: Crc32_def xor_right_cancel foldl_inj [OF crc32_byte_inj(1)] inj_eq [OF crc32_byte_inj(2)])
  show "Crc16 (xs @ b # ys) seed16 = Crc16 (xs @ b' # ys) seed16 \<longleftrightarrow> b = b'"
    by (simp add: Crc16_def foldl_inj [OF crc16_byte_inj(1)] inj_eq [OF crc16_byte_inj(2)])
  show "Crc32 (xs @ ys) seed = Crc32 ys (Crc32 xs seed)" by (simp add: Crc32_def xor.assoc)
  show "Crc16 (xs @ ys) seed16 = Crc16 ys (Crc16 xs seed16)" by (simp add: Crc16_def)
qed

subsection \<open>Round trips\<close>

lemma cstr_text: "CHR 0x00 \<notin> set s \<Longrightarrow> cstr (s @ CHR 0x00 # r) = Some s"
  by (auto simp: cstr_def) (induction s, auto)

lemma unat_byte: "unat (b :: 8 word) < 256"
  using unsigned_less [of b] by simp

lemma nibbles_join: "push_bit 4 (int (unat b div 16)) OR int (unat b mod 16) = int (unat b)" for b :: "8 word"
proof -
  have "list_all (\<lambda>h. list_all (\<lambda>l. push_bit 4 (int h) OR int l = int (16 * h + l)) [0..<16]) [0..<16]"
    by (simp add: upt_rec)
  moreover have "unat b div 16 < 16" "unat b mod 16 < 16" using unat_byte [of b] by simp_all
  ultimately have "push_bit 4 (int (unat b div 16)) OR int (unat b mod 16) = int (16 * (unat b div 16) + unat b mod 16)"
    unfolding list_all_iff by (metis atLeastLessThan_iff le0 set_upt)
  then show ?thesis by simp
qed

lemma nibble_bounds: "hi_nibble b < 16" "lo_nibble b < 16"
  using unat_byte [of b] by (simp_all add: hi_nibble_div lo_nibble_mod)

lemma unat_ascii: "unat (of_nat (ascii c) :: 8 word) = ascii c"
  by (simp add: unat_of_nat)

text \<open>Two hex digits of a byte at a position of a text.\<close>

lemma ConsumeHexEscape_digits:
  fixes b :: "8 word"
  assumes "str = pre @ [e, AsciiNibbleToHex (hi_nibble b) f, AsciiNibbleToHex (lo_nibble b) f] @ post"
  shows "ConsumeHexEscape str (length str) (length pre) = (int (unat b), length pre + 3)"
  using nibbles_join [of b] nibble_bounds [of b]
  by (simp add: assms ConsumeHexEscape_def Let_def nth_append nibble_roundtrip hi_nibble_div lo_nibble_mod)

subsubsection \<open>Percent encoding\<close>

definition uri_char :: "char \<Rightarrow> string" where
  "uri_char c =
     (if URI_ENCODE_TABLE ! ascii c = 0 then [c]
      else [CHR ''%'', AsciiNibbleToHex (hi_nibble (of_nat (ascii c))) HEX_FORMAT_UPPER,
            AsciiNibbleToHex (lo_nibble (of_nat (ascii c))) HEX_FORMAT_UPPER])"

definition uri_text :: "string \<Rightarrow> string" where
  "uri_text s = concat (map uri_char s)"

lemma uri_percent: "URI_ENCODE_TABLE ! ascii (CHR ''%'') \<noteq> 0"
  by (simp add: ascii_def URI_ENCODE_TABLE_def)

lemma uri_encode_full:
  "length ys + length (uri_text s) < n \<Longrightarrow> n \<le> length ys + length rest \<Longrightarrow>
    uri_encode_loop s (ys @ rest) n (length ys) = Some ((ys @ uri_text s) @ drop (length (uri_text s)) rest, length ys + length (uri_text s))"
proof (induction s arbitrary: ys rest)
  case (Cons c s)
  have tx: "uri_text (c # s) = uri_char c @ uri_text s" by (simp add: uri_text_def)
  have len: "length (uri_char c) \<le> length rest" using Cons.prems tx by simp
  have IH: "uri_encode_loop s ((ys @ uri_char c) @ drop (length (uri_char c)) rest) n (length ys + length (uri_char c)) =
      Some ((ys @ uri_text (c # s)) @ drop (length (uri_text (c # s))) rest, length ys + length (uri_text (c # s)))"
    using Cons.IH [of "ys @ uri_char c" "drop (length (uri_char c)) rest"] Cons.prems len tx by (simp add: ac_simps)
  show ?case
  proof (cases "URI_ENCODE_TABLE ! ascii c = 0")
    case True
    then have u: "uri_char c = [c]" by (simp add: uri_char_def)
    then have "rest \<noteq> []" using len by auto
    with u IH True Cons.prems tx store_next [of rest ys c] show ?thesis by (auto simp: drop_Suc)
  next
    case False
    then have u: "uri_char c = [CHR ''%'', AsciiNibbleToHex (hi_nibble (of_nat (ascii c))) HEX_FORMAT_UPPER,
            AsciiNibbleToHex (lo_nibble (of_nat (ascii c))) HEX_FORMAT_UPPER]" by (simp add: uri_char_def)
    then have "length (uri_char c) = 3" by simp
    with False IH Cons.prems tx stores_next [OF len, of ys] show ?thesis by (simp only: uri_encode_loop.simps u [symmetric] if_False) simp
  qed
qed (simp add: uri_text_def)

lemma uri_decode_full:
  "str = pre @ uri_text s \<Longrightarrow> CHR 0x00 \<notin> set s \<Longrightarrow> length ys + length s < n \<Longrightarrow> n \<le> length ys + length rest \<Longrightarrow>
    uri_decode_loop str (ys @ rest) n (length pre) (length ys) = Some ((ys @ s) @ drop (length s) rest, length ys + length s, True)"
proof (induction s arbitrary: pre ys rest)
  case Nil
  then show ?case by (simp add: uri_text_def uri_decode_loop.simps)
next
  case (Cons c s)
  have tx: "uri_text (c # s) = uri_char c @ uri_text s" by (simp add: uri_text_def)
  have rest: "rest \<noteq> []" using Cons.prems by auto
  have IH: "uri_decode_loop str ((ys @ [c]) @ tl rest) n (length pre + length (uri_char c)) (length ys + 1) =
      Some ((ys @ c # s) @ drop (length (c # s)) rest, length ys + length (c # s), True)"
    using Cons.IH [of "pre @ uri_char c" "ys @ [c]" "tl rest"] Cons.prems tx rest by (simp add: drop_Suc)
  have c0: "ascii c \<noteq> 0" using Cons.prems(2) ascii_inj [of c "CHR 0x00"] by (auto simp: ascii_def)
  show ?case
  proof (cases "URI_ENCODE_TABLE ! ascii c = 0")
    case True
    then have u: "uri_char c = [c]" by (simp add: uri_char_def)
    have "c \<noteq> CHR ''%''" using True uri_percent by auto
    with u IH Cons.prems(1,3) tx store_next [OF rest, of ys c] show ?thesis
      by (subst uri_decode_loop.simps) (simp add: nth_append)
  next
    case False
    then have u: "uri_char c = [CHR ''%'', AsciiNibbleToHex (hi_nibble (of_nat (ascii c))) HEX_FORMAT_UPPER,
            AsciiNibbleToHex (lo_nibble (of_nat (ascii c))) HEX_FORMAT_UPPER]" by (simp add: uri_char_def)
    have "ConsumeHexEscape str (length str) (length pre) = (int (ascii c), length pre + 3)"
      using ConsumeHexEscape_digits [of str pre "CHR ''%''" "of_nat (ascii c)" HEX_FORMAT_UPPER "uri_text s"] Cons.prems(1) tx u
      by (simp add: unat_ascii)
    with c0 u IH Cons.prems(1,3) tx store_next [OF rest, of ys c] show ?thesis
      by (subst uri_decode_loop.simps) (auto simp: nth_append numeral_3_eq_3)
  qed
qed

lemma AsciiNibbleToHex_no_nul: "AsciiNibbleToHex n f \<noteq> CHR 0x00"
proof
  assume *: "AsciiNibbleToHex n f = CHR 0x00"
  then have "n < 16" by (auto simp: AsciiNibbleToHex_def split: if_splits)
  with nibble_roundtrip [of n f] * show False by (simp add: AsciiHexToNibble_eq digit_val_def ascii_def)
qed

lemma uri_text_no_nul: "CHR 0x00 \<notin> set s \<Longrightarrow> CHR 0x00 \<notin> set (uri_text s)"
  by (auto simp: uri_text_def uri_char_def AsciiNibbleToHex_no_nul [symmetric] split: if_splits)

lemma uri_text_length: "length (uri_text s) \<le> 3 * length s"
  by (induction s) (auto simp: uri_text_def uri_char_def)

text \<open>C23: decoding a percent encoded string gives the string back, if both buffers have room.\<close>

theorem Uri_roundtrip:
  assumes "CHR 0x00 \<notin> set s" "3 * length s < outSize" "outSize \<le> length out" "length s < bufSize" "bufSize \<le> length buf"
  shows "\<exists>out' str buf'. TextUriEncode (Some s) (Some out) outSize = Some (Some out', length str) \<and> cstr out' = Some str \<and>
    TextUriDecode (Some str) (Some buf) bufSize = Some (Some buf', length s) \<and> cstr buf' = Some s"
proof -
  let ?t = "uri_text s" and ?n = "CHR 0x00"
  have room: "length ?t < outSize" using uri_text_length [of s] assms(2) by simp
  let ?o = "?t @ ?n # drop (length ?t + 1) out" and ?b = "s @ ?n # drop (length s + 1) buf"
  have "TextUriEncode (Some s) (Some out) outSize = Some (Some ?o, length ?t)"
    using uri_encode_full [of "[]" s outSize out] store_next [of "drop (length ?t) out" ?t ?n] room assms(3)
    by (simp add: TextUriEncode_def with_out_def tl_drop drop_Suc flip: drop_Suc)
  moreover have "TextUriDecode (Some ?t) (Some buf) bufSize = Some (Some ?b, length s)"
    using uri_decode_full [of ?t "[]" s "[]" bufSize buf] store_next [of "drop (length s) buf" s ?n] assms(1,4,5)
    by (simp add: TextUriDecode_def with_out_def tl_drop drop_Suc flip: drop_Suc)
  ultimately show ?thesis using cstr_text [OF assms(1)] cstr_text [OF uri_text_no_nul [OF assms(1)]] by blast
qed

theorem Uri_roundtrip_witness:
  "\<exists>out' str buf'. TextUriEncode (Some ''a b%'') (Some (replicate 16 (CHR ''z''))) 16 = Some (Some out', length str) \<and> cstr out' = Some str \<and>
    TextUriDecode (Some str) (Some (replicate 8 (CHR ''z''))) 8 = Some (Some buf', length ''a b%'') \<and> cstr buf' = Some ''a b%''"
  using Uri_roundtrip [of "''a b%''" 16 "replicate 16 (CHR ''z'')" 8 "replicate 8 (CHR ''z'')"] by simp

subsubsection \<open>Base64\<close>

lemma base64_tables: "i < 64 \<Longrightarrow> BASE64_DECODE_TABLE ! ascii (BASE64_ENCODE_TABLE ! i) = int i \<and> BASE64_ENCODE_TABLE ! i \<noteq> CHR ''='' \<and> BASE64_ENCODE_TABLE ! i \<noteq> CHR 0x00"
proof -
  have "list_all (\<lambda>i. BASE64_DECODE_TABLE ! ascii (BASE64_ENCODE_TABLE ! i) = int i \<and> BASE64_ENCODE_TABLE ! i \<noteq> CHR ''='' \<and> BASE64_ENCODE_TABLE ! i \<noteq> CHR 0x00) [0..<64]"
    by (simp add: upt_rec BASE64_ENCODE_TABLE_def BASE64_DECODE_TABLE_def ascii_def)
  then show "i < 64 \<Longrightarrow> ?thesis" by (simp add: list_all_iff)
qed

definition base64_buffer :: "8 word list \<Rightarrow> 32 word" where
  "base64_buffer src = push_bit ((3 - length src) * 8) (foldl (\<lambda>buffer b. push_bit 8 buffer OR ucast b) 0 src)"

definition sextet :: "32 word \<Rightarrow> nat \<Rightarrow> nat" where
  "sextet buffer i = unat (drop_bit (6 * (3 - i)) buffer AND 0x3F)"

lemma sextet_less: "sextet B i < 64"
proof -
  have "drop_bit (6 * (3 - i)) B AND 0x3F \<le> 0x3F" by (rule word_and_le1)
  then show ?thesis by (simp add: sextet_def word_le_nat_alt)
qed

lemma Base64EncodeBlock_sextets:
  "Base64EncodeBlock src = map (\<lambda>i. if length src = 0 \<or> i < length src + 1 then BASE64_ENCODE_TABLE ! sextet (base64_buffer src) i else CHR ''='') [0..<4]"
  by (simp add: Base64EncodeBlock_def base64_buffer_def sextet_def Let_def)

lemma bit_masks: "bit (0x3F :: int) n \<longleftrightarrow> n < 6" "bit (0xFF :: int) n \<longleftrightarrow> n < 8"
proof -
  have "(0x3F :: int) = mask 6" "(0xFF :: int) = mask 8" by (simp_all add: mask_eq_exp_minus_1)
  then show "bit (0x3F :: int) n \<longleftrightarrow> n < 6" "bit (0xFF :: int) n \<longleftrightarrow> n < 8"
    by (simp_all only: bit_mask_iff) simp_all
qed

lemma four: "[0..<4] = [0, 1, 2, 3 :: nat]"
  by (simp add: upt_rec)

lemma triple_bits:
  assumes "n < 24"
  shows "bit (base64_triple (map (\<lambda>i. int (sextet B i)) [0..<4])) n \<longleftrightarrow> bit B n"
proof -
  have sx: "bit (sextet B i) (n - 6 * (3 - i)) \<longleftrightarrow> n < 6 * (3 - i) + 6 \<and> bit B n" if "6 * (3 - i) \<le> n" for i
    using that by (auto simp: sextet_def bit_simps bit_masks)
  show ?thesis using assms sx [of 0] sx [of 1] sx [of 2] sx [of 3] by (auto simp: base64_triple_def four bit_simps)
qed

lemma base64_bytes_cong: "(\<And>n. n < 24 \<Longrightarrow> bit T n \<longleftrightarrow> bit B n) \<Longrightarrow> base64_bytes T p = base64_bytes B p"
  by (auto simp: base64_bytes_def bit_simps bit_masks intro!: bit_word_eqI)

lemma buffer_bits:
  "bit (base64_buffer [a, b, c]) n \<longleftrightarrow> (if n < 8 then bit c n else if n < 16 then bit b (n - 8) else bit a (n - 16))"
  "bit (base64_buffer [a, b]) n \<longleftrightarrow> (if n < 8 then False else if n < 16 then bit b (n - 8) else bit a (n - 16))"
  "bit (base64_buffer [a]) n \<longleftrightarrow> (if n < 16 then False else bit a (n - 16))"
  by (auto simp: base64_buffer_def bit_simps dest: bit_imp_le_length)

lemma sextet_zero:
  assumes "\<And>m. m < 6 \<Longrightarrow> \<not> bit B (6 * (3 - i) + m)"
  shows "sextet B i = 0"
proof -
  have "drop_bit (6 * (3 - i)) B AND 0x3F = 0" by (rule bit_word_eqI) (use assms in \<open>auto simp: bit_simps bit_masks\<close>)
  then show ?thesis by (simp add: sextet_def)
qed

lemma base64_bytes_buffer:
  "base64_bytes (base64_buffer [a, b, c]) 3 = [a, b, c]" "base64_bytes (base64_buffer [a, b]) 2 = [a, b]" "base64_bytes (base64_buffer [a]) 1 = [a]"
proof -
  show "base64_bytes (base64_buffer [a, b, c]) 3 = [a, b, c]"
    by (simp add: base64_bytes_def upt_rec) (auto simp: bit_simps bit_masks buffer_bits intro!: bit_word_eqI)
  show "base64_bytes (base64_buffer [a, b]) 2 = [a, b]"
    by (simp add: base64_bytes_def upt_rec) (auto simp: bit_simps bit_masks buffer_bits intro!: bit_word_eqI)
  show "base64_bytes (base64_buffer [a]) 1 = [a]"
    by (simp add: base64_bytes_def upt_rec) (auto simp: bit_simps bit_masks buffer_bits intro!: bit_word_eqI)
qed

text \<open>The groups of a block and what they stand for.\<close>

lemma Decode_block:
  assumes n: "0 < length src" "length src \<le> 3" and post: "length src = 3 \<or> post = []"
    and str: "str = pre @ Base64EncodeBlock src @ post"
  shows "\<exists>grp. DecodeBase64Group str (length str) (length pre) = Some (Some (grp, length src)) \<and>
    base64_bytes (base64_triple grp) (length src) = src"
proof -
  let ?B = "base64_buffer src" and ?s = "\<lambda>i. BASE64_ENCODE_TABLE ! sextet (base64_buffer src) i"
  have tab: "BASE64_DECODE_TABLE ! ascii (?s i) = int (sextet ?B i)" "?s i \<noteq> CHR ''=''" for i
    using base64_tables [OF sextet_less] by auto
  have pad: "\<not> BASE64_DECODE_TABLE ! ascii (CHR ''='') \<ge> 0" by (simp add: BASE64_DECODE_TABLE_def ascii_def)
  have grp: "base64_bytes (base64_triple (map (\<lambda>i. int (sextet ?B i)) [0..<4])) p = base64_bytes ?B p" for p
    by (rule base64_bytes_cong [OF triple_bits])
  have cs: "map (\<lambda>n. str ! (length pre + n)) [0..<4] = Base64EncodeBlock src"
    by (simp add: str nth_append Base64EncodeBlock_length) (simp add: list_eq_iff_nth_eq Base64EncodeBlock_length)
  have len: "length pre + 4 \<le> length str" by (simp add: str Base64EncodeBlock_length)
  consider (three) a b c where "src = [a, b, c]" | (two) a b where "src = [a, b]" | (one) a where "src = [a]"
    using n by (auto simp: numeral_3_eq_3 le_Suc_eq length_Suc_conv)
  then show ?thesis
  proof cases
    case three
    then have blk: "Base64EncodeBlock src = [?s 0, ?s 1, ?s 2, ?s 3]" by (simp add: Base64EncodeBlock_sextets four)
    have "DecodeBase64Group str (length str) (length pre) = Some (Some (map (\<lambda>i. int (sextet ?B i)) [0..<4], 3))"
      using len tab by (simp only: DecodeBase64Group_def cs blk) (simp add: base64_group_def four)
    with three grp [of 3] base64_bytes_buffer(1) [of a b c] show ?thesis by (auto simp: numeral_3_eq_3)
  next
    case two
    then have blk: "Base64EncodeBlock src = [?s 0, ?s 1, ?s 2, CHR ''='']" by (simp add: Base64EncodeBlock_sextets four)
    have z: "sextet ?B 3 = 0" by (rule sextet_zero) (simp add: two buffer_bits)
    have fin: "length pre + 4 = length str" using post two by (simp add: str Base64EncodeBlock_length)
    have "DecodeBase64Group str (length str) (length pre) = Some (Some (map (\<lambda>i. int (sextet ?B i)) [0..<4], 2))"
      using len fin tab pad z by (simp only: DecodeBase64Group_def cs blk) (simp add: base64_group_def four)
    with two grp [of 2] base64_bytes_buffer(2) [of a b] show ?thesis by (auto simp: numeral_2_eq_2)
  next
    case one
    then have blk: "Base64EncodeBlock src = [?s 0, ?s 1, CHR ''='', CHR ''='']" by (simp add: Base64EncodeBlock_sextets four)
    have z: "sextet ?B 2 = 0" "sextet ?B 3 = 0" by (rule sextet_zero, simp add: one buffer_bits)+
    have fin: "length pre + 4 = length str" using post one by (simp add: str Base64EncodeBlock_length)
    have "DecodeBase64Group str (length str) (length pre) = Some (Some (map (\<lambda>i. int (sextet ?B i)) [0..<4], 1))"
      using len fin tab pad z by (simp only: DecodeBase64Group_def cs blk) (simp add: base64_group_def four)
    with one grp [of 1] base64_bytes_buffer(3) [of a] show ?thesis by auto
  qed
qed

text \<open>The text of a list of bytes.\<close>

function base64_text :: "8 word list \<Rightarrow> string" where
  "base64_text src = (if src = [] then [] else Base64EncodeBlock (take 3 src) @ base64_text (drop 3 src))"
  by pat_completeness auto
termination
  by (relation "measure length") auto

declare base64_text.simps [simp del]

lemma base64_text_length: "length (base64_text src) = 4 * ((length src + 2) div 3)"
proof (induction src rule: base64_text.induct)
  case (1 src)
  show ?case
  proof (cases "length src \<le> 3")
    case True
    then consider "length src = 0" | "length src = 1" | "length src = 2" | "length src = 3" by linarith
    then show ?thesis using 1 by cases (auto simp: base64_text.simps [of src] base64_text.simps [of "[]"] Base64EncodeBlock_length)
  next
    case False
    then have ne: "src \<noteq> []" by auto
    have "(length src + 2) div 3 = Suc ((length (drop 3 src) + 2) div 3)" using False by (simp add: le_div_geq)
    with 1 [OF ne] ne show ?thesis by (simp only: base64_text.simps [of src] if_False length_append Base64EncodeBlock_length mult_Suc_right)
  qed
qed

lemma base64_text_no_nul: "CHR 0x00 \<notin> set (base64_text src)"
proof (induction src rule: base64_text.induct)
  case (1 src)
  have nn: "CHR 0x00 \<noteq> BASE64_ENCODE_TABLE ! sextet B i" for B i using base64_tables [OF sextet_less, of B i] by auto
  have "CHR 0x00 \<notin> set (Base64EncodeBlock (take 3 src))" by (auto simp: Base64EncodeBlock_sextets nn split: if_splits)
  with 1 show ?case by (simp add: base64_text.simps [of src])
qed

lemma base64_decode_full:
  "str = pre @ base64_text src \<Longrightarrow> length ys + length src \<le> n \<Longrightarrow> n \<le> length ys + length rest \<Longrightarrow>
    base64_decode_loop str (length pre) (ys @ rest) n (length ys) = Some ((ys @ src) @ drop (length src) rest, length ys + length src)"
proof (induction src arbitrary: pre ys rest rule: base64_text.induct)
  case (1 src)
  show ?case
  proof (cases "src = []")
    case True
    with "1.prems" show ?thesis by (simp add: base64_text.simps [of "[]"] base64_decode_loop.simps)
  next
    case False
    let ?p = "take 3 src" and ?r = "drop 3 src"
    have str: "str = pre @ Base64EncodeBlock ?p @ base64_text ?r" using "1.prems"(1) False by (simp add: base64_text.simps [of src])
    have post: "length ?p = 3 \<or> base64_text ?r = []" by (cases "3 \<le> length src") (auto simp: base64_text.simps [of "[]"])
    obtain grp where grp: "DecodeBase64Group str (length str) (length pre) = Some (Some (grp, length ?p))"
        "base64_bytes (base64_triple grp) (length ?p) = ?p"
      using Decode_block [OF _ _ post str] False by auto
    have room: "length ys + length ?p \<le> n" "length ?p \<le> length rest" using "1.prems"(2,3) by auto
    have IH: "base64_decode_loop str (length pre + 4) ((ys @ ?p) @ drop (length ?p) rest) n (length ys + length ?p) =
        Some ((ys @ src) @ drop (length src) rest, length ys + length src)"
    proof -
      have parts: "?p @ ?r = src" "length ?p + length ?r = length src" "drop (length ?r) (drop (length ?p) rest) = drop (length src) rest"
        by (simp_all add: min_def)
      have h1: "str = (pre @ Base64EncodeBlock ?p) @ base64_text ?r" using str by simp
      have h2: "length (ys @ ?p) + length ?r \<le> n" using "1.prems"(2) parts(2) by (simp only: length_append)
      have h3: "n \<le> length (ys @ ?p) + length (drop (length ?p) rest)" using "1.prems"(3) room(2) by (simp only: length_append length_drop)
      from "1.IH" [OF False h1 h2 h3] show ?thesis by (simp only: length_append Base64EncodeBlock_length append_assoc parts(1,3) add.assoc parts(2))
    qed
    have "length pre < length str" using str by (simp add: Base64EncodeBlock_length)
    with grp stores_next [OF room(2), of ys] room(1) IH show ?thesis by (subst base64_decode_loop.simps) simp
  qed
qed

lemma base64_groups_text:
  "3 * g \<le> length src \<Longrightarrow> 4 * g \<le> length rest \<Longrightarrow>
    \<exists>E. base64_groups src g (ys @ rest) (length ys) = Some ((ys @ E) @ drop (4 * g) rest, length ys + 4 * g) \<and> length E = 4 * g \<and>
      base64_text src = E @ base64_text (drop (3 * g) src)"
proof (induction g arbitrary: src ys rest)
  case (Suc g)
  let ?E = "Base64EncodeBlock (take 3 src)"
  have len: "length ?E = 4" by (rule Base64EncodeBlock_length)
  have ne: "src \<noteq> []" using Suc.prems(1) by auto
  have p: "3 * g \<le> length (drop 3 src)" "4 * g \<le> length (drop 4 rest)" using Suc.prems by simp_all
  obtain E where E: "base64_groups (drop 3 src) g ((ys @ ?E) @ drop 4 rest) (length (ys @ ?E)) =
      Some (((ys @ ?E) @ E) @ drop (4 * g) (drop 4 rest), length (ys @ ?E) + 4 * g)" "length E = 4 * g"
      "base64_text (drop 3 src) = E @ base64_text (drop (3 * g) (drop 3 src))"
    using Suc.IH [OF p, of "ys @ ?E"] by blast
  have st: "stores (ys @ rest) (length ys) ?E = Some ((ys @ ?E) @ drop 4 rest)" using stores_next [of ?E rest ys] len Suc.prems(2) by simp
  show ?case
    by (rule exI [of _ "?E @ E"]) (use st E ne len in \<open>simp add: base64_text.simps [of src] ac_simps\<close>)
qed simp

lemma Base64Encode_text:
  assumes "length (base64_text src) < outSize" "outSize \<le> length out"
  shows "Base64Encode (Some src) (length src) (Some out) outSize =
    Some (Some (base64_text src @ CHR 0x00 # drop (length (base64_text src) + 1) out), length (base64_text src))"
proof (cases "src = []")
  case True
  then show ?thesis using assms by (cases out) (auto simp: Base64Encode_def with_out_def store_def base64_text.simps [of "[]"])
next
  case False
  let ?g = "length src div 3" and ?m = "length src mod 3" and ?t = "base64_text src" and ?n = "CHR 0x00"
  let ?r = "drop (3 * ?g) src" and ?k = "if ?m \<noteq> 0 then 1 else 0 :: nat"
  have "?g \<le> (length src + 2) div 3" by (rule div_le_mono) simp
  then have g: "4 * ?g \<le> length out" using assms base64_text_length [of src] by linarith
  have m: "length ?r = ?m" by (simp add: minus_mult_div_eq_mod)
  obtain E where E: "base64_groups src ?g ([] @ out) (length []) = Some (([] @ E) @ drop (4 * ?g) out, length [] + 4 * ?g)" "length E = 4 * ?g"
      "?t = E @ base64_text ?r"
    using base64_groups_text [of ?g src out "[]"] g by auto
  have tail: "base64_text ?r = (if ?m \<noteq> 0 then Base64EncodeBlock (take ?m (drop (?g * 3) src)) else [])"
  proof (cases "?m = 0")
    case True
    with m have "?r = []" by simp
    then show ?thesis using True by (simp only: base64_text.simps [of "[]"]) simp
  next
    case False
    with m have ne: "?r \<noteq> []" by auto
    have "?m < 3" by simp
    then have "take 3 ?r = ?r" "drop 3 ?r = []" "take ?m ?r = ?r" using m by simp_all
    with False ne show ?thesis by (simp only: base64_text.simps [of ?r] base64_text.simps [of "[]"] mult.commute [of ?g 3]) simp
  qed
  have len: "length ?t = 4 * (?g + ?k)" using E tail by (simp add: Base64EncodeBlock_length)
  have blocks: "\<not> ?g + ?k > (outSize - 1) div 4" using assms(1) len by (simp only: not_less less_eq_div_iff_mult_less_eq zero_less_numeral)
  have fin: "store (?t @ drop (length ?t) out) (length ?t) ?n = Some (?t @ ?n # drop (length ?t + 1) out)"
    using store_next [of "drop (length ?t) out" ?t ?n] assms by (simp add: tl_drop drop_Suc flip: drop_Suc)
  show ?thesis
  proof (cases "?m = 0")
    case True
    then have t: "?t = E" using E(3) tail by simp
    show ?thesis using False assms blocks E(1,2) fin True by (simp add: Base64Encode_def with_out_def Let_def t)
  next
    case m0: False
    let ?B = "Base64EncodeBlock (take ?m (drop (?g * 3) src))"
    have t: "?t = E @ ?B" using E(3) tail m0 by simp
    have st: "stores (E @ drop (4 * ?g) out) (4 * ?g) ?B = Some ((E @ ?B) @ drop (4 * ?g + 4) out)"
      using stores_next [of ?B "drop (4 * ?g) out" E] E(2) len m0 assms by (simp add: Base64EncodeBlock_length add.commute)
    show ?thesis using False assms blocks E(1,2) fin m0 st by (simp add: Base64Encode_def with_out_def Let_def t Base64EncodeBlock_length)
  qed
qed

text \<open>C22: decoding a base64 text gives the encoded bytes back, if both buffers have room.\<close>

theorem Base64_roundtrip:
  assumes "4 * ((length src + 2) div 3) < outSize" "outSize \<le> length out" "0 < bufSize" "length src \<le> bufSize" "bufSize \<le> length buf"
  shows "\<exists>out' str buf'. Base64Encode (Some src) (length src) (Some out) outSize = Some (Some out', length str) \<and> cstr out' = Some str \<and>
    Base64Decode (Some str) (Some buf) bufSize = Some (Some buf', length src) \<and> take (length src) buf' = src"
proof -
  let ?t = "base64_text src"
  have "Base64Encode (Some src) (length src) (Some out) outSize = Some (Some (?t @ CHR 0x00 # drop (length ?t + 1) out), length ?t)"
    by (rule Base64Encode_text) (use assms(1,2) base64_text_length [of src] in simp_all)
  moreover have "Base64Decode (Some ?t) (Some buf) bufSize = Some (Some (src @ drop (length src) buf), length src)"
    using base64_decode_full [of ?t "[]" src "[]" bufSize buf] assms(3-5) base64_text_length [of src]
    by (simp add: Base64Decode_def with_out_def)
  ultimately show ?thesis using cstr_text [OF base64_text_no_nul] by fastforce
qed

theorem Base64_roundtrip_witness:
  "\<exists>out' str buf'. Base64Encode (Some [0x00, 0xFF, 0x7F, 0x10]) (length [0x00, 0xFF, 0x7F, 0x10 :: 8 word]) (Some (replicate 9 (CHR ''z''))) 9 =
      Some (Some out', length str) \<and> cstr out' = Some str \<and>
    Base64Decode (Some str) (Some (replicate 4 0)) 4 = Some (Some buf', length [0x00, 0xFF, 0x7F, 0x10 :: 8 word]) \<and>
    take (length [0x00, 0xFF, 0x7F, 0x10 :: 8 word]) buf' = [0x00, 0xFF, 0x7F, 0x10]"
  by (rule Base64_roundtrip) simp_all

subsection \<open>Strings in place\<close>

lemma cstr_split: "cstr b = Some s \<longleftrightarrow> (\<exists>r. b = s @ CHR 0x00 # r) \<and> CHR 0x00 \<notin> set s"
proof
  assume "cstr b = Some s"
  then have s: "s = takeWhile (\<lambda>c. c \<noteq> CHR 0x00) b" and "CHR 0x00 \<in> set b" by (auto simp: cstr_def split: if_splits)
  then have "dropWhile (\<lambda>c. c \<noteq> CHR 0x00) b \<noteq> []" by auto
  then obtain r where "dropWhile (\<lambda>c. c \<noteq> CHR 0x00) b = CHR 0x00 # r" using hd_dropWhile [of "\<lambda>c. c \<noteq> CHR 0x00" b] by (cases "dropWhile (\<lambda>c. c \<noteq> CHR 0x00) b") auto
  then have "b = s @ CHR 0x00 # r" using s takeWhile_dropWhile_id [of "\<lambda>c. c \<noteq> CHR 0x00" b] by simp
  moreover have "CHR 0x00 \<notin> set s" using s by (auto dest: set_takeWhileD)
  ultimately show "(\<exists>r. b = s @ CHR 0x00 # r) \<and> CHR 0x00 \<notin> set s" by blast
qed (auto simp: cstr_text)

lemma for_range_map:
  "for_range (length xs) (length xs + length m) (\<lambda>i b. store b i (f (b ! i))) (xs @ m @ r) = Some (xs @ map f m @ r)"
proof (induction m arbitrary: xs)
  case (Cons x m)
  from Cons [of "xs @ [f x]"] show ?case by (subst for_range.simps) (simp add: store_def nth_append)
qed (simp add: for_range.simps)

lemma reverse_loop_rev:
  "reverse_loop (xs @ m @ r) (length xs) (length xs + length m - 1) = Some (xs @ rev m @ r)"
proof (induction m arbitrary: xs r rule: length_induct)
  case (1 m)
  show ?case
  proof (cases m)
    case Nil
    then show ?thesis by (subst reverse_loop.simps) simp
  next
    case (Cons a t)
    show ?thesis
    proof (cases t rule: rev_cases)
      case Nil
      then show ?thesis using Cons by (subst reverse_loop.simps) simp
    next
      case (snoc k z)
      then have m: "m = a # k @ [z]" using Cons by simp
      have "reverse_loop ((xs @ [z]) @ k @ ([a] @ r)) (length (xs @ [z])) (length (xs @ [z]) + length k - 1) = Some ((xs @ [z]) @ rev k @ ([a] @ r))"
        using 1 [rule_format, of k "xs @ [z]" "[a] @ r"] m by simp
      then show ?thesis
        by (subst reverse_loop.simps) (simp add: m nth_append list_update_append Let_def)
    qed
  qed
qed

lemma remove_loop:
  "for_range (length ks + length j) (length ks + length j + length m)
     (\<lambda>r (b, w). if b ! r \<noteq> c then do { b \<leftarrow> store b w (b ! r); Some (b, w + 1) } else Some (b, w)) (ks @ j @ m @ e, length ks) =
   Some (ks @ filter (\<lambda>x. x \<noteq> c) m @ drop (length (filter (\<lambda>x. x \<noteq> c) m)) (j @ m) @ e, length ks + length (filter (\<lambda>x. x \<noteq> c) m))"
proof (induction m arbitrary: ks j)
  case (Cons x m)
  show ?case
  proof (cases "x = c")
    case True
    with Cons.IH [of ks "j @ [x]"] show ?thesis by (subst for_range.simps) (simp add: nth_append)
  next
    case False
    obtain j' where j': "(ks @ j @ x # m @ e)[length ks := x] = (ks @ [x]) @ j' @ m @ e" "length j' = length j" "j' @ m = tl (j @ x # m)"
      by (cases j) auto
    then have "drop n (j' @ m) = drop (Suc n) (j @ x # m)" for n by (simp only: j'(3) drop_Suc)
    with False Cons.IH [of "ks @ [x]" j'] j'(1,2) show ?thesis by (subst for_range.simps) (simp add: nth_append store_def)
  qed
qed (simp add: for_range.simps)

text \<open>C26: on the buffer of a string, reversal, conversion of case and removal of a character leave the reversed, the converted
  and the filtered string, and nothing is read or written outside of the buffer.\<close>

theorem text_in_place:
  assumes "cstr b = Some s"
  shows "(\<exists>b'. TextReverse (Some b) = Some (Some b') \<and> length b' = length b \<and> cstr b' = Some (rev s)) \<and>
    (\<exists>b'. TextToLower (Some b) = Some (Some b') \<and> length b' = length b \<and> cstr b' = Some (map tolower s)) \<and>
    (\<exists>b'. TextRemoveChar (Some b) c = Some (Some b', length (filter (\<lambda>x. x = c) s)) \<and> length b' = length b \<and>
      cstr b' = Some (filter (\<lambda>x. x \<noteq> c) s))"
proof (intro conjI)
  obtain r where b: "b = s @ CHR 0x00 # r" and no: "CHR 0x00 \<notin> set s" using assms by (auto simp: cstr_split)
  show "\<exists>b'. TextReverse (Some b) = Some (Some b') \<and> length b' = length b \<and> cstr b' = Some (rev s)"
  proof (cases "length s \<le> 1")
    case True
    then have "rev s = s" by (cases s) auto
    with True assms show ?thesis by (simp add: TextReverse_def)
  next
    case False
    then show ?thesis using reverse_loop_rev [of "[]" s "CHR 0x00 # r"] cstr_text [of "rev s" r] no assms b
      by (simp add: TextReverse_def)
  qed
  have "CHR 0x00 \<noteq> tolower x" if "x \<in> set s" for x
    using no that ascii_inj [of "tolower x" "CHR 0x00"] by (auto simp: tolower_def ascii_def split: if_splits)
  then have "CHR 0x00 \<notin> set (map tolower s)" by auto
  then show "\<exists>b'. TextToLower (Some b) = Some (Some b') \<and> length b' = length b \<and> cstr b' = Some (map tolower s)"
    using for_range_map [of "[]" s AsciiToLower "CHR 0x00 # r"] assms b cstr_text
    by (simp add: TextToLower_def AsciiToLower_tolower)
  let ?k = "filter (\<lambda>x. x \<noteq> c) s"
  have k: "length s - length ?k = length (filter (\<lambda>x. x = c) s)" using sum_length_filter_compl [of "\<lambda>x. x \<noteq> c" s] by simp
  obtain y ys where y: "drop (length ?k) s @ CHR 0x00 # r = y # ys" by (cases "drop (length ?k) s") auto
  have le: "length ?k \<le> length s" by simp
  have "length (drop (length ?k) s @ CHR 0x00 # r) = length (y # ys)" by (simp only: y)
  then have len: "length ?k + length (y # ys) = length b" using le b by (simp only: length_append length_drop list.size)
  have "for_range 0 (length s) (\<lambda>r (b, w). if b ! r \<noteq> c then do { b \<leftarrow> store b w (b ! r); Some (b, w + 1) } else Some (b, w)) (b, 0) =
      Some (?k @ y # ys, length ?k)"
    using remove_loop [of "[]" "[]" s c "CHR 0x00 # r"] y by (simp add: b)
  moreover have "cstr (?k @ CHR 0x00 # ys) = Some ?k" by (rule cstr_text) (use no in auto)
  ultimately show "\<exists>b'. TextRemoveChar (Some b) c = Some (Some b', length (filter (\<lambda>x. x = c) s)) \<and> length b' = length b \<and>
      cstr b' = Some (filter (\<lambda>x. x \<noteq> c) s)"
    using assms k len by (simp add: TextRemoveChar_def store_def)
qed

theorem text_in_place_witness:
  "(\<exists>b'. TextReverse (Some [CHR ''A'', CHR ''b'', CHR 0x00, CHR ''z'']) = Some (Some b') \<and> length b' = length [CHR ''A'', CHR ''b'', CHR 0x00, CHR ''z''] \<and>
      cstr b' = Some (rev ''Ab'')) \<and>
    (\<exists>b'. TextToLower (Some [CHR ''A'', CHR ''b'', CHR 0x00, CHR ''z'']) = Some (Some b') \<and> length b' = length [CHR ''A'', CHR ''b'', CHR 0x00, CHR ''z''] \<and>
      cstr b' = Some (map tolower ''Ab'')) \<and>
    (\<exists>b'. TextRemoveChar (Some [CHR ''A'', CHR ''b'', CHR 0x00, CHR ''z'']) (CHR ''A'') = Some (Some b', length (filter (\<lambda>x. x = CHR ''A'') ''Ab'')) \<and>
      length b' = length [CHR ''A'', CHR ''b'', CHR 0x00, CHR ''z''] \<and> cstr b' = Some (filter (\<lambda>x. x \<noteq> CHR ''A'') ''Ab''))"
  by (rule text_in_place) (simp add: cstr_def)

subsection \<open>Digits that are not checked\<close>

lemma fff: "h < 16 \<Longrightarrow> char_of (nat (push_bit 4 255 OR int h)) = (char_of (240 + h) :: char)"
proof -
  have "list_all (\<lambda>h. char_of (nat (push_bit 4 255 OR int h)) = (char_of (240 + h) :: char)) [0..<16]"
    by (simp add: upt_rec char_of_def bit_0)
  then show "h < 16 \<Longrightarrow> ?thesis" by (simp add: list_all_iff)
qed

lemma hex_x: "AsciiHexToNibble (CHR ''x'') = 255"
  by (simp add: AsciiHexToNibble_eq digit_val_def ascii_def)

lemma zeros: "replicate 8 z = [z, z, z, z, z, z, z, z]" "replicate 6 z = [z, z, z, z, z, z]" "replicate 4 z = [z, z, z, z]"
  by (simp_all add: numeral_eq_Suc)

lemma TextUnescape_x:
  assumes "AsciiHexToNibble h = int v" "v < 16" "l \<noteq> CHR 0x5C"
  shows "TextUnescape (Some [CHR 0x5C, CHR ''x'', h, l]) (Some (replicate 8 (CHR 0x00))) 8 = Some (Some (char_of (240 + v) # l # replicate 6 (CHR 0x00)), 2)"
proof -
  have step: "unescape_step [CHR 0x5C, CHR ''x'', h, l] 0 = (push_bit 4 255 OR int v, 3)"
    using assms(1) by (simp add: unescape_step_def ConsumeHexEscape_def hex_x Let_def)
  have pos: "\<not> push_bit 4 255 OR int v < 0" "push_bit 4 255 OR int v \<noteq> 0" by (simp_all add: or_eq_0_iff)
  have l: "unescape_loop [CHR 0x5C, CHR ''x'', h, l] b 8 3 1 = Some (b[1 := l], 2, True)" if "length b = 8" for b
    using assms(3) that by (subst unescape_loop.simps) (simp add: store_def unescape_loop.simps [of _ _ _ 4])
  have "unescape_loop [CHR 0x5C, CHR ''x'', h, l] (replicate 8 (CHR 0x00)) 8 0 0 = Some ((replicate 8 (CHR 0x00))[0 := char_of (240 + v), 1 := l], 2, True)"
    by (subst unescape_loop.simps) (simp add: step pos fff [OF assms(2)] store_def l [unfolded One_nat_def] del: push_bit_numeral replicate.simps)
  then show ?thesis by (simp add: TextUnescape_def with_out_def store_def zeros)
qed

text \<open>C38: \<open>TextUnescape\<close> does not undo \<open>TextEscape\<close>: the escape \<open>\xHH\<close> of a character that is not printable is read from the
  letter \<open>x\<close> on, which counts as the digit 15, so that two other characters result.\<close>

theorem TextUnescape_hex:
  assumes "\<not> AsciiIsPrint c" "c \<noteq> CHR 0x09" "c \<noteq> CHR 0x0A" "c \<noteq> CHR 0x0D"
  shows "\<exists>out' str buf'. TextEscape (Some [c]) (Some (replicate 8 (CHR 0x00))) 8 ESCAPE_MODE_NAMED = Some (Some out', 4) \<and> cstr out' = Some str \<and>
    TextUnescape (Some str) (Some (replicate 8 (CHR 0x00))) 8 = Some (Some buf', 2) \<and>
    cstr buf' = Some [char_of (240 + ascii c div 16), AsciiNibbleToHex (ascii c mod 16) HEX_FORMAT_LOWER]"
proof -
  let ?h = "AsciiNibbleToHex (ascii c div 16) HEX_FORMAT_LOWER" and ?l = "AsciiNibbleToHex (ascii c mod 16) HEX_FORMAT_LOWER"
  have n: "hi_nibble (of_nat (ascii c)) = ascii c div 16" "lo_nibble (of_nat (ascii c)) = ascii c mod 16"
    by (simp_all add: hi_nibble_div lo_nibble_mod unat_ascii)
  have h: "ascii c div 16 < 16" by (rule less_mult_imp_div_less) simp
  have np: "c \<noteq> CHR 0x5C" "c \<noteq> CHR 0x22" "c \<noteq> CHR 0x27" using assms(1) by (auto simp: ascii_classes ascii_def)
  have nul: "?h \<noteq> CHR 0x00" "?l \<noteq> CHR 0x00" by (rule AsciiNibbleToHex_no_nul)+
  have bs: "?l \<noteq> CHR 0x5C"
    using nibble_roundtrip [of "ascii c mod 16" HEX_FORMAT_LOWER] by (auto simp: AsciiHexToNibble_eq digit_val_def ascii_def)
  have f: "char_of (240 + ascii c div 16) \<noteq> CHR 0x00"
  proof
    assume "char_of (240 + ascii c div 16) = CHR 0x00"
    with ascii_char_of [of "240 + ascii c div 16"] h have "ascii (CHR 0x00) = 240 + ascii c div 16" by simp
    then show False by (simp add: ascii_def)
  qed
  let ?str = "[CHR 0x5C, CHR ''x'', ?h, ?l]"
  have "TextEscape (Some [c]) (Some (replicate 8 (CHR 0x00))) 8 ESCAPE_MODE_NAMED = Some (Some (?str @ replicate 4 (CHR 0x00)), 4)"
    using assms np by (simp add: TextEscape_def with_out_def AppendEscape_def AppendNumericEscape_def store_def zeros n)
  moreover have "TextUnescape (Some ?str) (Some (replicate 8 (CHR 0x00))) 8 =
      Some (Some (char_of (240 + ascii c div 16) # ?l # replicate 6 (CHR 0x00)), 2)"
    by (rule TextUnescape_x [OF nibble_roundtrip [OF h] h bs])
  moreover have "cstr (?str @ replicate 4 (CHR 0x00)) = Some ?str" using cstr_text [of ?str "[CHR 0x00, CHR 0x00, CHR 0x00]"] nul by (simp add: zeros)
  moreover have "cstr (char_of (240 + ascii c div 16) # ?l # replicate 6 (CHR 0x00)) = Some [char_of (240 + ascii c div 16), ?l]"
    using cstr_text [of "[char_of (240 + ascii c div 16), ?l]" "[CHR 0x00, CHR 0x00, CHR 0x00, CHR 0x00, CHR 0x00]"] nul f by (simp add: zeros)
  ultimately show ?thesis by blast
qed

theorem TextUnescape_hex_witness:
  "\<exists>out' str buf'. TextEscape (Some [CHR 0x01]) (Some (replicate 8 (CHR 0x00))) 8 ESCAPE_MODE_NAMED = Some (Some out', 4) \<and> cstr out' = Some str \<and>
    TextUnescape (Some str) (Some (replicate 8 (CHR 0x00))) 8 = Some (Some buf', 2) \<and>
    cstr buf' = Some [char_of (240 + ascii (CHR 0x01) div 16), AsciiNibbleToHex (ascii (CHR 0x01) mod 16) HEX_FORMAT_LOWER]"
  by (rule TextUnescape_hex) (simp_all add: ascii_classes ascii_def)

text \<open>\<open>TextHexStringToBytes\<close> accepts every string of even length, whether or not its characters are hex digits.\<close>

theorem TextHexStringToBytes_accepts:
  assumes "even (length s)" "length s div 2 \<le> n" "n \<le> length b" "0 < n"
  shows "\<exists>b'. TextHexStringToBytes (Some s) (Some b) n = Some (Some b', length s div 2)"
proof -
  have "\<exists>b'. hex_to_bytes s i k b = Some (b', True)" if "i + k \<le> length b" for i k and b :: "8 word list"
    using that by (induction k arbitrary: i b) (auto simp: AsciiHexToNibble_nonneg store_def Let_def)
  from this [of 0 "length s div 2" b] assms show ?thesis by (auto simp: TextHexStringToBytes_def with_out_def)
qed

theorem TextHexStringToBytes_accepts_witness:
  "\<exists>b'. TextHexStringToBytes (Some ''zz'') (Some [0]) 1 = Some (Some b', length ''zz'' div 2)"
  by (rule TextHexStringToBytes_accepts) simp_all

end
