(* ===== verification/Spec2Isabelle.thy ===== *)
theory Spec2Isabelle
  imports Param_Trie_Props Init_Utils Param_Write Param_Seqlock Trigger_Events Text_Codec
begin

text \<open>
  A verification development for the startup subsystem of the system: the init process, its system parameter
  service and its triggers.

  \<^bold>\<open>The program.\<close> The parameter service keeps named values in memory areas that all processes map. An area
  holds a trie: a node for every component of a dotted name, whose siblings form a binary search tree, with the
  offsets of an entry (name, value, commit id) and of a security label. Init is the only writer; readers detect a
  concurrent write by the commit id. When a parameter changes, triggers are evaluated: jobs of the configuration,
  waiters and watchers of clients. A trigger has a condition over parameters; one that holds is put into a queue
  and its commands are executed by the event loop. Lists, hash maps, text and string utilities are shared by all
  parts.

  \<^bold>\<open>Theories.\<close>
  \<^item> \<^verbatim>\<open>Prelude\<close>, \<^verbatim>\<open>CString\<close>: results, pointers, machine integers, return codes; the C string library.
  \<^item> \<^verbatim>\<open>Trie_Spec\<close>: the abstract specification of the parameters: binary search trees of tries, and maps from names.
  \<^item> \<^verbatim>\<open>Param_Trie\<close>: \<^verbatim>\<open>services/param/base/param_trie.c\<close> and \<^verbatim>\<open>param_include.h\<close>; the state is the header of an area
    with its cells by offset, one definition for every function. \<^verbatim>\<open>Param_Trie_Refine\<close>, \<^verbatim>\<open>Param_Keys\<close>, \<^verbatim>\<open>Param_Area\<close>,
    \<^verbatim>\<open>Param_Map\<close>, \<^verbatim>\<open>Param_Attach\<close>, \<^verbatim>\<open>Param_Ops\<close>: the area represents a trie of the specification, and every operation
    keeps that and is an operation on the map. \<^verbatim>\<open>Param_Demo\<close>, \<^verbatim>\<open>Param_Trie_Props\<close>: an example area; the properties.
  \<^item> \<^verbatim>\<open>Param_Space\<close>: \<^verbatim>\<open>param_comm.c\<close>, \<^verbatim>\<open>param_base.c\<close> and \<^verbatim>\<open>adapter/param_dac.c\<close>: the workspaces of the labels, parsing of
    lines, loading of labels and the permission check.
  \<^item> \<^verbatim>\<open>Param_Manager\<close>: \<^verbatim>\<open>manager/param_manager.c\<close> and the readers of \<^verbatim>\<open>param_base.h\<close>. \<^verbatim>\<open>Param_Write\<close>: writes refine
    updates of the map, reads return what was written. \<^verbatim>\<open>Param_Seqlock\<close>: readers and the writer as interleaved steps.
  \<^item> \<^verbatim>\<open>Trigger_Checker\<close>, \<^verbatim>\<open>Trigger_Condition\<close>: \<^verbatim>\<open>trigger/trigger_checker.c\<close>; conversion and evaluation of a condition give its
    truth value, inside the buffers.
  \<^item> \<^verbatim>\<open>Linked_List\<close>, \<^verbatim>\<open>Hash_Map\<close>: \<^verbatim>\<open>services/utils/list.c\<close> and \<^verbatim>\<open>init_hashmap.c\<close> on a heap of nodes, refined to sequences
    and finite maps.
  \<^item> \<^verbatim>\<open>Trigger_Manager\<close>, \<^verbatim>\<open>Trigger_Processor\<close>: \<^verbatim>\<open>trigger/trigger_manager.c\<close>, \<^verbatim>\<open>trigger_processor.c\<close> and \<^verbatim>\<open>param_hook.c\<close>.
    \<^verbatim>\<open>Trigger_Queue\<close>: the execute queue is first in, first out. \<^verbatim>\<open>Trigger_Jobs\<close>: the invariant of the registry under every
    sequence of operations. \<^verbatim>\<open>Trigger_Events\<close>: an event executes the commands of the jobs that it makes true.
  \<^item> \<^verbatim>\<open>Init_Utils\<close>: the string functions of \<^verbatim>\<open>services/utils/init_utils.c\<close>. \<^verbatim>\<open>Text_Utils\<close>, \<^verbatim>\<open>Text_Codec\<close>: \<^verbatim>\<open>init_text_utils.c\<close>;
    round trips of the encodings, bounds of all output buffers, check sums.

  \<^bold>\<open>Interfaces.\<close> Locales state the contracts that several parts share, and are interpreted on the definitions of the
  model: the search tree and the map of the trie, the queue of triggers (\<^verbatim>\<open>fifo_queue\<close>), the keys of the hash map
  (\<^verbatim>\<open>hash_keys\<close>), and functions with an output buffer (\<^verbatim>\<open>text_writer\<close>).

  \<^bold>\<open>Conventions.\<close> A result \<^const>\<open>None\<close> of type \<^verbatim>\<open>exec\<close> means undefined behaviour of the C code or a loop that does not
  end, so a theorem with a result \<^const>\<open>Some\<close> states memory safety and termination. Errors of the code are return codes,
  as in the code. Offsets, lengths and commit ids have the width of the code. Loops are recursive functions with a
  termination proof, or \<^verbatim>\<open>partial_function\<close> with a proof that they return. There is no fuel.

  \<^bold>\<open>Configuration.\<close> The build without dynamic allocation of areas, SELinux labels, test hooks and flash only constants.

  \<^bold>\<open>Not modelled.\<close> Locks (init is the only writer; readers take none), logging and dumps, which do not change the state.
  Memory allocation succeeds in the lists and maps; in the areas it fails as in the code. What commands, hooks and
  callbacks do is a parameter of the definitions. The remaining parts of the program (process and service management,
  mounting, devices, sockets, JSON configuration, language bindings) are sequences of system calls and calls of
  libraries outside of the repository, with little state of their own that the kernel of a prover could check; the
  manifest lists them one by one.
\<close>

end
